(* ===== verification/Prelude.thy ===== *)
theory Prelude
  imports Complex_Main "HOL-Library.Word" "HOL-Library.AList"
    "HOL-Library.List_Lexorder" "HOL-Library.Char_ord"
begin

text \<open>
  What every component of the service shares: Go's 64-bit integers, times and
  durations in nanoseconds, the clock an operation reads, Go's maps, and Go's error
  values.  Nothing here is specific to one package of the repository.
\<close>

named_theorems clock_rules \<open>what a monotone clock guarantees between two readings\<close>
named_theorems gomap_simps \<open>lookups and sizes after the operations on a Go map\<close>

subsection \<open>64-bit integers\<close>

text \<open>
  Go's \<open>int64\<close> (and \<open>int\<close> on amd64, the platform the Dockerfile builds for) wraps
  around in two's complement.  A value is an \<open>int\<close> in the range of the type, and an
  operation that can leave the range is followed by \<open>wrap64\<close>.
\<close>

definition wrap64 :: "int \<Rightarrow> int" where
  "wrap64 x = (x + 2 ^ 63) mod 2 ^ 64 - 2 ^ 63"

definition in_i64 :: "int \<Rightarrow> bool" where
  "in_i64 x \<longleftrightarrow> - (2 ^ 63) \<le> x \<and> x < 2 ^ 63"

lemma wrap64_sint: "wrap64 x = sint (word_of_int x :: 64 word)"
  by (simp add: wrap64_def signed_of_int signed_take_bit_eq_take_bit_shift take_bit_eq_mod)

lemma wrap64_in_i64 [simp, intro]: "in_i64 (wrap64 x)"
proof -
  have "0 \<le> (x + 2 ^ 63) mod 2 ^ 64" and "(x + 2 ^ 63) mod 2 ^ 64 < (2 ^ 64 :: int)"
    by simp_all
  then show ?thesis by (simp add: wrap64_def in_i64_def)
qed

lemma wrap64_id [simp]: "in_i64 x \<Longrightarrow> wrap64 x = x"
  by (simp add: wrap64_def in_i64_def)

lemma wrap64_between: "- (2 ^ 63) \<le> x \<Longrightarrow> x < 2 ^ 63 \<Longrightarrow> wrap64 x = x"
  by (simp add: in_i64_def)

subsection \<open>Times, durations and clocks\<close>

text \<open>
  A \<open>time.Time\<close> is an instant in nanoseconds, a \<open>time.Duration\<close> an \<open>int64\<close> count
  of nanoseconds.  \<open>Time.Sub\<close> saturates at the ends of \<open>Duration\<close>; \<open>Time.Add\<close>
  is exact, since the instants the program adds to are far from the ends of
  \<open>time.Time\<close>.
\<close>

type_synonym instant = int
type_synonym duration = int

definition nanosecond :: duration where "nanosecond = 1"
definition millisecond :: duration where "millisecond = 1000000"
definition second :: duration where "second = 1000000000"
definition minute :: duration where "minute = 60 * second"
definition hour :: duration where "hour = 60 * minute"

lemmas duration_defs = nanosecond_def millisecond_def second_def minute_def hour_def

definition time_sub :: "instant \<Rightarrow> instant \<Rightarrow> duration" where
  "time_sub t u = max (- (2 ^ 63)) (min (2 ^ 63 - 1) (t - u))"

lemma time_sub_in_i64 [simp, intro]: "in_i64 (time_sub t u)"
  by (simp add: time_sub_def in_i64_def)

lemma time_sub_le_0 [simp]: "time_sub t u \<le> 0 \<longleftrightarrow> t \<le> u"
  by (auto simp: time_sub_def min_def max_def)

lemma time_sub_le: "u \<le> t \<Longrightarrow> time_sub t u \<le> t - u"
  by (auto simp: time_sub_def min_def max_def)

lemma time_sub_exact: "in_i64 (t - u) \<Longrightarrow> time_sub t u = t - u"
  by (auto simp: time_sub_def in_i64_def)

lemma time_sub_mono: "t \<le> t' \<Longrightarrow> time_sub t u \<le> time_sub t' u"
  by (auto simp: time_sub_def min_def max_def)

text \<open>
  An operation may read the clock several times, itself and through the operations it
  calls, and time passes between the readings.  A clock gives the reading at every
  point of one execution: the point is the path of call positions, in program order,
  that leads to the \<open>time.Now()\<close> (position \<open>i\<close> of the operation's own body, or
  position \<open>j\<close> in the body of the call at position \<open>i\<close>, and so on).  Go's
  monotonic clock never runs backwards, which is \<open>mono_clock\<close>: readings grow along
  the lexicographic order of the paths.
\<close>

type_synonym clock = "nat list \<Rightarrow> instant"

definition now_at :: "clock \<Rightarrow> nat \<Rightarrow> instant" where
  "now_at c i = c [i]"

definition in_call :: "clock \<Rightarrow> nat \<Rightarrow> clock" where
  "in_call c i = (\<lambda>p. c (i # p))"

definition mono_clock :: "clock \<Rightarrow> bool" where
  "mono_clock c \<longleftrightarrow> (\<forall>p q. p \<le> q \<longrightarrow> c p \<le> c q)"

lemma mono_clockD: "mono_clock c \<Longrightarrow> p \<le> q \<Longrightarrow> c p \<le> c q"
  by (simp add: mono_clock_def)

lemma mono_in_call [clock_rules, intro]: "mono_clock c \<Longrightarrow> mono_clock (in_call c i)"
  by (simp add: mono_clock_def in_call_def)

lemma now_at_le [clock_rules]: "mono_clock c \<Longrightarrow> i \<le> j \<Longrightarrow> now_at c i \<le> now_at c j"
  by (auto simp: now_at_def intro!: mono_clockD)

lemma in_call_le [clock_rules]: "mono_clock c \<Longrightarrow> i < j \<Longrightarrow> in_call c i p \<le> in_call c j q"
  by (auto simp: in_call_def intro!: mono_clockD)

lemma now_in_call_le [clock_rules]: "mono_clock c \<Longrightarrow> i < j \<Longrightarrow> now_at c i \<le> in_call c j p"
  by (auto simp: in_call_def now_at_def intro!: mono_clockD)

lemma in_call_now_le [clock_rules]: "mono_clock c \<Longrightarrow> i < j \<Longrightarrow> in_call c i p \<le> now_at c j"
  by (auto simp: in_call_def now_at_def intro!: mono_clockD)

lemma mono_const_clock [simp]: "mono_clock (\<lambda>_. t)"
  by (simp add: mono_clock_def)

lemma now_at_const [simp]: "now_at (\<lambda>_. t) i = t"
  by (simp add: now_at_def)

lemma in_call_const [simp]: "in_call (\<lambda>_. t) i = (\<lambda>_. t)"
  by (simp add: in_call_def)

subsection \<open>Go maps\<close>

text \<open>
  A Go map of one key type is a finite map.  Its interface is what the packages use of
  it: lookup, assignment, \<open>delete\<close>, \<open>len\<close>, and ranging over the entries.  The laws
  are those of the Go specification; what the components need beyond them is proved
  once, inside the locale.
\<close>

locale go_map =
  fixes lookup :: "'m \<Rightarrow> 'k \<Rightarrow> 'v option"
    and put :: "'k \<Rightarrow> 'v \<Rightarrow> 'm \<Rightarrow> 'm"
    and del :: "'k \<Rightarrow> 'm \<Rightarrow> 'm"
    and len :: "'m \<Rightarrow> nat"
    and empty :: 'm
    and ok :: "'m \<Rightarrow> bool"
  assumes ok_empty: "ok empty"
    and ok_put: "ok m \<Longrightarrow> ok (put k v m)"
    and ok_del: "ok m \<Longrightarrow> ok (del k m)"
    and lookup_empty: "lookup empty k = None"
    and lookup_put: "lookup (put k v m) k' = (if k' = k then Some v else lookup m k')"
    and lookup_del: "ok m \<Longrightarrow> lookup (del k m) k' = (if k' = k then None else lookup m k')"
    and len_empty: "len empty = 0"
    and len_put: "ok m \<Longrightarrow> len (put k v m) = (if lookup m k = None then Suc (len m) else len m)"
    and len_del: "ok m \<Longrightarrow> len (del k m) = (if lookup m k = None then len m else len m - 1)"
    and len_pos: "lookup m k \<noteq> None \<Longrightarrow> 0 < len m"
begin

lemma ok_del_all: "ok m \<Longrightarrow> ok (fold del ks m)"
  by (induction ks arbitrary: m) (auto simp: ok_del)

lemma lookup_del_all:
  "ok m \<Longrightarrow> lookup (fold del ks m) k = (if k \<in> set ks then None else lookup m k)"
  by (induction ks arbitrary: m) (auto simp: ok_del lookup_del)

lemma len_del_all:
  assumes "ok m" and "distinct ks" and "\<forall>k\<in>set ks. lookup m k \<noteq> None"
  shows "len (fold del ks m) + length ks = len m"
  using assms
proof (induction ks arbitrary: m)
  case Nil
  then show ?case by simp
next
  case (Cons k ks)
  then have "len (fold del ks (del k m)) + length ks = len (del k m)"
    by (intro Cons.IH) (auto simp: ok_del lookup_del)
  moreover have "len (del k m) + 1 = len m"
    using Cons.prems len_pos [of m k] by (simp add: len_del)
  ultimately show ?case by simp
qed

lemma len_put_le: "ok m \<Longrightarrow> len (put k v m) \<le> Suc (len m)"
  by (simp add: len_put)

lemma len_del_le: "ok m \<Longrightarrow> len (del k m) \<le> len m"
  by (simp add: len_del)

end

text \<open>
  The model of the map is an association list with distinct keys.  The order of the
  list is not the order in which Go ranges over the map (which is unspecified): where
  that order can show, the definition takes it as an argument.
\<close>

type_synonym ('k, 'v) gomap = "('k \<times> 'v) list"

definition gm_get :: "('k, 'v) gomap \<Rightarrow> 'k \<Rightarrow> 'v option" where
  "gm_get m k = map_of m k"

definition gm_put :: "'k \<Rightarrow> 'v \<Rightarrow> ('k, 'v) gomap \<Rightarrow> ('k, 'v) gomap" where
  "gm_put k v m = AList.update k v m"

definition gm_del :: "'k \<Rightarrow> ('k, 'v) gomap \<Rightarrow> ('k, 'v) gomap" where
  "gm_del k m = AList.delete k m"

definition gm_ok :: "('k, 'v) gomap \<Rightarrow> bool" where
  "gm_ok m \<longleftrightarrow> distinct (map fst m)"

lemma length_delete_distinct:
  "distinct (map fst m) \<Longrightarrow>
     length (AList.delete k m) = (if map_of m k = None then length m else length m - 1)"
proof (induction m)
  case Nil
  then show ?case by simp
next
  case (Cons e m)
  obtain a b where e: "e = (a, b)" by (cases e)
  show ?case
  proof (cases "a = k")
    case True
    with Cons.prems e have "map_of m k = None" by (auto simp: map_of_eq_None_iff)
    with Cons e True show ?thesis by (simp add: AList.delete_eq)
  next
    case False
    have "map_of m k \<noteq> None \<Longrightarrow> 0 < length m" by (cases m) auto
    moreover have "length (AList.delete k m) = (if map_of m k = None then length m else length m - 1)"
      using Cons by simp
    ultimately show ?thesis using False e by (auto simp: AList.delete_eq simp del: not_None_eq)
  qed
qed

lemma length_update_distinct:
  "length (AList.update k v m) = (if map_of m k = None then Suc (length m) else length m)"
  by (induction m) (auto split: if_splits)

interpretation gm: go_map "gm_get :: ('k, 'v) gomap \<Rightarrow> _" gm_put gm_del length "[]" gm_ok
proof unfold_locales
  fix m :: "('k, 'v) gomap" and k k' :: 'k and v :: 'v
  show "gm_ok ([] :: ('k, 'v) gomap)" by (simp add: gm_ok_def)
  show "gm_get ([] :: ('k, 'v) gomap) k = None" by (simp add: gm_get_def)
  show "gm_get (gm_put k v m) k' = (if k' = k then Some v else gm_get m k')"
    by (simp add: gm_get_def gm_put_def update_conv')
  show "gm_get m k \<noteq> None \<Longrightarrow> 0 < length m" by (cases m) (auto simp: gm_get_def)
  show "length ([] :: ('k, 'v) gomap) = 0" by simp
  assume ok: "gm_ok m"
  show "gm_ok (gm_put k v m)" using ok by (simp add: gm_ok_def gm_put_def distinct_update)
  show "gm_ok (gm_del k m)" using ok by (simp add: gm_ok_def gm_del_def distinct_delete)
  show "gm_get (gm_del k m) k' = (if k' = k then None else gm_get m k')"
    by (simp add: gm_get_def gm_del_def delete_conv')
  show "length (gm_put k v m) = (if gm_get m k = None then Suc (length m) else length m)"
    by (simp add: gm_put_def gm_get_def length_update_distinct)
  show "length (gm_del k m) = (if gm_get m k = None then length m else length m - 1)"
    using ok by (simp add: gm_del_def gm_get_def gm_ok_def length_delete_distinct)
qed

lemmas gm_laws [gomap_simps] =
  gm.ok_empty gm.ok_put gm.ok_del gm.lookup_empty gm.lookup_put gm.lookup_del
  gm.ok_del_all gm.lookup_del_all

lemma gm_get_in: "gm_ok m \<Longrightarrow> gm_get m k = Some v \<longleftrightarrow> (k, v) \<in> set m"
  by (simp add: gm_get_def gm_ok_def)

lemma gm_get_dom: "gm_get m k \<noteq> None \<longleftrightarrow> k \<in> fst ` set m"
  by (simp add: gm_get_def map_of_eq_None_iff)

subsection \<open>Errors\<close>

text \<open>
  The error values the program makes or tells apart.  \<open>ErrorString\<close> is an error known
  by its text only (\<open>errors.New\<close>, \<open>fmt.Errorf\<close> without \<open>%w\<close>, and the errors of
  libraries); \<open>WrapError\<close> is \<open>fmt.Errorf\<close> with a \<open>%w\<close> operand, given by the text
  in front of the operand and the wrapped error.  \<open>HTTPError\<close> is
  \<open>backoff.HTTPError\<close>, \<open>HandlerError\<close> is \<open>*ltp.HandlerError\<close>.
\<close>

datatype go_error =
    ErrorString string
  | WrapError string go_error
  | HTTPError int string
  | HandlerError int string
  | ContextCanceled
  | DeadlineExceeded

text \<open>\<open>strconv.Itoa\<close>, the decimal text of an integer.\<close>

fun nat_digits :: "nat \<Rightarrow> string" where
  "nat_digits n =
     (if n < 10 then [char_of (48 + n)] else nat_digits (n div 10) @ [char_of (48 + n mod 10)])"

declare nat_digits.simps [simp del]

definition itoa :: "int \<Rightarrow> string" where
  "itoa i = (if i < 0 then CHR ''-'' # nat_digits (nat (- i)) else nat_digits (nat i))"

text \<open>The \<open>Error()\<close> method of the values above.\<close>

fun err_text :: "go_error \<Rightarrow> string" where
  "err_text (ErrorString s) = s"
| "err_text (WrapError s e) = s @ err_text e"
| "err_text (HTTPError code msg) = ''HTTP '' @ itoa code @ '': '' @ msg"
| "err_text (HandlerError code msg) = msg"
| "err_text ContextCanceled = ''context canceled''"
| "err_text DeadlineExceeded = ''context deadline exceeded''"

text \<open>\<open>errors.As(err, &herr)\<close> for \<open>herr *ltp.HandlerError\<close>: the first one in the chain.\<close>

fun as_handler_error :: "go_error \<Rightarrow> (int \<times> string) option" where
  "as_handler_error (HandlerError code msg) = Some (code, msg)"
| "as_handler_error (WrapError s e) = as_handler_error e"
| "as_handler_error _ = None"

end
