(* ===== verification/Float64.thy ===== *)
theory Float64
  imports Prelude "HOL-Library.Log_Nat" "HOL-Library.Signed_Division"
begin

text \<open>
  Go's \<open>float64\<close>: IEEE 754 binary64 with rounding to nearest, ties to even.  A finite
  value is the rational number it stands for, so an operation is the exact rational
  operation followed by the rounding \<open>rnd\<close>; infinities and NaN are values of their own.
  The sign of a zero is not kept: the program only divides by values converted from
  integers, whose zero is positive.  The operations are those of amd64 (the platform of
  the Dockerfile): no fused multiply-add, and a conversion to \<open>int64\<close> that does not fit
  gives the least \<open>int64\<close>.
\<close>

named_theorems float_simps \<open>evaluation of float64 operations\<close>

subsection \<open>Rounding a rational to 53 bits\<close>

definition ilog2 :: "rat \<Rightarrow> int" where
  "ilog2 x =
     (let (n, d) = quotient_of x; k = bitlen n - bitlen d
      in if 2 powi k \<le> x then k else k - 1)"

definition round_even :: "rat \<Rightarrow> int" where
  "round_even y =
     (let f = \<lfloor>y\<rfloor>; r = y - of_int f in
      if r < 1 / 2 then f
      else if r > 1 / 2 then f + 1
      else if even f then f else f + 1)"

definition ulp_exp :: "rat \<Rightarrow> int" where
  "ulp_exp x = (if x = 0 then - 1074 else max (ilog2 \<bar>x\<bar> - 52) (- 1074))"

definition rnd :: "rat \<Rightarrow> rat" where
  "rnd x = of_int (round_even (x / 2 powi ulp_exp x)) * 2 powi ulp_exp x"

lemma powi2_pos [simp]: "0 < (2 :: rat) powi k"
  by (simp add: zero_less_power_int)

lemma powi2_less_iff: "(2 :: rat) powi a < 2 powi b \<longleftrightarrow> a < b"
proof
  assume "(2 :: rat) powi a < 2 powi b"
  then show "a < b"
    using power_int_increasing [of b a "2 :: rat"] by (cases "a < b") auto
qed (simp add: power_int_strict_increasing)

lemma powi2_le_iff: "(2 :: rat) powi a \<le> 2 powi b \<longleftrightarrow> a \<le> b"
  using powi2_less_iff [of b a] by (simp flip: not_less)

lemma powi2_nat_int: "0 \<le> k \<Longrightarrow> (2 :: rat) powi k = of_int (2 ^ nat k)"
  by (simp add: power_int_def)

lemma bitlen_powi:
  assumes "0 < n"
  shows "(2 :: rat) powi (bitlen n - 1) \<le> of_int n" and "of_int n < (2 :: rat) powi bitlen n"
proof -
  have b: "2 ^ nat (bitlen n - 1) \<le> n" "n < 2 ^ nat (bitlen n)"
    using bitlen_bounds [OF assms] by simp_all
  have "1 \<le> bitlen n" using assms by (simp add: bitlen_alt_def)
  then have "(2 :: rat) powi (bitlen n - 1) = of_int (2 ^ nat (bitlen n - 1))"
    and "(2 :: rat) powi bitlen n = of_int (2 ^ nat (bitlen n))"
    by (simp_all add: powi2_nat_int)
  then show "(2 :: rat) powi (bitlen n - 1) \<le> of_int n" and "of_int n < (2 :: rat) powi bitlen n"
    using b by (simp_all only: of_int_le_iff of_int_less_iff)
qed

lemma ilog2_bounds:
  assumes "0 < x"
  shows "2 powi ilog2 x \<le> x" and "x < 2 powi (ilog2 x + 1)"
proof -
  obtain n d where q: "quotient_of x = (n, d)" by fastforce
  have d: "0 < d" and x: "x = of_int n / of_int d"
    using quotient_of_denom_pos [OF q] quotient_of_div [OF q] by auto
  with assms have n: "0 < n" by (simp add: zero_less_divide_iff)
  let ?a = "bitlen n" and ?b = "bitlen d"
  have up: "x < 2 powi (?a - ?b + 1)"
  proof -
    have "x < 2 powi ?a / 2 powi (?b - 1)"
      unfolding x by (rule frac_less) (use n d bitlen_powi [of n] bitlen_powi [of d] in auto)
    also have "\<dots> = 2 powi (?a - ?b + 1)" by (simp add: algebra_simps flip: power_int_diff)
    finally show ?thesis .
  qed
  have lo: "2 powi (?a - ?b - 1) \<le> x"
  proof -
    have "2 powi (?a - ?b - 1) = 2 powi (?a - 1) / (2 powi ?b :: rat)"
      by (simp add: algebra_simps flip: power_int_diff)
    also have "\<dots> \<le> x"
      unfolding x
      by (rule frac_le) (use n d bitlen_powi [of n] bitlen_powi [of d] in auto)
    finally show ?thesis .
  qed
  have "ilog2 x = (if 2 powi (?a - ?b) \<le> x then ?a - ?b else ?a - ?b - 1)"
    by (simp add: ilog2_def q)
  then show "2 powi ilog2 x \<le> x" and "x < 2 powi (ilog2 x + 1)"
    using up lo by (auto simp: not_le)
qed

lemma ilog2_le_iff: "0 < x \<Longrightarrow> ilog2 x \<le> k \<longleftrightarrow> x < 2 powi (k + 1)"
proof
  assume "0 < x" and "ilog2 x \<le> k"
  then show "x < 2 powi (k + 1)"
    using ilog2_bounds(2) [of x] powi2_le_iff [of "ilog2 x + 1" "k + 1"] by simp
next
  assume x: "0 < x" and "x < 2 powi (k + 1)"
  then have "(2 :: rat) powi ilog2 x < 2 powi (k + 1)"
    using ilog2_bounds(1) [of x] by simp
  then show "ilog2 x \<le> k" by (simp add: powi2_less_iff)
qed

lemma ilog2_mono: "0 < x \<Longrightarrow> x \<le> y \<Longrightarrow> ilog2 x \<le> ilog2 y"
  using ilog2_bounds(2) [of y] by (simp add: ilog2_le_iff)

lemma round_even_near: "\<bar>of_int (round_even y) - y\<bar> \<le> 1 / 2"
proof -
  have "of_int \<lfloor>y\<rfloor> \<le> y" and "y < of_int \<lfloor>y\<rfloor> + 1" by linarith+
  then show ?thesis by (simp add: round_even_def Let_def abs_le_iff)
qed

lemma round_even_of_int [simp]: "round_even (of_int n) = n"
  by (simp add: round_even_def)

lemma round_even_0 [simp]: "round_even 0 = 0"
  using round_even_of_int [of 0] by simp

lemma round_even_bounds: "\<lfloor>y\<rfloor> \<le> round_even y" "round_even y \<le> \<lfloor>y\<rfloor> + 1"
  by (auto simp: round_even_def Let_def)

lemma round_even_mono: "y \<le> z \<Longrightarrow> round_even y \<le> round_even z"
proof (cases "\<lfloor>y\<rfloor> = \<lfloor>z\<rfloor>")
  case True
  then show "y \<le> z \<Longrightarrow> ?thesis" by (auto simp: round_even_def Let_def)
next
  case False
  assume "y \<le> z"
  with False have "\<lfloor>y\<rfloor> + 1 \<le> \<lfloor>z\<rfloor>" using floor_mono [of y z] by linarith
  then show ?thesis using round_even_bounds [of y] round_even_bounds [of z] by linarith
qed

lemma round_even_minus: "round_even (- y) = - round_even y"
proof (cases "y = of_int \<lfloor>y\<rfloor>")
  case True
  then show ?thesis using round_even_of_int [of "- \<lfloor>y\<rfloor>"] round_even_of_int [of "\<lfloor>y\<rfloor>"] by simp
next
  case False
  then have "\<lfloor>- y\<rfloor> = - \<lfloor>y\<rfloor> - 1" by linarith
  then show ?thesis by (auto simp: round_even_def Let_def)
qed

subsection \<open>Properties of the rounding\<close>

lemma rnd_0 [simp]: "rnd 0 = 0"
  by (simp add: rnd_def)

lemma ulp_exp_minus [simp]: "ulp_exp (- x) = ulp_exp x"
  by (simp add: ulp_exp_def)

lemma rnd_minus: "rnd (- x) = - rnd x"
  using round_even_minus [of "x / 2 powi ulp_exp x"] by (simp add: rnd_def)

lemma rnd_multiple: "x = of_int m * 2 powi e \<Longrightarrow> ulp_exp x \<le> e \<Longrightarrow> rnd x = x"
proof -
  assume x: "x = of_int m * 2 powi e" and le: "ulp_exp x \<le> e"
  have "x / 2 powi ulp_exp x = of_int m * 2 powi (e - ulp_exp x)"
    by (simp add: x power_int_diff)
  also have "\<dots> = of_int (m * 2 ^ nat (e - ulp_exp x))"
    using le by (simp add: powi2_nat_int)
  finally show ?thesis by (simp add: rnd_def del: of_int_mult) (simp add: field_simps)
qed

lemma ulp_exp_le: "x \<noteq> 0 \<Longrightarrow> \<bar>x\<bar> < 2 powi (e + 53) \<Longrightarrow> - 1074 \<le> e \<Longrightarrow> ulp_exp x \<le> e"
  using ilog2_le_iff [of "\<bar>x\<bar>" "e + 52"] by (simp add: ulp_exp_def add.assoc)

lemma rnd_exact:
  assumes "\<bar>m\<bar> \<le> 2 ^ 53" and "- 1074 \<le> e"
  shows "rnd (of_int m * 2 powi e) = of_int m * 2 powi e"
proof (cases "\<bar>m\<bar> < 2 ^ 53")
  case True
  then have "\<bar>rat_of_int m\<bar> < 2 powi 53"
    by (metis of_int_abs of_int_less_iff of_int_numeral of_int_power power_int_numeral)
  then have "\<bar>rat_of_int m * 2 powi e\<bar> < 2 powi (e + 53)"
    by (simp add: abs_mult power_int_add mult.commute)
  then show ?thesis
    using assms ulp_exp_le [of "of_int m * 2 powi e" e]
    by (cases "m = 0") (auto intro: rnd_multiple)
next
  case False
  with assms have m: "\<bar>m\<bar> = 2 ^ 53" by simp
  let ?x = "rat_of_int m * 2 powi e" and ?s = "sgn m"
  have x: "?x = of_int (?s * 2 ^ 52) * 2 powi (e + 1)"
    using m by (auto simp: abs_if power_int_add split: if_splits)
  have "\<bar>rat_of_int m\<bar> = 2 ^ 53"
    using m by (metis of_int_abs of_int_numeral of_int_power)
  then have "\<bar>?x\<bar> < 2 powi (e + 1 + 53)"
    by (simp add: abs_mult power_int_add)
  then have "ulp_exp ?x \<le> e + 1"
    using m assms by (intro ulp_exp_le) auto
  with x show ?thesis by (rule rnd_multiple)
qed

lemma rnd_of_int [simp]: "\<bar>n\<bar> \<le> 2 ^ 53 \<Longrightarrow> rnd (of_int n) = of_int n"
  using rnd_exact [of n 0] by simp

lemma rnd_1 [simp]: "rnd 1 = 1"
  using rnd_of_int [of 1] by simp

lemma rnd_numeral [simp]: "numeral n \<le> (2 ^ 53 :: int) \<Longrightarrow> rnd (numeral n) = numeral n"
  using rnd_of_int [of "numeral n"] by simp

lemma rnd_abs_error: "\<bar>rnd x - x\<bar> \<le> 2 powi ulp_exp x / 2"
proof -
  let ?u = "2 powi ulp_exp x :: rat"
  have "rnd x - x = (of_int (round_even (x / ?u)) - x / ?u) * ?u"
    by (simp add: rnd_def algebra_simps)
  then have "\<bar>rnd x - x\<bar> = \<bar>of_int (round_even (x / ?u)) - x / ?u\<bar> * ?u"
    by (simp add: abs_mult)
  also have "\<dots> \<le> 1 / 2 * ?u"
    by (rule mult_right_mono [OF round_even_near]) simp
  finally show ?thesis by simp
qed

lemma rnd_rel_error:
  assumes "2 powi - 1022 \<le> \<bar>x\<bar>"
  shows "\<bar>rnd x - x\<bar> \<le> \<bar>x\<bar> / 2 ^ 53"
proof -
  have x: "0 < \<bar>x\<bar>" using assms powi2_pos [of "- 1022"] by linarith
  have "(2 :: rat) powi - 1022 < 2 powi (ilog2 \<bar>x\<bar> + 1)"
    using assms ilog2_bounds(2) [OF x] by linarith
  then have "- 1022 \<le> ilog2 \<bar>x\<bar>" by (simp only: powi2_less_iff)
  then have "ulp_exp x = ilog2 \<bar>x\<bar> - 52" using x by (auto simp: ulp_exp_def)
  then have "2 powi ulp_exp x / 2 = 2 powi ilog2 \<bar>x\<bar> / (2 ^ 53 :: rat)"
    by (simp add: power_int_diff)
  also have "\<dots> \<le> \<bar>x\<bar> / 2 ^ 53"
    using ilog2_bounds(1) [OF x] by (simp add: divide_right_mono)
  finally show ?thesis using rnd_abs_error [of x] by linarith
qed

lemma rnd_nonneg: "0 \<le> x \<Longrightarrow> 0 \<le> rnd x"
  using round_even_mono [of 0 "x / 2 powi ulp_exp x"] by (simp add: rnd_def)

lemma rnd_le_power:
  assumes "0 < x" and "x \<le> 2 powi k" and "ulp_exp x \<le> k"
  shows "rnd x \<le> 2 powi k"
proof -
  let ?u = "ulp_exp x"
  have "x / 2 powi ?u \<le> 2 powi (k - ?u)"
    using assms(2) by (simp add: power_int_diff divide_right_mono)
  then have "round_even (x / 2 powi ?u) \<le> round_even (of_int (2 ^ nat (k - ?u)))"
    using assms(3) by (intro round_even_mono) (simp add: powi2_nat_int)
  then have "rat_of_int (round_even (x / 2 powi ?u)) \<le> 2 powi (k - ?u)"
    using assms(3) by (simp add: powi2_nat_int del: of_int_power)
  then have "rnd x \<le> 2 powi (k - ?u) * 2 powi ?u"
    unfolding rnd_def by (rule mult_right_mono) simp
  then show ?thesis by (simp flip: power_int_add)
qed

lemma rnd_ge_power:
  assumes "2 powi k \<le> x" and "ulp_exp x \<le> k"
  shows "2 powi k \<le> rnd x"
proof -
  let ?u = "ulp_exp x"
  have "2 powi (k - ?u) \<le> x / 2 powi ?u"
    using assms(1) by (simp add: power_int_diff divide_right_mono)
  then have "round_even (of_int (2 ^ nat (k - ?u))) \<le> round_even (x / 2 powi ?u)"
    using assms(2) by (intro round_even_mono) (simp add: powi2_nat_int)
  then have "2 powi (k - ?u) \<le> rat_of_int (round_even (x / 2 powi ?u))"
    using assms(2) by (simp add: powi2_nat_int del: of_int_power)
  then have "2 powi (k - ?u) * 2 powi ?u \<le> rnd x"
    unfolding rnd_def by (rule mult_right_mono) simp
  then show ?thesis by (simp flip: power_int_add)
qed

lemma rnd_mono_pos:
  assumes "0 < x" and "x \<le> y"
  shows "rnd x \<le> rnd y"
proof (cases "ulp_exp x = ulp_exp y")
  case True
  have "round_even (x / 2 powi ulp_exp y) \<le> round_even (y / 2 powi ulp_exp y)"
    using assms by (intro round_even_mono) (simp add: divide_right_mono)
  then show ?thesis using True by (simp add: rnd_def mult_right_mono)
next
  case False
  have y: "0 < y" using assms by simp
  have mono: "ilog2 x \<le> ilog2 y" using assms by (rule ilog2_mono)
  have ux: "ulp_exp x = max (ilog2 x - 52) (- 1074)" and uy: "ulp_exp y = max (ilog2 y - 52) (- 1074)"
    using assms y by (simp_all add: ulp_exp_def)
  have lt: "ilog2 x + 1 \<le> ilog2 y" and ule: "ulp_exp x \<le> ilog2 y" and vle: "ulp_exp y \<le> ilog2 y"
    using False mono ux uy by auto
  have "(2 :: rat) powi (ilog2 x + 1) \<le> 2 powi ilog2 y"
    using lt by (simp add: powi2_le_iff)
  then have "x \<le> 2 powi ilog2 y"
    using ilog2_bounds(2) [OF assms(1)] by linarith
  then have "rnd x \<le> 2 powi ilog2 y"
    using assms(1) ule by (intro rnd_le_power)
  also have "\<dots> \<le> rnd y"
    using ilog2_bounds(1) [OF y] vle by (intro rnd_ge_power)
  finally show ?thesis .
qed

lemma rnd_mono: "x \<le> y \<Longrightarrow> rnd x \<le> rnd y"
proof -
  assume le: "x \<le> y"
  consider "0 < x" | "x \<le> 0" "0 \<le> y" | "y < 0" by linarith
  then show ?thesis
  proof cases
    case 1
    then show ?thesis using le by (rule rnd_mono_pos)
  next
    case 2
    then have "rnd x \<le> 0" and "0 \<le> rnd y"
      using rnd_nonneg [of "- x"] rnd_nonneg [of y] by (simp_all add: rnd_minus)
    then show ?thesis by simp
  next
    case 3
    then have "rnd (- y) \<le> rnd (- x)" using le by (intro rnd_mono_pos) auto
    then show ?thesis by (simp add: rnd_minus)
  qed
qed


text \<open>Evaluating a rounding: the nearest multiple of the unit in the last place.\<close>

lemma round_even_nearest: "\<bar>y - of_int m\<bar> < 1 / 2 \<Longrightarrow> round_even y = m"
proof -
  assume "\<bar>y - of_int m\<bar> < 1 / 2"
  then have "\<bar>of_int (round_even y) - (of_int m :: rat)\<bar> < 1"
    using round_even_near [of y] by linarith
  then have "of_int \<bar>round_even y - m\<bar> < (of_int 1 :: rat)" by simp
  then show ?thesis by (simp only: of_int_less_iff)
qed

lemma rnd_scaled:
  assumes "2 ^ 52 \<le> x * 2 ^ k" and "x * 2 ^ k < 2 ^ 53" and "\<bar>x * 2 ^ k - of_int m\<bar> < 1 / 2"
    and "k \<le> 1074"
  shows "rnd x = of_int m / 2 ^ k"
proof -
  have pk: "2 powi - int k = inverse (2 ^ k :: rat)" by (simp add: power_int_minus)
  have "0 < x * 2 ^ k" using assms(1) less_le_trans [of 0 "2 ^ 52" "x * 2 ^ k"] by simp
  then have x: "0 < x" by (simp add: zero_less_mult_iff)
  have "2 powi (52 - int k) \<le> x" and "x < 2 powi (53 - int k)"
    using assms(1,2) by (simp_all add: power_int_diff field_simps)
  then have "ilog2 x \<le> 52 - int k" and "\<not> ilog2 x \<le> 51 - int k"
    using x by (simp_all add: ilog2_le_iff)
  then have "ulp_exp x = - int k" using x assms(4) by (auto simp: ulp_exp_def)
  moreover have "round_even (x * 2 ^ k) = m" using assms(3) by (rule round_even_nearest)
  ultimately show ?thesis by (simp add: rnd_def pk divide_inverse)
qed

subsection \<open>float64 values and operations\<close>

datatype f64 = Fin rat | PInf | NInf | NaN

definition to_f64 :: "rat \<Rightarrow> f64" where
  "to_f64 x =
     (let r = rnd x in if 2 ^ 1024 \<le> r then PInf else if r \<le> - (2 ^ 1024) then NInf else Fin r)"

definition f64_of_int :: "int \<Rightarrow> f64" where
  "f64_of_int n = to_f64 (of_int n)"

definition signed_inf :: "rat \<Rightarrow> f64" where
  "signed_inf s = (if 0 < s then PInf else if s < 0 then NInf else NaN)"

fun f64_neg :: "f64 \<Rightarrow> f64" where
  "f64_neg (Fin x) = Fin (- x)"
| "f64_neg PInf = NInf"
| "f64_neg NInf = PInf"
| "f64_neg NaN = NaN"

fun f64_add :: "f64 \<Rightarrow> f64 \<Rightarrow> f64" where
  "f64_add (Fin x) (Fin y) = to_f64 (x + y)"
| "f64_add NaN _ = NaN"
| "f64_add _ NaN = NaN"
| "f64_add PInf NInf = NaN"
| "f64_add NInf PInf = NaN"
| "f64_add PInf _ = PInf"
| "f64_add NInf _ = NInf"
| "f64_add (Fin _) PInf = PInf"
| "f64_add (Fin _) NInf = NInf"

fun f64_mul :: "f64 \<Rightarrow> f64 \<Rightarrow> f64" where
  "f64_mul (Fin x) (Fin y) = to_f64 (x * y)"
| "f64_mul NaN _ = NaN"
| "f64_mul _ NaN = NaN"
| "f64_mul PInf (Fin y) = signed_inf y"
| "f64_mul NInf (Fin y) = signed_inf (- y)"
| "f64_mul (Fin x) PInf = signed_inf x"
| "f64_mul (Fin x) NInf = signed_inf (- x)"
| "f64_mul PInf PInf = PInf"
| "f64_mul PInf NInf = NInf"
| "f64_mul NInf PInf = NInf"
| "f64_mul NInf NInf = PInf"

fun f64_div :: "f64 \<Rightarrow> f64 \<Rightarrow> f64" where
  "f64_div (Fin x) (Fin y) = (if y = 0 then signed_inf x else to_f64 (x / y))"
| "f64_div NaN _ = NaN"
| "f64_div _ NaN = NaN"
| "f64_div PInf (Fin y) = (if y < 0 then NInf else PInf)"
| "f64_div NInf (Fin y) = (if y < 0 then PInf else NInf)"
| "f64_div (Fin x) _ = Fin 0"
| "f64_div _ _ = NaN"

fun f64_less :: "f64 \<Rightarrow> f64 \<Rightarrow> bool" where
  "f64_less (Fin x) (Fin y) = (x < y)"
| "f64_less NaN _ = False"
| "f64_less _ NaN = False"
| "f64_less NInf NInf = False"
| "f64_less NInf _ = True"
| "f64_less (Fin _) PInf = True"
| "f64_less _ _ = False"

text \<open>\<open>a <= b\<close>, and \<open>a == b\<close> (which differs from \<open>=\<close> on NaN).\<close>

fun f64_eq :: "f64 \<Rightarrow> f64 \<Rightarrow> bool" where
  "f64_eq NaN _ = False"
| "f64_eq _ NaN = False"
| "f64_eq a b = (a = b)"

text \<open>The library's symbols for the operations, so that the model reads like the code.\<close>

instantiation f64 :: "{zero, one, plus, uminus, minus, times, ord}"
begin
definition zero_f64 :: f64 where "0 = Fin 0"
definition one_f64 :: f64 where "1 = Fin 1"
definition plus_f64 :: "f64 \<Rightarrow> f64 \<Rightarrow> f64" where "a + b = f64_add a b"
definition uminus_f64 :: "f64 \<Rightarrow> f64" where "- a = f64_neg a"
definition minus_f64 :: "f64 \<Rightarrow> f64 \<Rightarrow> f64" where "a - b = f64_add a (f64_neg b)"
definition times_f64 :: "f64 \<Rightarrow> f64 \<Rightarrow> f64" where "a * b = f64_mul a b"
definition less_f64 :: "f64 \<Rightarrow> f64 \<Rightarrow> bool" where "a < b = f64_less a b"
definition less_eq_f64 :: "f64 \<Rightarrow> f64 \<Rightarrow> bool" where "a \<le> b = (f64_less a b \<or> f64_eq a b)"
instance ..
end

lemmas f64_ops [float_simps] =
  zero_f64_def one_f64_def plus_f64_def uminus_f64_def minus_f64_def times_f64_def
  less_f64_def less_eq_f64_def

text \<open>\<open>int64(x)\<close>: truncation, and the least \<open>int64\<close> where the value does not fit.\<close>

definition trunc_rat :: "rat \<Rightarrow> int" where
  "trunc_rat r = (if 0 \<le> r then \<lfloor>r\<rfloor> else \<lceil>r\<rceil>)"

fun f64_to_int64 :: "f64 \<Rightarrow> int" where
  "f64_to_int64 (Fin r) = (if in_i64 (trunc_rat r) then trunc_rat r else - (2 ^ 63))"
| "f64_to_int64 _ = - (2 ^ 63)"

lemma f64_to_int64_in_i64 [simp]: "in_i64 (f64_to_int64 x)"
  by (cases x) (auto simp: in_i64_def)

lemma to_f64_Fin: "\<bar>rnd x\<bar> < 2 ^ 1024 \<Longrightarrow> to_f64 x = Fin (rnd x)"
  by (auto simp: to_f64_def Let_def abs_if split: if_splits)

lemma abs_rnd: "\<bar>rnd x\<bar> = rnd \<bar>x\<bar>"
  using rnd_nonneg [of x] rnd_nonneg [of "- x"] by (auto simp: abs_if rnd_minus)

lemma to_f64_Fin_int: "\<bar>x\<bar> \<le> of_int n \<Longrightarrow> n \<le> 2 ^ 53 \<Longrightarrow> to_f64 x = Fin (rnd x)"
proof -
  assume x: "\<bar>x\<bar> \<le> of_int n" and n: "n \<le> 2 ^ 53"
  have n0: "0 \<le> n" using x abs_ge_zero [of x] by (meson of_int_0_le_iff order_trans)
  have "rnd \<bar>x\<bar> \<le> rnd (of_int n)" using x by (rule rnd_mono)
  also have "\<dots> = of_int n" using n n0 by simp
  also have "\<dots> \<le> of_int (2 ^ 53)" using n by (simp only: of_int_le_iff)
  also have "\<dots> < 2 ^ 1024" by simp
  finally show ?thesis by (simp add: to_f64_Fin abs_rnd)
qed

lemma f64_of_int_exact [float_simps]: "\<bar>n\<bar> \<le> 2 ^ 53 \<Longrightarrow> f64_of_int n = Fin (of_int n)"
  using to_f64_Fin_int [of "of_int n" "\<bar>n\<bar>"] by (simp add: f64_of_int_def)

lemma trunc_rat_bounds:
  "0 \<le> r \<Longrightarrow> of_int (trunc_rat r) \<le> r" "0 \<le> r \<Longrightarrow> r < of_int (trunc_rat r) + 1"
  by (simp add: trunc_rat_def) (simp add: trunc_rat_def, linarith)

lemma trunc_rat_nonneg [simp]: "0 \<le> r \<Longrightarrow> 0 \<le> trunc_rat r"
  by (simp add: trunc_rat_def)

text \<open>\<open>math.Ldexp\<close>.\<close>

fun ldexp :: "f64 \<Rightarrow> int \<Rightarrow> f64" where
  "ldexp (Fin a) e = to_f64 (a * 2 powi e)"
| "ldexp a e = a"

subsection \<open>Duration.Seconds\<close>

text \<open>
  \<open>Duration.Seconds\<close> adds the whole seconds and the remaining nanoseconds divided by
  \<open>1e9\<close>, both as \<open>float64\<close>.
\<close>

definition duration_seconds :: "duration \<Rightarrow> f64" where
  "duration_seconds d =
     f64_of_int (d sdiv second) + f64_div (f64_of_int (d smod second)) (Fin 1000000000)"

end
