(* ===== verification/Metering.thy ===== *)
theory Metering
  imports Prelude
begin

text \<open>
  The contract between a rate limiter and its clients, as an interface: a state from
  which requests are admitted one after the other, and an entitlement that pays for
  them.  What a limiter promises over a whole sequence of requests is proved once, from
  the laws of one step; the token bucket, the global limit and the per-address limit
  are its instances.
\<close>

text \<open>The number of admitted requests that count, when \<open>rs\<close> are made one after the other.\<close>

fun admitted :: "('r \<Rightarrow> 's \<Rightarrow> bool \<times> 's) \<Rightarrow> ('r \<Rightarrow> bool) \<Rightarrow> 's \<Rightarrow> 'r list \<Rightarrow> nat" where
  "admitted step charged s [] = 0"
| "admitted step charged s (r # rs) =
     (let (b, s') = step r s in
      (if b \<and> charged r then 1 else 0) + admitted step charged s' rs)"

text \<open>The requests follow one another in time, the first not before \<open>t\<close>, the last done by \<open>T\<close>.\<close>

fun in_order :: "('r \<Rightarrow> instant) \<Rightarrow> ('r \<Rightarrow> instant) \<Rightarrow> instant \<Rightarrow> 'r list \<Rightarrow> instant \<Rightarrow> bool" where
  "in_order begins ends t [] T = (t \<le> T)"
| "in_order begins ends t (r # rs) T =
     (t \<le> begins r \<and> begins r \<le> ends r \<and> in_order begins ends (ends r) rs T)"

locale metered =
  fixes step :: "'r \<Rightarrow> 's \<Rightarrow> bool \<times> 's"
    and begins ends :: "'r \<Rightarrow> instant"
    and valid charged :: "'r \<Rightarrow> bool"
    and ok :: "'s \<Rightarrow> instant \<Rightarrow> bool"
    and entitled :: "'s \<Rightarrow> instant \<Rightarrow> int"
    and rate :: int
  assumes ok_step: "ok s (begins r) \<Longrightarrow> valid r \<Longrightarrow> begins r \<le> ends r \<Longrightarrow> ok (snd (step r s)) (ends r)"
    and ok_later: "ok s t \<Longrightarrow> t \<le> t' \<Longrightarrow> ok s t'"
    and pays: "ok s (begins r) \<Longrightarrow> valid r \<Longrightarrow> begins r \<le> ends r \<Longrightarrow>
      entitled (snd (step r s)) (ends r) + (if fst (step r s) \<and> charged r then 10 ^ 9 else 0)
        \<le> entitled s (begins r) + rate * (ends r - begins r)"
    and grows: "ok s t \<Longrightarrow> t \<le> t' \<Longrightarrow> entitled s t' \<le> entitled s t + rate * (t' - t)"
    and entitled_nonneg: "ok s t \<Longrightarrow> 0 \<le> entitled s t"
begin

lemma admitted_bound:
  assumes "ok s t" and "in_order begins ends t rs T" and "\<forall>r\<in>set rs. valid r"
  shows "10 ^ 9 * int (admitted step charged s rs) \<le> entitled s t + rate * (T - t)"
  using assms
proof (induction rs arbitrary: s t)
  case Nil
  then have "0 \<le> entitled s T" using ok_later [of s t T] by (auto intro: entitled_nonneg)
  also have "\<dots> \<le> entitled s t + rate * (T - t)" using Nil by (auto intro: grows)
  finally show ?case by simp
next
  case (Cons r rs)
  obtain b s' where st: "step r s = (b, s')" by fastforce
  have times: "t \<le> begins r" "begins r \<le> ends r" and rest: "in_order begins ends (ends r) rs T"
    and v: "valid r" using Cons.prems by auto
  have ok: "ok s (begins r)" using Cons.prems(1) times(1) by (rule ok_later)
  have ok': "ok s' (ends r)" using ok_step [OF ok v times(2)] by (simp add: st)
  let ?c = "if b \<and> charged r then 10 ^ 9 else 0 :: int"
  have "10 ^ 9 * int (admitted step charged s (r # rs)) = ?c + 10 ^ 9 * int (admitted step charged s' rs)"
    by (simp add: st)
  also have "\<dots> \<le> ?c + entitled s' (ends r) + rate * (T - ends r)"
    using Cons.IH [OF ok' rest] Cons.prems(3) by simp
  also have "\<dots> \<le> entitled s (begins r) + rate * (ends r - begins r) + rate * (T - ends r)"
    using pays [OF ok v times(2)] by (simp add: st)
  also have "\<dots> \<le> entitled s t + rate * (begins r - t) + rate * (ends r - begins r) + rate * (T - ends r)"
    using grows [OF Cons.prems(1) times(1)] by simp
  also have "\<dots> = entitled s t + rate * (T - t)" by (simp add: algebra_simps)
  finally show ?case .
qed

end

end
