(* ===== verification/Token_Bucket.thy ===== *)
theory Token_Bucket
  imports Float64 Metering
begin

text \<open>
  \<open>internal/ratelimit/bucket.go\<close>: the token bucket.  A method that reads the clock
  takes the reading as an argument; the mutex makes each method one atomic step, so a
  method is a function from the bucket to its result and the new bucket.
\<close>

subsection \<open>The operations\<close>

record token_bucket =
  capacity :: int
  tokens :: int
  refill_rate :: int
  last_refill :: instant
  refill_period :: duration

text \<open>\<open>time.Second / time.Duration(refillRate)\<close> panics when the rate is zero.\<close>

definition new_token_bucket :: "instant \<Rightarrow> int \<Rightarrow> int \<Rightarrow> string + token_bucket" where
  "new_token_bucket now cap rate =
     (if rate = 0 then Inl ''runtime error: integer divide by zero''
      else Inr \<lparr>capacity = cap, tokens = cap, refill_rate = rate, last_refill = now,
                refill_period = second sdiv rate\<rparr>)"

definition tokens_to_add :: "duration \<Rightarrow> int \<Rightarrow> int" where
  "tokens_to_add elapsed rate = f64_to_int64 (duration_seconds elapsed * f64_of_int rate)"

definition refill :: "instant \<Rightarrow> token_bucket \<Rightarrow> token_bucket" where
  "refill now tb =
     (let elapsed = time_sub now (last_refill tb) in
      if elapsed \<le> 0 then tb
      else
        (let add = tokens_to_add elapsed (refill_rate tb) in
         if add > 0 then
           (let t = wrap64 (tokens tb + add);
                t = (if t > capacity tb then capacity tb else t)
            in tb\<lparr>tokens := t, last_refill := now\<rparr>)
         else tb))"

definition allow_n :: "instant \<Rightarrow> int \<Rightarrow> token_bucket \<Rightarrow> bool \<times> token_bucket" where
  "allow_n now n tb =
     (let tb = refill now tb in
      if tokens tb \<ge> n then (True, tb\<lparr>tokens := wrap64 (tokens tb - n)\<rparr>) else (False, tb))"

definition bucket_allow :: "instant \<Rightarrow> token_bucket \<Rightarrow> bool \<times> token_bucket" where
  "bucket_allow now tb = allow_n now 1 tb"

definition bucket_tokens :: "instant \<Rightarrow> token_bucket \<Rightarrow> int \<times> token_bucket" where
  "bucket_tokens now tb = (let tb = refill now tb in (tokens tb, tb))"

definition bucket_capacity :: "token_bucket \<Rightarrow> int" where
  "bucket_capacity tb = capacity tb"

subsection \<open>How far the float64 credit is from the exact one\<close>

text \<open>
  \<open>elapsed.Seconds() * float64(rate)\<close> rounds three times.  Each rounding moves the
  value by at most one part in \<open>2^53\<close>, together by at most five parts in \<open>2^53\<close>.
\<close>

lemma rnd_near:
  fixes x t k :: rat
  assumes "2 powi - 1022 \<le> x" and "\<bar>x - t\<bar> \<le> k * t / 2 ^ 53" and "0 \<le> t" and "0 \<le> k" and "k \<le> 2 ^ 52"
  shows "\<bar>rnd x - t\<bar> \<le> (k + 2) * t / 2 ^ 53"
proof -
  have x0: "0 \<le> x" using assms(1) powi2_pos [of "- 1022"] by linarith
  have "k * t / 2 ^ 53 \<le> 2 ^ 52 * t / 2 ^ 53"
    using assms by (intro divide_right_mono mult_right_mono) auto
  with assms(2) have "\<bar>x - t\<bar> \<le> 2 ^ 52 * t / 2 ^ 53" by (rule order_trans)
  then have "\<bar>x - t\<bar> \<le> t / 2" by simp
  then have "x \<le> 2 * t" using assms(3) by linarith
  have "\<bar>rnd x - x\<bar> \<le> x / 2 ^ 53"
    using rnd_rel_error [of x] assms(1) x0 by simp
  also have "\<dots> \<le> 2 * t / 2 ^ 53" using \<open>x \<le> 2 * t\<close> by (intro divide_right_mono) auto
  finally have "\<bar>rnd x - t\<bar> \<le> 2 * t / 2 ^ 53 + k * t / 2 ^ 53"
    using assms(2) by linarith
  then show ?thesis by (simp add: add_divide_distrib ring_distribs)
qed

lemma tiny_powi: "(2 :: rat) powi - 1022 \<le> 1 / 2 ^ 40"
proof -
  have "(2 :: rat) powi - 1022 \<le> 2 powi - 40" by (simp only: powi2_le_iff)
  then show ?thesis by (simp add: power_int_minus_divide)
qed

lemma low_near:
  fixes x t k :: rat
  assumes "1 / 10 ^ 9 \<le> t" and "\<bar>x - t\<bar> \<le> k * t / 2 ^ 53" and "0 \<le> k" and "k \<le> 2 ^ 52"
  shows "2 powi - 1022 \<le> x"
proof -
  have "0 < (1 / 10 ^ 9 :: rat)" by simp
  with assms(1) have t: "0 \<le> t" by linarith
  then have "k * t / 2 ^ 53 \<le> 2 ^ 52 * t / 2 ^ 53"
    using assms by (intro divide_right_mono mult_right_mono) auto
  with assms(2) have "\<bar>x - t\<bar> \<le> t / 2" by simp
  then have x: "t / 2 \<le> x" by linarith
  have "2 powi - 1022 \<le> (1 / 2 ^ 40 :: rat)" by (rule tiny_powi)
  also have "\<dots> \<le> 1 / 10 ^ 9 / 2" by simp
  also have "\<dots> \<le> t / 2" using assms(1) by (rule divide_right_mono) simp
  also note x
  finally show ?thesis .
qed

lemma seconds_near:
  assumes "0 < e" and "e < 2 ^ 63"
  obtains b where "duration_seconds e = Fin b"
    and "\<bar>b - of_int e / 10 ^ 9\<bar> \<le> 3 * (of_int e / 10 ^ 9) / 2 ^ 53"
proof -
  let ?s = "e div 1000000000" and ?n = "e mod 1000000000"
  let ?t = "of_int e / 10 ^ 9 :: rat"
  have div: "e sdiv second = ?s" and md: "e smod second = ?n"
    using assms by (simp_all add: second_def signed_divide_int_def signed_modulo_int_def)
  have s: "0 \<le> ?s" "?s \<le> 2 ^ 34" and n: "0 \<le> ?n" "?n < 10 ^ 9" using assms by auto
  have t: "?t = of_int ?s + of_int ?n / 10 ^ 9"
  proof -
    have split: "of_int (1000000000 * s + n) / 10 ^ 9 = (of_int s + of_int n / 10 ^ 9 :: rat)" for s n
      by (simp add: add_divide_distrib)
    show ?thesis using split [of ?s ?n] by (simp only: mult_div_mod_eq)
  qed
  define a where "a = rnd (of_int ?n / 10 ^ 9)"
  have a: "\<bar>a - of_int ?n / 10 ^ 9\<bar> \<le> (of_int ?n / 10 ^ 9) / 2 ^ 53"
  proof (cases "?n = 0")
    case True
    then show ?thesis by (simp add: a_def)
  next
    case False
    then have "1 \<le> rat_of_int ?n" using n by (metis of_int_1 of_int_le_iff int_one_le_iff_zero_less order_le_less)
    then have "2 powi - 1022 \<le> rat_of_int ?n / 10 ^ 9" using tiny_powi by (simp add: field_simps)
    then show ?thesis using rnd_rel_error [of "of_int ?n / 10 ^ 9"] by (simp add: a_def)
  qed
  have t0: "0 \<le> ?t" and sa: "\<bar>of_int ?s + a - ?t\<bar> \<le> 1 * ?t / 2 ^ 53"
  proof -
    show "0 \<le> ?t" using assms by simp
    have "of_int ?s + a - ?t = a - of_int ?n / 10 ^ 9" using t by linarith
    then have "\<bar>of_int ?s + a - ?t\<bar> = \<bar>a - of_int ?n / 10 ^ 9\<bar>" by (rule arg_cong)
    also have "\<dots> \<le> (of_int ?n / 10 ^ 9) / 2 ^ 53" by (rule a)
    also have "\<dots> \<le> 1 * ?t / 2 ^ 53"
      using s t by (intro divide_right_mono) (simp_all only: mult_1, simp_all)
    finally show "\<bar>of_int ?s + a - ?t\<bar> \<le> 1 * ?t / 2 ^ 53" .
  qed
  have "1 / 10 ^ 9 \<le> ?t"
    using assms(1) by (intro divide_right_mono) auto
  then have low: "2 powi - 1022 \<le> of_int ?s + a"
    using sa by (rule low_near) simp_all
  define b where "b = rnd (of_int ?s + a)"
  have b: "\<bar>b - ?t\<bar> \<le> 3 * ?t / 2 ^ 53"
    using rnd_near [OF low sa t0] by (simp add: b_def)
  have "duration_seconds e = Fin b"
  proof -
    have "\<bar>of_int ?n / (10 ^ 9 :: rat)\<bar> \<le> of_int 1" using n by simp
    then have fa: "to_f64 (of_int ?n / 10 ^ 9) = Fin a"
      unfolding a_def by (rule to_f64_Fin_int) simp
    have "?t \<le> 2 ^ 34" using assms(2) by simp
    moreover have "1 * ?t / 2 ^ 53 \<le> ?t" using t0 by simp
    ultimately have "\<bar>of_int ?s + a\<bar> \<le> 2 ^ 34 + 2 ^ 34"
      using sa t0 by linarith
    then have "\<bar>of_int ?s + a\<bar> \<le> of_int (2 ^ 35)" by simp
    then have "to_f64 (of_int ?s + a) = Fin b"
      unfolding b_def by (rule to_f64_Fin_int) simp
    then show ?thesis
      using s n fa by (simp add: duration_seconds_def div md f64_of_int_exact plus_f64_def)
  qed
  with b show thesis by (intro that) simp_all
qed

lemma tokens_product_near:
  assumes "0 < e" and "e < 2 ^ 63" and "0 < r" and "r \<le> 2 ^ 53"
  obtains c where "duration_seconds e * f64_of_int r = Fin c"
    and "\<bar>c - of_int (e * r) / 10 ^ 9\<bar> \<le> 5 * (of_int (e * r) / 10 ^ 9) / 2 ^ 53"
proof -
  let ?t = "of_int e / 10 ^ 9 :: rat" and ?v = "of_int (e * r) / 10 ^ 9 :: rat"
  obtain b where sec: "duration_seconds e = Fin b" and b: "\<bar>b - ?t\<bar> \<le> 3 * ?t / 2 ^ 53"
    using seconds_near [OF assms(1,2)] by auto
  have v: "?v = ?t * of_int r" by simp
  have r: "(1 :: rat) \<le> of_int r" using assms(3) by simp
  have t0: "1 / 10 ^ 9 \<le> ?t" using assms(1) by (intro divide_right_mono) auto
  have br: "\<bar>b * of_int r - ?v\<bar> \<le> 3 * ?v / 2 ^ 53"
  proof -
    have "b * of_int r - ?v = (b - ?t) * of_int r" by (simp add: field_simps)
    then have "\<bar>b * of_int r - ?v\<bar> = \<bar>b - ?t\<bar> * of_int r" using r by (simp add: abs_mult)
    also have "\<dots> \<le> 3 * ?t / 2 ^ 53 * of_int r"
      using b r by (intro mult_right_mono) auto
    finally show ?thesis by (simp add: v)
  qed
  have v0: "1 / 10 ^ 9 \<le> ?v"
  proof -
    have "1 / 10 ^ 9 * 1 \<le> ?t * of_int r" using t0 r by (intro mult_mono) auto
    then show ?thesis by (simp add: v)
  qed
  have low: "2 powi - 1022 \<le> b * of_int r"
    using v0 br by (rule low_near) simp_all
  define c where "c = rnd (b * of_int r)"
  have c: "\<bar>c - ?v\<bar> \<le> 5 * ?v / 2 ^ 53"
    using rnd_near [OF low br] v0 by (simp add: c_def)
  have "?v \<le> 2 ^ 116"
  proof -
    have "e * r \<le> 2 ^ 63 * 2 ^ 53" using assms by (intro mult_mono) auto
    then have "of_int (e * r) \<le> (of_int (2 ^ 116) :: rat)" by (simp only: of_int_le_iff) simp
    then show ?thesis by simp
  qed
  then have "\<bar>c\<bar> < 2 ^ 1024" using c v0 by (simp add: abs_if split: if_splits)
  then have "duration_seconds e * f64_of_int r = Fin c"
    using assms(3,4) by (simp add: sec times_f64_def f64_of_int_exact to_f64_Fin c_def)
  with c show thesis by (intro that) simp_all
qed

text \<open>
  What this means in tokens: below \<open>2^50\<close> token-nanoseconds the code credits the exact
  floor, except that it may fall one short where the exact credit is a whole number.
\<close>

lemma floor_near_div:
  fixes c :: rat
  assumes "0 < n" and "n \<le> 2 ^ 50" and "\<bar>c - of_int n / 10 ^ 9\<bar> \<le> 5 * (of_int n / 10 ^ 9) / 2 ^ 53"
  shows "0 \<le> c" and "\<lfloor>c\<rfloor> \<le> n div 10 ^ 9" and "(n - 1) div 10 ^ 9 \<le> \<lfloor>c\<rfloor>"
proof -
  have "rat_of_int n \<le> 2 ^ 50" using assms(2) by (metis of_int_le_iff of_int_numeral of_int_power)
  then have "5 * (of_int n / 10 ^ 9) / 2 ^ 53 < (1 / 10 ^ 9 :: rat)" by simp
  with assms(3) have "\<bar>c - of_int n / 10 ^ 9\<bar> < 1 / 10 ^ 9" by (rule order.strict_trans1)
  then have c: "(of_int n - 1) / 10 ^ 9 < c" "c < (of_int n + 1) / 10 ^ 9"
    by (simp_all only: diff_divide_distrib add_divide_distrib abs_less_iff) linarith+
  have "0 \<le> (of_int n - 1) / (10 ^ 9 :: rat)" using assms(1) by simp
  with c(1) show "0 \<le> c" by linarith
  have "of_int \<lfloor>c\<rfloor> * 10 ^ 9 < rat_of_int n + 1"
    using c(2) of_int_floor_le [of c] by (simp add: field_simps) linarith
  then have "rat_of_int (\<lfloor>c\<rfloor> * 10 ^ 9) < of_int (n + 1)" by simp
  then have "\<lfloor>c\<rfloor> * 10 ^ 9 < n + 1" by (simp only: of_int_less_iff)
  then show "\<lfloor>c\<rfloor> \<le> n div 10 ^ 9" by simp
  have "(n - 1) div 10 ^ 9 * 10 ^ 9 \<le> n - 1" by simp
  then have "rat_of_int ((n - 1) div 10 ^ 9 * 10 ^ 9) \<le> of_int (n - 1)" by (simp only: of_int_le_iff)
  then have "rat_of_int ((n - 1) div 10 ^ 9) \<le> c" using c(1) by (simp add: field_simps)
  then show "(n - 1) div 10 ^ 9 \<le> \<lfloor>c\<rfloor>" by (simp add: le_floor_iff)
qed

lemma tokens_to_add_bounds:
  assumes "0 < e" and "e < 2 ^ 63" and "0 < r" and "e * r \<le> 2 ^ 50"
  shows "(e * r - 1) div 10 ^ 9 \<le> tokens_to_add e r" and "tokens_to_add e r \<le> e * r div 10 ^ 9"
proof -
  have "1 * r \<le> e * r" using assms(1,3) by (intro mult_right_mono) auto
  then have r: "r \<le> 2 ^ 53" using assms(4) by simp
  have pos: "0 < e * r" using assms by simp
  obtain c where prod: "duration_seconds e * f64_of_int r = Fin c"
    and near: "\<bar>c - of_int (e * r) / 10 ^ 9\<bar> \<le> 5 * (of_int (e * r) / 10 ^ 9) / 2 ^ 53"
    using tokens_product_near [OF assms(1-3) r] by blast
  note c = floor_near_div [OF pos assms(4) near]
  have "e * r div 10 ^ 9 \<le> 2 ^ 50 div 10 ^ 9" using assms(4) by (rule zdiv_mono1) simp
  also have "\<dots> < (2 ^ 63 :: int)" by simp
  finally have "\<lfloor>c\<rfloor> < 2 ^ 63" using c(2) by linarith
  moreover have "0 \<le> \<lfloor>c\<rfloor>" using c(1) by simp
  ultimately have "tokens_to_add e r = \<lfloor>c\<rfloor>"
    using c(1) by (simp add: tokens_to_add_def prod trunc_rat_def in_i64_def)
  then show "(e * r - 1) div 10 ^ 9 \<le> tokens_to_add e r" and "tokens_to_add e r \<le> e * r div 10 ^ 9"
    using c by simp_all
qed

lemma near_range:
  fixes c v :: rat
  assumes "0 \<le> v" and "\<bar>c - v\<bar> \<le> 5 * v / 2 ^ 53"
  shows "0 \<le> c" and "c \<le> 9 / 8 * v"
proof -
  have "5 * v / 2 ^ 53 \<le> v / 8" using assms(1) by simp
  then show "0 \<le> c" and "c \<le> 9 / 8 * v" using assms by linarith+
qed

text \<open>For any credit that fits an \<open>int64\<close>: within five parts in \<open>2^53\<close> of the exact value.\<close>

lemma tokens_to_add_near:
  assumes "0 < e" and "e < 2 ^ 63" and "0 < r" and "r \<le> 2 ^ 28"
  obtains c :: rat where "tokens_to_add e r = \<lfloor>c\<rfloor>" and "0 \<le> c" and "c < 2 ^ 62"
    and "\<bar>c - of_int (e * r) / 10 ^ 9\<bar> \<le> 5 * (of_int (e * r) / 10 ^ 9) / 2 ^ 53"
proof -
  let ?v = "of_int (e * r) / 10 ^ 9 :: rat"
  obtain c where prod: "duration_seconds e * f64_of_int r = Fin c"
    and near: "\<bar>c - ?v\<bar> \<le> 5 * ?v / 2 ^ 53"
    using tokens_product_near [OF assms(1-3)] assms(4) by auto
  have "e * r \<le> 2 ^ 63 * 2 ^ 28" using assms by (intro mult_mono) auto
  then have "rat_of_int (e * r) \<le> of_int (2 ^ 63 * 2 ^ 28)" by (simp only: of_int_le_iff)
  then have v: "?v \<le> 2 ^ 61 + 2 ^ 60" by simp
  have v0: "0 \<le> ?v" using assms by simp
  then have c: "0 \<le> c" "c \<le> 9 / 8 * ?v"
    using near_range [OF _ near] by blast+
  have "9 / 8 * ?v \<le> 9 / 8 * (2 ^ 61 + 2 ^ 60)" using v by (rule mult_left_mono) simp
  also have "\<dots> < (2 ^ 62 :: rat)" by simp
  finally have c62: "c < 2 ^ 62" using c(2) by linarith
  then have "\<lfloor>c\<rfloor> < 2 ^ 62" by (simp add: floor_less_iff)
  moreover have "0 \<le> \<lfloor>c\<rfloor>" using c by simp
  ultimately have "tokens_to_add e r = \<lfloor>c\<rfloor>"
    using c(1) by (simp add: tokens_to_add_def prod trunc_rat_def in_i64_def)
  then show thesis using c(1) c62 near by (rule that)
qed

subsection \<open>The invariant\<close>

text \<open>
  The bounds on the configuration keep every sum inside \<open>int64\<close>; the default
  configuration (rates 10 and 100, capacities 100 and 1000) is far inside them.
\<close>

definition bucket_ok :: "token_bucket \<Rightarrow> bool" where
  "bucket_ok tb \<longleftrightarrow> 0 \<le> tokens tb \<and> tokens tb \<le> capacity tb \<and> capacity tb < 2 ^ 62
     \<and> 0 < refill_rate tb \<and> refill_rate tb \<le> 2 ^ 28"

lemma new_token_bucket_ok:
  "new_token_bucket now cap rate = Inr tb \<Longrightarrow> 0 \<le> cap \<Longrightarrow> cap < 2 ^ 62 \<Longrightarrow> 0 < rate \<Longrightarrow> rate \<le> 2 ^ 28 \<Longrightarrow>
     bucket_ok tb \<and> tokens tb = cap \<and> capacity tb = cap \<and> refill_rate tb = rate \<and> last_refill tb = now"
  by (auto simp: new_token_bucket_def bucket_ok_def split: if_splits)

lemma credit_range:
  assumes "bucket_ok tb" and "last_refill tb < now"
  shows "0 \<le> tokens_to_add (time_sub now (last_refill tb)) (refill_rate tb)"
    and "tokens_to_add (time_sub now (last_refill tb)) (refill_rate tb) < 2 ^ 62"
proof -
  let ?e = "time_sub now (last_refill tb)"
  have e: "0 < ?e" "?e < 2 ^ 63" using assms(2) by (auto simp: time_sub_def)
  obtain c :: rat where "tokens_to_add ?e (refill_rate tb) = \<lfloor>c\<rfloor>" "0 \<le> c" "c < 2 ^ 62"
    using tokens_to_add_near [OF e] assms(1) by (auto simp: bucket_ok_def)
  then show "0 \<le> tokens_to_add ?e (refill_rate tb)" and "tokens_to_add ?e (refill_rate tb) < 2 ^ 62"
    by (auto simp: floor_less_iff)
qed

text \<open>Inside the invariant nothing wraps, and \<open>refill\<close> is the capped sum.\<close>

lemma refill_eq:
  assumes "bucket_ok tb"
  shows "refill now tb =
     (let add = tokens_to_add (time_sub now (last_refill tb)) (refill_rate tb) in
      if now \<le> last_refill tb \<or> add = 0 then tb
      else tb\<lparr>tokens := min (capacity tb) (tokens tb + add), last_refill := now\<rparr>)"
proof (cases "now \<le> last_refill tb")
  case True
  then show ?thesis by (simp add: refill_def)
next
  case False
  let ?a = "tokens_to_add (time_sub now (last_refill tb)) (refill_rate tb)"
  have a: "0 \<le> ?a" "?a < 2 ^ 62" using credit_range [OF assms] False by auto
  then have "wrap64 (tokens tb + ?a) = tokens tb + ?a"
    using assms by (intro wrap64_between) (auto simp: bucket_ok_def)
  then show ?thesis using False a by (auto simp: refill_def Let_def min_def)
qed

lemma refill_fields [simp]:
  "capacity (refill now tb) = capacity tb" "refill_rate (refill now tb) = refill_rate tb"
  "refill_period (refill now tb) = refill_period tb"
  by (auto simp: refill_def Let_def)

lemma refill_ok:
  assumes "bucket_ok tb"
  shows "bucket_ok (refill now tb)" and "tokens tb \<le> tokens (refill now tb)"
    and "last_refill tb \<le> last_refill (refill now tb)"
proof -
  have "last_refill tb < now \<Longrightarrow> 0 \<le> tokens_to_add (time_sub now (last_refill tb)) (refill_rate tb)"
    by (rule credit_range [OF assms])
  then show "bucket_ok (refill now tb)" and "tokens tb \<le> tokens (refill now tb)"
    and "last_refill tb \<le> last_refill (refill now tb)"
    using assms by (auto simp: refill_eq bucket_ok_def Let_def min_def)
qed

lemma allow_n_fields [simp]:
  "capacity (snd (allow_n now n tb)) = capacity tb"
  "refill_rate (snd (allow_n now n tb)) = refill_rate tb"
  by (simp_all add: allow_n_def Let_def)

lemma allow_n_eq:
  assumes "bucket_ok tb" and "0 \<le> n"
  shows "allow_n now n tb =
     (let tb' = refill now tb in
      if n \<le> tokens tb' then (True, tb'\<lparr>tokens := tokens tb' - n\<rparr>) else (False, tb'))"
proof -
  have "bucket_ok (refill now tb)" by (rule refill_ok [OF assms(1)])
  then have "n \<le> tokens (refill now tb) \<Longrightarrow>
      wrap64 (tokens (refill now tb) - n) = tokens (refill now tb) - n"
    using assms(2) by (intro wrap64_between) (auto simp: bucket_ok_def)
  then show ?thesis by (simp add: allow_n_def Let_def)
qed

lemma allow_n_ok: "bucket_ok tb \<Longrightarrow> 0 \<le> n \<Longrightarrow> bucket_ok (snd (allow_n now n tb))"
  using refill_ok(1) [of tb now] by (auto simp: allow_n_eq bucket_ok_def Let_def)

text \<open>
  The tokens a bucket has at an instant, those it holds and those the time since its last
  refill has earned it, and what \<open>Allow\<close> makes of them.
\<close>

definition level :: "instant \<Rightarrow> token_bucket \<Rightarrow> int" where
  "level now tb =
     (if now \<le> last_refill tb then tokens tb
      else min (capacity tb) (tokens tb + tokens_to_add (time_sub now (last_refill tb)) (refill_rate tb)))"

lemma tokens_refill: "bucket_ok tb \<Longrightarrow> tokens (refill now tb) = level now tb"
  by (auto simp: refill_eq level_def bucket_ok_def Let_def)

lemma bucket_allow_level:
  assumes "bucket_ok tb"
  shows "fst (bucket_allow now tb) \<longleftrightarrow> 1 \<le> level now tb"
    and "tokens (snd (bucket_allow now tb)) = level now tb - (if 1 \<le> level now tb then 1 else 0)"
  using assms by (simp_all add: bucket_allow_def allow_n_eq Let_def tokens_refill)

subsection \<open>The bucket as a meter\<close>

text \<open>
  What a bucket owes at an instant, in token-nanoseconds: its tokens and what its rate
  has earned since the last refill.  A refill never credits more than that: below
  \<open>2^50\<close> token-nanoseconds because the credit is at most the exact floor, above it
  because the bucket is capped (at a million tokens or fewer).
\<close>

definition bucket_entitled :: "token_bucket \<Rightarrow> instant \<Rightarrow> int" where
  "bucket_entitled tb t = tokens tb * 10 ^ 9 + refill_rate tb * (t - last_refill tb)"

definition bucket_metered :: "int \<Rightarrow> int \<Rightarrow> token_bucket \<Rightarrow> instant \<Rightarrow> bool" where
  "bucket_metered cap rate tb t \<longleftrightarrow>
     bucket_ok tb \<and> capacity tb = cap \<and> cap \<le> 10 ^ 6 \<and> refill_rate tb = rate \<and> last_refill tb \<le> t"

lemma refill_entitled:
  assumes "bucket_metered cap rate tb t"
  shows "bucket_entitled (refill t tb) t \<le> bucket_entitled tb t"
proof -
  let ?e = "time_sub t (last_refill tb)" and ?r = "refill_rate tb"
  let ?a = "tokens_to_add ?e ?r"
  have ok: "bucket_ok tb" and cap: "capacity tb \<le> 10 ^ 6" and le: "last_refill tb \<le> t"
    using assms by (auto simp: bucket_metered_def)
  have r: "0 < ?r" using ok by (simp add: bucket_ok_def)
  show ?thesis
  proof (cases "t \<le> last_refill tb \<or> ?a = 0")
    case True
    then show ?thesis using ok by (auto simp: refill_eq)
  next
    case False
    then have e: "0 < ?e" "?e < 2 ^ 63" "?e \<le> t - last_refill tb"
      using le by (auto simp: time_sub_def min_def max_def)
    let ?new = "min (capacity tb) (tokens tb + ?a)"
    have "?new * 10 ^ 9 \<le> tokens tb * 10 ^ 9 + ?r * ?e"
    proof (cases "?e * ?r \<le> 2 ^ 50")
      case True
      then have "?a * 10 ^ 9 \<le> ?e * ?r div 10 ^ 9 * 10 ^ 9"
        using tokens_to_add_bounds(2) [OF e(1,2) r True] by (intro mult_right_mono) auto
      also have "\<dots> \<le> ?e * ?r" by simp
      finally have "?a * 10 ^ 9 \<le> ?r * ?e" by (simp only: mult.commute)
      moreover have "?new * 10 ^ 9 \<le> (tokens tb + ?a) * 10 ^ 9" by (intro mult_right_mono) auto
      ultimately show ?thesis by (simp only: distrib_right)
    next
      case False
      have "?new * 10 ^ 9 \<le> 10 ^ 6 * 10 ^ 9" using cap by (intro mult_right_mono) auto
      also have "\<dots> \<le> ?r * ?e" using False by (simp add: mult.commute)
      finally show ?thesis using ok by (simp add: bucket_ok_def)
    qed
    moreover have "?r * ?e \<le> ?r * (t - last_refill tb)" using e r by (intro mult_left_mono) auto
    ultimately show ?thesis using ok False by (simp add: refill_eq bucket_entitled_def)
  qed
qed

lemma refill_last: "last_refill tb \<le> t \<Longrightarrow> last_refill (refill t tb) \<le> t"
  by (auto simp: refill_def Let_def)

lemma refill_metered: "bucket_metered cap rate tb t \<Longrightarrow> bucket_metered cap rate (refill t tb) t"
  by (auto simp: bucket_metered_def intro: refill_ok refill_last)

lemma allow_metered:
  assumes "bucket_metered cap rate tb t"
  shows "bucket_metered cap rate (snd (bucket_allow t tb)) t"
    and "bucket_entitled (snd (bucket_allow t tb)) t + (if fst (bucket_allow t tb) then 10 ^ 9 else 0)
      \<le> bucket_entitled tb t"
proof -
  have ok: "bucket_ok tb" using assms by (simp add: bucket_metered_def)
  have m: "bucket_metered cap rate (refill t tb) t" using assms by (rule refill_metered)
  show "bucket_metered cap rate (snd (bucket_allow t tb)) t"
    using m ok by (auto simp: bucket_allow_def allow_n_eq bucket_metered_def bucket_ok_def Let_def)
  show "bucket_entitled (snd (bucket_allow t tb)) t + (if fst (bucket_allow t tb) then 10 ^ 9 else 0)
      \<le> bucket_entitled tb t"
    using refill_entitled [OF assms] ok
    by (auto simp: bucket_allow_def allow_n_eq bucket_entitled_def Let_def algebra_simps)
qed

lemma metered_later: "bucket_metered cap rate tb t \<Longrightarrow> t \<le> t' \<Longrightarrow> bucket_metered cap rate tb t'"
  by (auto simp: bucket_metered_def)

lemma entitled_grows: "refill_rate tb = rate \<Longrightarrow>
    bucket_entitled tb t' = bucket_entitled tb t + rate * (t' - t)"
  by (simp add: bucket_entitled_def algebra_simps)

lemma entitled_nonneg: "bucket_metered cap rate tb t \<Longrightarrow> 0 \<le> bucket_entitled tb t"
  by (auto simp: bucket_metered_def bucket_ok_def bucket_entitled_def)

interpretation bucket: metered bucket_allow "\<lambda>t. t" "\<lambda>t. t" "\<lambda>_. True" "\<lambda>_. True"
  "bucket_metered cap rate" bucket_entitled rate
  for cap rate :: int
proof unfold_locales
  fix s :: token_bucket and t t' :: instant
  assume m: "bucket_metered cap rate s t"
  show "bucket_metered cap rate (snd (bucket_allow t s)) t"
    and "bucket_entitled (snd (bucket_allow t s)) t +
        (if fst (bucket_allow t s) \<and> True then 10 ^ 9 else 0)
        \<le> bucket_entitled s t + rate * (t - t)"
    using allow_metered [OF m] by simp_all
  show "0 \<le> bucket_entitled s t" using m by (rule entitled_nonneg)
  assume "t \<le> t'"
  with m show "bucket_metered cap rate s t'" by (rule metered_later)
  show "bucket_entitled s t' \<le> bucket_entitled s t + rate * (t' - t)"
    using m entitled_grows [of s rate t' t] by (simp add: bucket_metered_def)
qed


lemma pred_div:
  fixes n d :: int
  assumes "0 < d"
  shows "(n - 1) div d = (if d dvd n then n div d - 1 else n div d)"
proof (cases "d dvd n")
  case True
  then obtain k where "n = d * k" by auto
  then have "n - 1 = d * (k - 1) + (d - 1)" by (simp add: algebra_simps)
  then have "(n - 1) div d = k - 1"
    by (rule int_div_pos_eq) (use assms in auto)
  then show ?thesis using True \<open>n = d * k\<close> assms by simp
next
  case False
  then have "0 < n mod d" using assms pos_mod_sign [of d n] by (auto simp: dvd_eq_mod_eq_0 order_le_less)
  have "n - 1 = d * (n div d) + (n mod d - 1)" by simp
  then have "(n - 1) div d = n div d"
    by (rule int_div_pos_eq) (use assms \<open>0 < n mod d\<close> pos_mod_bound [of d n] in linarith)+
  then show ?thesis using False by simp
qed

lemma refill_earns:
  assumes ok: "bucket_ok tb" and "1 \<le> capacity tb" and earned: "2 * 10 ^ 9 \<le> refill_rate tb * (now - last_refill tb)"
  shows "1 \<le> tokens (refill now tb)"
proof -
  let ?e = "time_sub now (last_refill tb)" and ?r = "refill_rate tb"
  have r: "0 < ?r" "?r \<le> 2 ^ 28" and tok: "0 \<le> tokens tb" using ok by (auto simp: bucket_ok_def)
  have late: "last_refill tb < now"
  proof (rule ccontr)
    assume "\<not> last_refill tb < now"
    then have "?r * (now - last_refill tb) \<le> 0" using r(1) by (intro mult_nonneg_nonpos) auto
    then show False using earned by simp
  qed
  then have e: "0 < ?e" "?e < 2 ^ 63" by (auto simp: time_sub_def)
  have n: "2 * 10 ^ 9 \<le> ?e * ?r"
  proof (cases "now - last_refill tb < 2 ^ 63")
    case True
    then have "?e = now - last_refill tb" using late by (simp add: time_sub_def)
    then show ?thesis using earned by (simp add: mult.commute)
  next
    case False
    then have "?e = 2 ^ 63 - 1" by (simp add: time_sub_def)
    moreover have "(2 ^ 63 - 1) * 1 \<le> (2 ^ 63 - 1) * ?r" using r(1) by (intro mult_left_mono) auto
    ultimately show ?thesis by simp
  qed
  define v :: rat where "v = of_int (?e * ?r) / 10 ^ 9"
  obtain c :: rat where c: "tokens_to_add ?e ?r = \<lfloor>c\<rfloor>" "\<bar>c - v\<bar> \<le> 5 * v / 2 ^ 53"
    using e r unfolding v_def by (rule tokens_to_add_near)
  have "(of_int (2 * 10 ^ 9) :: rat) \<le> of_int (?e * ?r)" using n by (simp only: of_int_le_iff)
  then have v: "2 \<le> v" by (simp add: v_def)
  then have "5 * v / 2 ^ 53 \<le> v / 8" by simp
  then have "1 \<le> c" using c(2) v by linarith
  then have "1 \<le> tokens_to_add ?e ?r" using c(1) by (simp add: le_floor_iff)
  then show ?thesis using refill_eq [OF ok, of now] late tok assms(2) by (auto simp: Let_def)
qed

lemma idle_full:
  assumes "bucket_ok tb" and "capacity tb \<le> 10 ^ 9"
    and "(capacity tb + 1) * 10 ^ 9 \<le> refill_rate tb * (now - last_refill tb)"
  shows "tokens (refill now tb) = capacity tb"
proof -
  let ?e = "time_sub now (last_refill tb)" and ?r = "refill_rate tb" and ?c = "capacity tb"
  have r: "0 < ?r" "?r \<le> 2 ^ 28" and cap: "0 \<le> ?c" and tok: "0 \<le> tokens tb"
    using assms(1) by (auto simp: bucket_ok_def)
  have pos: "0 < ?r * (now - last_refill tb)"
    using assms(3) cap by (smt (verit) mult_pos_pos zero_less_power)
  then have e: "0 < ?e" "?e < 2 ^ 63" using r by (auto simp: zero_less_mult_iff time_sub_def)
  have earned: "(?c + 1) * 10 ^ 9 \<le> ?r * ?e"
  proof (cases "now - last_refill tb < 2 ^ 63")
    case True
    then have "?e = now - last_refill tb" using e r pos by (auto simp: time_sub_def zero_less_mult_iff)
    then show ?thesis using assms(3) by simp
  next
    case False
    have "(?c + 1) * 10 ^ 9 \<le> 1 * (2 ^ 63 - 1)" using assms(2) by simp
    also have "\<dots> \<le> ?r * ?e" using False r by (intro mult_mono) (auto simp: time_sub_def)
    finally show ?thesis .
  qed
  obtain c :: rat where add: "tokens_to_add ?e ?r = \<lfloor>c\<rfloor>"
    and near: "\<bar>c - of_int (?e * ?r) / 10 ^ 9\<bar> \<le> 5 * (of_int (?e * ?r) / 10 ^ 9) / 2 ^ 53"
    using tokens_to_add_near [OF e r] by blast
  have "of_int ((?c + 1) * 10 ^ 9) \<le> (of_int (?e * ?r) :: rat)"
    using earned by (simp only: of_int_le_iff mult.commute)
  then have v: "of_int ?c + 1 \<le> (of_int (?e * ?r) / 10 ^ 9 :: rat)" by simp
  have full: "of_int ?c \<le> c" if "of_int ?c + 1 \<le> v" and "\<bar>c - v\<bar> \<le> 5 * v / 2 ^ 53" for v :: rat
  proof -
    have "?c \<le> 2 ^ 50" using assms(2) by simp
    then have "rat_of_int ?c \<le> of_int (2 ^ 50)" by (simp only: of_int_le_iff)
    then have cap50: "rat_of_int ?c \<le> 2 ^ 50" by simp
    have "v - 5 * v / 2 ^ 53 \<le> c" using that(2) by linarith
    then have "v * (1 - 5 / 2 ^ 53) \<le> c" by (simp add: right_diff_distrib)
    moreover have "(of_int ?c + 1) * (1 - 5 / 2 ^ 53) \<le> v * (1 - 5 / 2 ^ 53)"
      using that(1) by (intro mult_right_mono) auto
    moreover have "of_int ?c \<le> (of_int ?c + 1) * (1 - 5 / 2 ^ 53 :: rat)"
      using cap50 by (simp add: algebra_simps)
    ultimately show ?thesis by linarith
  qed
  have "of_int ?c \<le> c" using v near by (rule full)
  then have "?c \<le> tokens_to_add ?e ?r" by (simp add: add le_floor_iff)
  moreover have later: "\<not> now \<le> last_refill tb" using e(1) by (metis time_sub_le_0 not_le)
  ultimately have "tokens (refill now tb) = (if tokens_to_add ?e ?r = 0 then tokens tb else ?c)"
    using tok by (simp add: refill_eq [OF assms(1)] Let_def)
  moreover have "tokens tb \<le> ?c" using assms(1) by (simp add: bucket_ok_def)
  ultimately show ?thesis using tok \<open>?c \<le> tokens_to_add ?e ?r\<close> by (cases "tokens_to_add ?e ?r = 0") auto
qed

subsection \<open>Properties\<close>


definition sample_bucket :: token_bucket where
  "sample_bucket = \<lparr>capacity = 2, tokens = 2, refill_rate = 1, last_refill = 0, refill_period = second\<rparr>"


text \<open>
  C40: The tokens credited for \<open>e\<close> nanoseconds at \<open>r\<close> tokens per second are the exact
  floor of \<open>e * r / 10^9\<close>, or one less when that quotient is a whole number, as long as
  the product stays below \<open>2^50\<close>.
\<close>

theorem tokens_credit_exact:
  assumes "0 < e" and "e < 2 ^ 63" and "0 < r" and "e * r \<le> 2 ^ 50"
  shows "tokens_to_add e r = e * r div 10 ^ 9
    \<or> 10 ^ 9 dvd e * r \<and> tokens_to_add e r = e * r div 10 ^ 9 - 1"
proof -
  note b = tokens_to_add_bounds [OF assms]
  show ?thesis using b pred_div [of "10 ^ 9" "e * r"] by (cases "10 ^ 9 dvd e * r") auto
qed

theorem tokens_credit_exact_witness: "tokens_to_add 150000000 10 = 1"
  using tokens_credit_exact [of 150000000 10] by simp

text \<open>
  The rounding shows: 290 ms at 100 tokens per second earn exactly 29 tokens, and
  the code credits 28, because \<open>0.29\<close> has no exact \<open>float64\<close>.
\<close>

theorem tokens_credit_one_short: "tokens_to_add (290 * millisecond) 100 = 290 * millisecond * 100 div second - 1"
proof -
  have q: "rnd (29 / 100) = 5224175567749775 / 2 ^ 54"
    using rnd_scaled [of "29 / 100" 54 5224175567749775] by simp
  have p: "rnd (5224175567749775 / 2 ^ 54 * 100) = 8162774324609023 / 2 ^ 48"
    using rnd_scaled [of "5224175567749775 / 2 ^ 54 * 100" 48 8162774324609023] by simp
  have "to_f64 (29 / 100) = Fin (5224175567749775 / 2 ^ 54)"
    using to_f64_Fin [of "29 / 100"] by (simp add: q)
  moreover have r: "rnd (5224175567749775 / 2 ^ 54) = 5224175567749775 / 2 ^ 54"
    using rnd_scaled [of "5224175567749775 / 2 ^ 54" 54 5224175567749775] by simp
  ultimately have "duration_seconds (290 * millisecond) = Fin (5224175567749775 / 2 ^ 54)"
    using to_f64_Fin [of "5224175567749775 / 2 ^ 54"]
    by (simp add: duration_seconds_def duration_defs f64_of_int_exact plus_f64_def
        signed_divide_int_def signed_modulo_int_def)
  moreover have "to_f64 (5224175567749775 / 2 ^ 54 * 100) = Fin (8162774324609023 / 2 ^ 48)"
    by (subst to_f64_Fin) (simp_all only: p, simp_all)
  ultimately show ?thesis
    by (simp add: tokens_to_add_def times_f64_def f64_of_int_exact trunc_rat_def in_i64_def duration_defs
        floor_eq_iff)
qed

fun poll_tokens :: "duration \<Rightarrow> nat \<Rightarrow> token_bucket \<Rightarrow> token_bucket" where
  "poll_tokens d 0 tb = tb"
| "poll_tokens d (Suc k) tb = poll_tokens d k (snd (bucket_tokens (last_refill tb + d) tb))"

lemma poll_199ms:
  assumes "bucket_ok tb" and "refill_rate tb = 10" and "tokens tb + int k \<le> capacity tb"
  shows "tokens (poll_tokens (199 * millisecond) k tb) = tokens tb + int k"
  using assms
proof (induction k arbitrary: tb)
  case 0
  then show ?case by simp
next
  case (Suc k)
  have "tokens_to_add 199000000 10 = 1"
    using tokens_to_add_bounds [of 199000000 10] by simp
  then have "snd (bucket_tokens (last_refill tb + 199000000) tb) =
      tb\<lparr>tokens := tokens tb + 1, last_refill := last_refill tb + 199000000\<rparr>"
    using Suc.prems by (simp add: bucket_tokens_def refill_eq Let_def time_sub_def)
  then show ?case using Suc by (simp add: duration_defs bucket_ok_def)
qed

text \<open>
  A refill that credits anything moves \<open>lastRefill\<close> to now, so the fraction of a
  token earned since the last one is lost: polled every 199 ms, a bucket of 10 tokens
  per second earns 10 tokens in 1.99 seconds instead of 19.
\<close>

theorem refill_drops_fractions:
  "tokens (poll_tokens (199 * millisecond) 10
     \<lparr>capacity = 100, tokens = 0, refill_rate = 10, last_refill = 0, refill_period = 100 * millisecond\<rparr>) = 10
   \<and> 10 * (10 * (199 * millisecond)) div second = 19"
  by (subst poll_199ms) (simp_all add: duration_defs bucket_ok_def)

text \<open>
  \<open>AllowN\<close> succeeds exactly when the refilled bucket holds \<open>n\<close> tokens, and then
  takes exactly \<open>n\<close>; a refused request leaves the refilled bucket alone.  The bucket's
  invariant is kept either way, and nothing overflows.
\<close>

theorem allow_n_spec:
  assumes "bucket_ok tb" and "0 \<le> n"
  shows "(fst (allow_n now n tb) \<longleftrightarrow> n \<le> tokens (refill now tb)) \<and>
    snd (allow_n now n tb) = (refill now tb)\<lparr>tokens :=
      tokens (refill now tb) - (if fst (allow_n now n tb) then n else 0)\<rparr> \<and>
    bucket_ok (refill now tb) \<and> bucket_ok (snd (allow_n now n tb))"
  using assms refill_ok(1) [OF assms(1)] allow_n_ok [OF assms]
  by (auto simp: allow_n_eq Let_def)

theorem allow_n_spec_witness:
  "fst (allow_n 0 2 sample_bucket) \<and> tokens (snd (allow_n 0 2 sample_bucket)) = 0"
proof -
  have "bucket_ok sample_bucket" and "refill 0 sample_bucket = sample_bucket"
    by (simp_all add: bucket_ok_def sample_bucket_def refill_def)
  then show ?thesis
    using allow_n_spec [of sample_bucket 2 0] by (simp add: sample_bucket_def)
qed

text \<open>
  A bucket left alone long enough is full: once the elapsed time has earned one
  token more than the capacity, the next refill fills it, whatever its level was.
\<close>

theorem idle_bucket_fills:
  assumes "bucket_ok tb" and "capacity tb \<le> 10 ^ 9"
    and "(capacity tb + 1) * 10 ^ 9 \<le> refill_rate tb * (now - last_refill tb)"
  shows "tokens (refill now tb) = capacity tb"
  using assms by (rule idle_full)

theorem idle_bucket_fills_witness:
  "tokens (refill (3 * second) (sample_bucket\<lparr>tokens := 0\<rparr>)) = 2"
  using idle_bucket_fills [of "sample_bucket\<lparr>tokens := 0\<rparr>" "3 * second"]
  by (simp add: sample_bucket_def bucket_ok_def second_def)

end
