(* ===== verification/Go_Strings.thy ===== *)
theory Go_Strings
  imports Prelude
begin

text \<open>
  The functions of Go's packages \<open>strings\<close>, \<open>strconv\<close>, \<open>fmt\<close> (the verb \<open>%q\<close>) and
  \<open>net\<close> (\<open>SplitHostPort\<close>) that the service calls.  A Go string is a sequence of
  bytes, here a HOL \<open>string\<close>.  \<open>ToUpper\<close>, \<open>TrimSpace\<close> and \<open>%q\<close> work byte by byte
  on ASCII strings; on other strings they consult the Unicode tables, which are a
  parameter of the model (\<open>go_unicode\<close>).
\<close>

named_theorems string_simps \<open>rewriting with the Go string functions\<close>

subsection \<open>ASCII and Unicode\<close>

record go_unicode =
  uni_upper :: "string \<Rightarrow> string"
  uni_trim :: "string \<Rightarrow> string"
  uni_quote :: "string \<Rightarrow> string"

definition byte :: "char \<Rightarrow> nat" where
  "byte c = of_char c"

definition is_ascii :: "string \<Rightarrow> bool" where
  "is_ascii s \<longleftrightarrow> (\<forall>c\<in>set s. byte c < 128)"

definition upper_byte :: "char \<Rightarrow> char" where
  "upper_byte c = (if 97 \<le> byte c \<and> byte c \<le> 122 then char_of (byte c - 32) else c)"

definition to_upper :: "go_unicode \<Rightarrow> string \<Rightarrow> string" where
  "to_upper u s = (if is_ascii s then map upper_byte s else uni_upper u s)"

definition is_space :: "char \<Rightarrow> bool" where
  "is_space c \<longleftrightarrow> byte c \<in> {9, 10, 11, 12, 13, 32}"

definition trim_left_func :: "(char \<Rightarrow> bool) \<Rightarrow> string \<Rightarrow> string" where
  "trim_left_func P s = dropWhile P s"

definition trim_right_func :: "(char \<Rightarrow> bool) \<Rightarrow> string \<Rightarrow> string" where
  "trim_right_func P s = rev (dropWhile P (rev s))"

definition trim_space :: "go_unicode \<Rightarrow> string \<Rightarrow> string" where
  "trim_space u s =
     (if is_ascii s then trim_right_func is_space (trim_left_func is_space s) else uni_trim u s)"

lemma byte_inject [simp]: "byte c = byte d \<longleftrightarrow> c = d"
  by (simp add: byte_def)

lemma byte_upper_lt: "byte c < 128 \<Longrightarrow> byte (upper_byte c) < 128"
  by (auto simp: upper_byte_def byte_def)

lemma upper_byte_idem [simp]: "upper_byte (upper_byte c) = upper_byte c"
  by (auto simp: upper_byte_def byte_def)

lemma is_ascii_upper [simp]: "is_ascii s \<Longrightarrow> is_ascii (map upper_byte s)"
  by (auto simp: is_ascii_def intro: byte_upper_lt)

lemma is_ascii_append [simp]: "is_ascii (s @ t) \<longleftrightarrow> is_ascii s \<and> is_ascii t"
  by (auto simp: is_ascii_def)

lemma is_ascii_subset: "is_ascii s \<Longrightarrow> set t \<subseteq> set s \<Longrightarrow> is_ascii t"
  by (auto simp: is_ascii_def)

lemma set_trim_right: "set (trim_right_func P s) \<subseteq> set s"
  using set_dropWhileD [of _ P "rev s"] by (auto simp: trim_right_func_def)

lemma set_trim_left: "set (trim_left_func P s) \<subseteq> set s"
  using set_dropWhileD [of _ P s] by (auto simp: trim_left_func_def)

lemma set_trim: "set (trim_right_func P (trim_left_func P s)) \<subseteq> set s"
  using set_trim_right [of P "trim_left_func P s"] set_trim_left [of P s] by blast

lemma trim_fixed:
  "s = [] \<or> \<not> P (hd s) \<and> \<not> P (last s) \<Longrightarrow> trim_right_func P (trim_left_func P s) = s"
proof -
  assume ends: "s = [] \<or> \<not> P (hd s) \<and> \<not> P (last s)"
  then have "dropWhile P s = s" by (auto simp: dropWhile_eq_self_iff)
  moreover have "dropWhile P (rev s) = rev s"
    using ends by (auto simp: dropWhile_eq_self_iff hd_rev)
  ultimately show ?thesis by (simp add: trim_left_func_def trim_right_func_def)
qed

lemma trim_no_space:
  "(\<forall>c\<in>set s. \<not> P c) \<Longrightarrow> trim_right_func P (trim_left_func P s) = s"
  by (rule trim_fixed) (cases s; auto)

lemma trim_ends:
  fixes P s
  defines "r \<equiv> trim_right_func P (trim_left_func P s)"
  shows "r = [] \<or> \<not> P (hd r) \<and> \<not> P (last r)"
proof (cases "r = []")
  case False
  let ?l = "dropWhile P s"
  have r: "r = rev (dropWhile P (rev ?l))"
    by (simp add: r_def trim_left_func_def trim_right_func_def)
  have l: "?l = r @ rev (takeWhile P (rev ?l))"
    unfolding r by (metis rev_append rev_rev_ident takeWhile_dropWhile_id)
  then have "?l \<noteq> []" using False by (metis append_is_Nil_conv)
  then have "\<not> P (hd ?l)" by (rule hd_dropWhile)
  moreover have "hd ?l = hd r" using l False by (metis hd_append2)
  moreover have "\<not> P (last r)"
    using False hd_dropWhile [of P "rev ?l"] by (simp add: r last_rev)
  ultimately show ?thesis by simp
qed simp

lemma trim_idem:
  "trim_right_func P (trim_left_func P (trim_right_func P (trim_left_func P s))) =
     trim_right_func P (trim_left_func P s)"
  by (rule trim_fixed [OF trim_ends])

subsection \<open>Contains, HasPrefix, Split, Join\<close>

definition has_prefix :: "string \<Rightarrow> string \<Rightarrow> bool" where
  "has_prefix s p \<longleftrightarrow> take (length p) s = p"

fun str_contains :: "string \<Rightarrow> string \<Rightarrow> bool" where
  "str_contains [] sub = (sub = [])"
| "str_contains (x # xs) sub = (has_prefix (x # xs) sub \<or> str_contains xs sub)"

definition trim_prefix :: "string \<Rightarrow> string \<Rightarrow> string" where
  "trim_prefix s p = (if has_prefix s p then drop (length p) s else s)"

fun split_on :: "char \<Rightarrow> string \<Rightarrow> string list" where
  "split_on c [] = [[]]"
| "split_on c (x # xs) =
     (if x = c then [] # split_on c xs
      else (case split_on c xs of [] \<Rightarrow> [[x]] | y # ys \<Rightarrow> (x # y) # ys))"

fun str_join :: "string \<Rightarrow> string list \<Rightarrow> string" where
  "str_join sep [] = []"
| "str_join sep [s] = s"
| "str_join sep (s # t # ts) = s @ sep @ str_join sep (t # ts)"

lemma str_contains_char [simp]: "str_contains s [c] \<longleftrightarrow> c \<in> set s"
  by (induction s) (auto simp: has_prefix_def)

lemma split_on_nonempty [simp]: "split_on c s \<noteq> []"
  by (induction s) (auto split: list.splits)

lemma split_on_none [string_simps]: "c \<notin> set s \<Longrightarrow> split_on c s = [s]"
  by (induction s) auto

lemma split_on_append [string_simps]: "c \<notin> set a \<Longrightarrow> split_on c (a @ c # b) = a # split_on c b"
  by (induction a) (auto split: list.splits)

lemma split_on_parts: "p \<in> set (split_on c s) \<Longrightarrow> c \<notin> set p"
proof (induction s arbitrary: p)
  case Nil
  then show ?case by simp
next
  case (Cons x xs)
  then show ?case by (cases "split_on c xs") (auto split: if_splits)
qed

lemma join_split: "str_join [c] (split_on c s) = s"
proof (induction s)
  case Nil
  then show ?case by simp
next
  case (Cons x xs)
  then show ?case
    by (cases "split_on c xs" rule: list.exhaust; cases "tl (split_on c xs)") auto
qed

lemma split_join:
  "ps \<noteq> [] \<Longrightarrow> \<forall>p\<in>set ps. c \<notin> set p \<Longrightarrow> split_on c (str_join [c] ps) = ps"
  by (induction ps rule: induct_list012) (auto simp: string_simps)

lemma split_two_iff: "split_on c s = [a, b] \<longleftrightarrow> s = a @ c # b \<and> c \<notin> set a \<and> c \<notin> set b"
proof
  assume eq: "split_on c s = [a, b]"
  then have "s = a @ c # b" using join_split [of c s] by simp
  then show "s = a @ c # b \<and> c \<notin> set a \<and> c \<notin> set b"
    using eq split_on_parts [of _ c s] by simp
qed (simp add: string_simps)

subsection \<open>Quoting\<close>

definition hex_digit :: "nat \<Rightarrow> char" where
  "hex_digit n = (if n < 10 then char_of (48 + n) else char_of (87 + n))"

definition quote_byte :: "char \<Rightarrow> string" where
  "quote_byte c =
     (let n = byte c in
      if n = 34 \<or> n = 92 then [CHR 0x5C, c]
      else if 32 \<le> n \<and> n < 127 then [c]
      else if n = 7 then [CHR 0x5C, CHR ''a'']
      else if n = 8 then [CHR 0x5C, CHR ''b'']
      else if n = 12 then [CHR 0x5C, CHR ''f'']
      else if n = 10 then [CHR 0x5C, CHR ''n'']
      else if n = 13 then [CHR 0x5C, CHR ''r'']
      else if n = 9 then [CHR 0x5C, CHR ''t'']
      else if n = 11 then [CHR 0x5C, CHR ''v'']
      else [CHR 0x5C, CHR ''x'', hex_digit (n div 16), hex_digit (n mod 16)])"

definition go_quote :: "go_unicode \<Rightarrow> string \<Rightarrow> string" where
  "go_quote u s =
     (if is_ascii s then CHR 0x22 # concat (map quote_byte s) @ [CHR 0x22] else uni_quote u s)"

subsection \<open>net.SplitHostPort\<close>

fun index_byte :: "char \<Rightarrow> string \<Rightarrow> nat option" where
  "index_byte c [] = None"
| "index_byte c (x # xs) = (if x = c then Some 0 else map_option Suc (index_byte c xs))"

fun last_index_byte :: "char \<Rightarrow> string \<Rightarrow> nat option" where
  "last_index_byte c [] = None"
| "last_index_byte c (x # xs) =
     (case last_index_byte c xs of
        Some i \<Rightarrow> Some (Suc i)
      | None \<Rightarrow> if x = c then Some 0 else None)"

text \<open>\<open>None\<close> is any of the errors of \<open>SplitHostPort\<close>: its callers only test for one.\<close>

definition split_host_port :: "string \<Rightarrow> (string \<times> string) option" where
  "split_host_port s =
     (case last_index_byte CHR '':'' s of
        None \<Rightarrow> None
      | Some i \<Rightarrow>
          (let finish = (\<lambda>host j k.
             if CHR ''['' \<in> set (drop j s) then None
             else if CHR '']'' \<in> set (drop k s) then None
             else Some (host, drop (i + 1) s)) in
           if take 1 s = ''['' then
             (case index_byte CHR '']'' s of
                None \<Rightarrow> None
              | Some e \<Rightarrow>
                  if e + 1 = length s then None
                  else if e + 1 = i then finish (take (e - 1) (drop 1 s)) 1 (e + 1)
                  else None)
           else if CHR '':'' \<in> set (take i s) then None
           else finish (take i s) 0 0))"

lemma last_index_byte_None [string_simps]: "c \<notin> set s \<Longrightarrow> last_index_byte c s = None"
  by (induction s) auto

lemma last_index_byte_append [string_simps]:
  "c \<notin> set b \<Longrightarrow> last_index_byte c (a @ c # b) = Some (length a)"
  by (induction a) (auto simp: last_index_byte_None)

lemma index_byte_append [string_simps]:
  "c \<notin> set a \<Longrightarrow> index_byte c (a @ c # b) = Some (length a)"
  by (induction a) auto

lemma split_host_port_no_colon: "CHR '':'' \<notin> set s \<Longrightarrow> split_host_port s = None"
  by (simp add: split_host_port_def string_simps)

lemma split_host_port_plain:
  assumes "set h \<inter> set '':[]'' = {}" and "set p \<inter> set '':[]'' = {}"
  shows "split_host_port (h @ CHR '':'' # p) = Some (h, p)"
proof -
  have "take 1 (h @ CHR '':'' # p) \<noteq> ''[''" using assms by (cases h) auto
  then show ?thesis using assms by (auto simp: split_host_port_def string_simps)
qed

lemma split_host_port_brackets:
  assumes "set h \<inter> set ''[]'' = {}" and "set p \<inter> set '':[]'' = {}"
  shows "split_host_port (''['' @ h @ '']:'' @ p) = Some (h, p)"
proof -
  have "last_index_byte CHR '':'' (''['' @ h @ '']:'' @ p) = Some (length h + 2)"
    using assms last_index_byte_append [of "CHR '':''" p "''['' @ h @ '']''"] by simp
  moreover have "index_byte CHR '']'' (''['' @ h @ '']:'' @ p) = Some (length h + 1)"
    using assms index_byte_append [of "CHR '']''" "''['' @ h" "'':'' @ p"] by simp
  ultimately show ?thesis using assms by (auto simp: split_host_port_def)
qed

end
