(* ===== verification/Http_Message.thy ===== *)
theory Http_Message
  imports Go_Strings
begin

text \<open>
  The parts of \<open>net/http\<close> messages the service reads and writes: the request's method,
  URL, path, decoded query, headers and peer address; the response's status, headers and
  body.  \<open>req_url\<close> is \<open>r.URL.String()\<close>, with the query as it was sent.  \<open>Header.Get\<close> and
  \<open>Values.Get\<close> give the first value, or the empty string.
\<close>

type_synonym http_values = "string \<Rightarrow> string list"

record http_request =
  req_method :: string
  req_path :: string
  req_url :: string
  req_query :: http_values
  req_header :: http_values
  remote_addr :: string

definition values_get :: "http_values \<Rightarrow> string \<Rightarrow> string" where
  "values_get h k = (case h k of [] \<Rightarrow> [] | v # _ \<Rightarrow> v)"

end
