(* ===== verification/Rate_Limiter.thy ===== *)
theory Rate_Limiter
  imports Token_Bucket Http_Message
begin

text \<open>
  \<open>internal/ratelimit/limiter.go\<close>: the limiter with one global bucket and one bucket
  per client address, the removal of idle addresses, and the client address of a
  request.  The limiter's mutex and the buckets' mutexes make each method one step on
  the state; the Prometheus calls are kept as a log.
\<close>

declare One_nat_def [simp del] \<comment> \<open>positions in a clock's paths are numerals\<close>

subsection \<open>Configuration and state\<close>

record rl_config =
  per_ip_capacity :: int
  per_ip_refill_rate :: int
  global_capacity :: int
  global_refill_rate :: int
  ip_cleanup_interval :: duration
  ip_idle_timeout :: duration

definition default_rl_config :: rl_config where
  "default_rl_config =
     \<lparr>per_ip_capacity = 100, per_ip_refill_rate = 10, global_capacity = 1000,
      global_refill_rate = 100, ip_cleanup_interval = 5 * minute, ip_idle_timeout = 10 * minute\<rparr>"

record ip_entry =
  ip_bucket :: token_bucket
  last_seen :: instant

datatype rl_metric =
    RateLimitRejects string
  | RateLimitAllows
  | RateLimitIPsTracked nat

record rate_limiter =
  config :: rl_config
  global_bucket :: token_bucket
  ip_buckets :: "(string, ip_entry) gomap"
  stop_closed :: bool
  metric_log :: "rl_metric list"

definition log_metric :: "rl_metric \<Rightarrow> rate_limiter \<Rightarrow> rate_limiter" where
  "log_metric m rl = rl\<lparr>metric_log := metric_log rl @ [m]\<rparr>"

subsection \<open>Operations\<close>

definition new_rate_limiter :: "instant \<Rightarrow> rl_config \<Rightarrow> string + rate_limiter" where
  "new_rate_limiter now cfg =
     (case new_token_bucket now (global_capacity cfg) (global_refill_rate cfg) of
        Inl panic \<Rightarrow> Inl panic
      | Inr gb \<Rightarrow> Inr \<lparr>config = cfg, global_bucket = gb, ip_buckets = [], stop_closed = False,
                       metric_log = []\<rparr>)"

text \<open>
  \<open>allowIP\<close> reads the clock three times: for \<open>lastSeen\<close>, in \<open>NewTokenBucket\<close> and in
  the bucket's refill.  The left summand of the result is the panic of
  \<open>NewTokenBucket\<close>.
\<close>

definition allow_ip :: "clock \<Rightarrow> string \<Rightarrow> rate_limiter \<Rightarrow> (string + bool) \<times> rate_limiter" where
  "allow_ip c ip rl =
     (let now = now_at c 0;
          found =
            (case gm_get (ip_buckets rl) ip of
               Some entry \<Rightarrow> Inr (entry, rl)
             | None \<Rightarrow>
                 (case new_token_bucket (now_at c 1) (per_ip_capacity (config rl))
                         (per_ip_refill_rate (config rl)) of
                    Inl panic \<Rightarrow> Inl panic
                  | Inr b \<Rightarrow>
                      (let entry = \<lparr>ip_bucket = b, last_seen = now\<rparr>;
                           rl = rl\<lparr>ip_buckets := gm_put ip entry (ip_buckets rl)\<rparr>
                       in Inr (entry, log_metric (RateLimitIPsTracked (length (ip_buckets rl))) rl))))
      in case found of
           Inl panic \<Rightarrow> (Inl panic, rl)
         | Inr (entry, rl) \<Rightarrow>
             (let (ok, b) = bucket_allow (now_at c 2) (ip_bucket entry);
                  entry = \<lparr>ip_bucket = b, last_seen = now\<rparr>
              in (Inr ok, rl\<lparr>ip_buckets := gm_put ip entry (ip_buckets rl)\<rparr>)))"

definition return_global_token :: "rate_limiter \<Rightarrow> rate_limiter" where
  "return_global_token rl =
     (let gb = global_bucket rl in
      if tokens gb < capacity gb then rl\<lparr>global_bucket := gb\<lparr>tokens := tokens gb + 1\<rparr>\<rparr> else rl)"

definition limiter_allow :: "clock \<Rightarrow> string \<Rightarrow> rate_limiter \<Rightarrow> (string + bool) \<times> rate_limiter" where
  "limiter_allow c ip rl =
     (let (ok, gb) = bucket_allow (now_at c 0) (global_bucket rl);
          rl = rl\<lparr>global_bucket := gb\<rparr>
      in if \<not> ok then (Inr False, log_metric (RateLimitRejects ''global'') rl)
         else
           (case allow_ip (in_call c 1) ip rl of
              (Inl panic, rl) \<Rightarrow> (Inl panic, rl)
            | (Inr ok, rl) \<Rightarrow>
                if \<not> ok then
                  (Inr False, log_metric (RateLimitRejects ''per_ip'') (return_global_token rl))
                else (Inr True, log_metric RateLimitAllows rl)))"

definition cleanup :: "instant \<Rightarrow> rate_limiter \<Rightarrow> rate_limiter" where
  "cleanup now rl =
     (let cutoff = now + wrap64 (- ip_idle_timeout (config rl));
          idle = [ip. (ip, entry) \<leftarrow> ip_buckets rl, last_seen entry < cutoff];
          m = fold gm_del idle (ip_buckets rl)
      in log_metric (RateLimitIPsTracked (length m)) (rl\<lparr>ip_buckets := m\<rparr>))"

text \<open>
  The cleanup goroutine runs until \<open>stopCleanup\<close> is closed: the argument lists what its
  \<open>select\<close> receives, in the order it receives it.  \<open>time.NewTicker\<close> panics on an
  interval that is not positive.
\<close>

datatype cleanup_event = TickerC instant | StopCleanupC

fun cleanup_loop :: "cleanup_event list \<Rightarrow> rate_limiter \<Rightarrow> rate_limiter" where
  "cleanup_loop [] rl = rl"
| "cleanup_loop (TickerC now # es) rl = cleanup_loop es (cleanup now rl)"
| "cleanup_loop (StopCleanupC # es) rl = rl"

definition cleanup_routine :: "cleanup_event list \<Rightarrow> rate_limiter \<Rightarrow> string + rate_limiter" where
  "cleanup_routine es rl =
     (if ip_cleanup_interval (config rl) \<le> 0 then Inl ''non-positive interval for NewTicker''
      else Inr (cleanup_loop es rl))"

definition limiter_stop :: "rate_limiter \<Rightarrow> string + rate_limiter" where
  "limiter_stop rl =
     (if stop_closed rl then Inl ''close of closed channel'' else Inr (rl\<lparr>stop_closed := True\<rparr>))"

record rl_stats =
  stat_global_tokens :: int
  stat_global_capacity :: int
  stat_tracked_ips :: nat
  stat_global_utilization :: f64

definition get_stats :: "instant \<Rightarrow> rate_limiter \<Rightarrow> rl_stats \<times> rate_limiter" where
  "get_stats now rl =
     (let (global_tokens, gb) = bucket_tokens now (global_bucket rl);
          cap = bucket_capacity gb
      in (\<lparr>stat_global_tokens = global_tokens,
           stat_global_capacity = cap,
           stat_tracked_ips = length (ip_buckets rl),
           stat_global_utilization = f64_div (f64_of_int (wrap64 (cap - global_tokens))) (f64_of_int cap)\<rparr>,
          rl\<lparr>global_bucket := gb\<rparr>))"

text \<open>\<open>Header.Get\<close> looks a header up under its canonical name: \<open>X-Real-Ip\<close> for \<open>X-Real-IP\<close>.\<close>

definition extract_ip :: "http_request \<Rightarrow> string" where
  "extract_ip r =
     (let xff = values_get (req_header r) ''X-Forwarded-For'' in
      if xff \<noteq> [] then
        (case split_host_port xff of Some (ip, _) \<Rightarrow> ip | None \<Rightarrow> xff)
      else
        (let xri = values_get (req_header r) ''X-Real-Ip'' in
         if xri \<noteq> [] then xri
         else
           (case split_host_port (remote_addr r) of
              Some (ip, _) \<Rightarrow> ip
            | None \<Rightarrow> remote_addr r)))"


subsection \<open>Frame lemmas\<close>

lemma log_metric_fields [simp]:
  "config (log_metric m rl) = config rl" "global_bucket (log_metric m rl) = global_bucket rl"
  "ip_buckets (log_metric m rl) = ip_buckets rl" "stop_closed (log_metric m rl) = stop_closed rl"
  "metric_log (log_metric m rl) = metric_log rl @ [m]"
  by (simp_all add: log_metric_def)

lemma return_global_token_fields [simp]:
  "config (return_global_token rl) = config rl" "ip_buckets (return_global_token rl) = ip_buckets rl"
  "stop_closed (return_global_token rl) = stop_closed rl"
  "metric_log (return_global_token rl) = metric_log rl"
  by (simp_all add: return_global_token_def Let_def)

text \<open>With a rate that is not zero, \<open>allowIP\<close> does not panic: it asks the address's bucket, a fresh one at first.\<close>

definition bucket_of :: "clock \<Rightarrow> string \<Rightarrow> rate_limiter \<Rightarrow> token_bucket" where
  "bucket_of c ip rl =
     (case gm_get (ip_buckets rl) ip of
        Some entry \<Rightarrow> ip_bucket entry
      | None \<Rightarrow> \<lparr>capacity = per_ip_capacity (config rl), tokens = per_ip_capacity (config rl),
                 refill_rate = per_ip_refill_rate (config rl), last_refill = now_at c 1,
                 refill_period = second sdiv per_ip_refill_rate (config rl)\<rparr>)"

lemma allow_ip_eq:
  assumes "per_ip_refill_rate (config rl) \<noteq> 0"
  obtains rl' where "allow_ip c ip rl = (Inr (fst (bucket_allow (now_at c 2) (bucket_of c ip rl))), rl')"
    and "\<And>ip'. gm_get (ip_buckets rl') ip' =
      (if ip' = ip then Some \<lparr>ip_bucket = snd (bucket_allow (now_at c 2) (bucket_of c ip rl)),
                            last_seen = now_at c 0\<rparr>
       else gm_get (ip_buckets rl) ip')"
    and "gm_ok (ip_buckets rl) \<Longrightarrow> gm_ok (ip_buckets rl')"
    and "config rl' = config rl" and "global_bucket rl' = global_bucket rl"
    and "stop_closed rl' = stop_closed rl"
    and "metric_log rl' = metric_log rl @
      (if gm_get (ip_buckets rl) ip = None
       then [RateLimitIPsTracked (length (gm_put ip
               \<lparr>ip_bucket = bucket_of c ip rl, last_seen = now_at c 0\<rparr> (ip_buckets rl)))]
       else [])"
proof (cases "gm_get (ip_buckets rl) ip")
  case None
  then show ?thesis
    using assms
    by (intro that [of "snd (allow_ip c ip rl)"])
      (auto simp: allow_ip_def new_token_bucket_def bucket_of_def Let_def split_beta gomap_simps)
next
  case (Some e)
  then show ?thesis
    by (intro that [of "snd (allow_ip c ip rl)"])
      (auto simp: allow_ip_def bucket_of_def Let_def split_beta gomap_simps)
qed

subsection \<open>One allow: what it decides and what it changes\<close>

text \<open>
  The outcome of \<open>Allow\<close> from the two buckets it asks: \<open>global_ok\<close> and \<open>ip_ok\<close> say that the
  refilled bucket holds a token.
\<close>

definition global_ok :: "clock \<Rightarrow> rate_limiter \<Rightarrow> bool" where
  "global_ok c rl \<longleftrightarrow> 1 \<le> tokens (refill (now_at c 0) (global_bucket rl))"

definition ip_ok :: "clock \<Rightarrow> string \<Rightarrow> rate_limiter \<Rightarrow> bool" where
  "ip_ok c ip rl \<longleftrightarrow> 1 \<le> tokens (refill (now_at (in_call c 1) 2) (bucket_of (in_call c 1) ip rl))"

lemma bucket_allow_answer: "fst (bucket_allow now tb) \<longleftrightarrow> 1 \<le> tokens (refill now tb)"
  by (simp add: bucket_allow_def allow_n_def Let_def)

lemma global_ok_eq: "global_ok c rl \<longleftrightarrow> fst (bucket_allow (now_at c 0) (global_bucket rl))"
  by (simp add: global_ok_def bucket_allow_answer)

lemma ip_ok_eq: "ip_ok c ip rl \<longleftrightarrow> fst (bucket_allow (now_at (in_call c 1) 2) (bucket_of (in_call c 1) ip rl))"
  by (simp add: ip_ok_def bucket_allow_answer)

lemma bucket_of_global [simp]: "bucket_of c ip (rl\<lparr>global_bucket := gb\<rparr>) = bucket_of c ip rl"
  by (simp add: bucket_of_def split: option.split)

lemma limiter_allow_cases:
  assumes "per_ip_refill_rate (config rl) \<noteq> 0"
  obtains
    (global) "\<not> global_ok c rl"
      and "limiter_allow c ip rl = (Inr False, log_metric (RateLimitRejects ''global'')
             (rl\<lparr>global_bucket := snd (bucket_allow (now_at c 0) (global_bucket rl))\<rparr>))"
  | (asked) rl' where "global_ok c rl"
      and "limiter_allow c ip rl =
        (if ip_ok c ip rl then (Inr True, log_metric RateLimitAllows rl')
         else (Inr False, log_metric (RateLimitRejects ''per_ip'') (return_global_token rl')))"
      and "\<And>ip'. gm_get (ip_buckets rl') ip' =
        (if ip' = ip then
           Some \<lparr>ip_bucket = snd (bucket_allow (now_at (in_call c 1) 2) (bucket_of (in_call c 1) ip rl)),
                 last_seen = now_at (in_call c 1) 0\<rparr>
         else gm_get (ip_buckets rl) ip')"
      and "gm_ok (ip_buckets rl) \<Longrightarrow> gm_ok (ip_buckets rl')"
      and "config rl' = config rl"
      and "global_bucket rl' = snd (bucket_allow (now_at c 0) (global_bucket rl))"
      and "stop_closed rl' = stop_closed rl"
      and "metric_log rl' = metric_log rl @
        (if gm_get (ip_buckets rl) ip = None
         then [RateLimitIPsTracked (length (gm_put ip
                 \<lparr>ip_bucket = bucket_of (in_call c 1) ip rl, last_seen = now_at (in_call c 1) 0\<rparr>
                 (ip_buckets rl)))]
         else [])"
proof (cases "global_ok c rl")
  case False
  then show ?thesis
    by (intro global) (simp_all add: limiter_allow_def global_ok_eq split_beta Let_def)
next
  case True
  let ?rl = "rl\<lparr>global_bucket := snd (bucket_allow (now_at c 0) (global_bucket rl))\<rparr>"
  have "per_ip_refill_rate (config ?rl) \<noteq> 0" using assms by simp
  then obtain rl' where
    st: "allow_ip (in_call c 1) ip ?rl =
      (Inr (fst (bucket_allow (now_at (in_call c 1) 2) (bucket_of (in_call c 1) ip ?rl))), rl')" and
    rest: "\<And>ip'. gm_get (ip_buckets rl') ip' =
        (if ip' = ip then
           Some \<lparr>ip_bucket = snd (bucket_allow (now_at (in_call c 1) 2) (bucket_of (in_call c 1) ip ?rl)),
                 last_seen = now_at (in_call c 1) 0\<rparr>
         else gm_get (ip_buckets ?rl) ip')"
      "gm_ok (ip_buckets ?rl) \<Longrightarrow> gm_ok (ip_buckets rl')"
      "config rl' = config ?rl" "global_bucket rl' = global_bucket ?rl"
      "stop_closed rl' = stop_closed ?rl"
      "metric_log rl' = metric_log ?rl @
        (if gm_get (ip_buckets ?rl) ip = None
         then [RateLimitIPsTracked (length (gm_put ip
                 \<lparr>ip_bucket = bucket_of (in_call c 1) ip ?rl, last_seen = now_at (in_call c 1) 0\<rparr>
                 (ip_buckets ?rl)))]
         else [])"
    by (rule allow_ip_eq) blast
  have "limiter_allow c ip rl =
        (if ip_ok c ip rl then (Inr True, log_metric RateLimitAllows rl')
         else (Inr False, log_metric (RateLimitRejects ''per_ip'') (return_global_token rl')))"
    using True st
    by (simp add: limiter_allow_def global_ok_eq ip_ok_eq split_beta Let_def del: One_nat_def)
  then show ?thesis using True rest by (intro asked [of rl']) simp_all
qed

lemma return_global_token_bucket:
  "global_bucket (return_global_token rl) =
     (global_bucket rl)\<lparr>tokens := (if tokens (global_bucket rl) < capacity (global_bucket rl)
        then tokens (global_bucket rl) + 1 else tokens (global_bucket rl))\<rparr>"
  by (simp add: return_global_token_def Let_def)

subsection \<open>The sequences of operations on a limiter\<close>

text \<open>
  The operations that goroutines interleave: requests, cleanups, and the readings of the
  statistics, which refill the global bucket.  An \<open>Allow\<close> begins with its first reading of the clock and is over after its last one.
\<close>

datatype limiter_op = LAllow clock string | LCleanup instant | LStats instant

fun limiter_step :: "limiter_op \<Rightarrow> rate_limiter \<Rightarrow> bool \<times> rate_limiter" where
  "limiter_step (LAllow c ip) rl = (let (r, rl') = limiter_allow c ip rl in (r = Inr True, rl'))"
| "limiter_step (LCleanup now) rl = (False, cleanup now rl)"
| "limiter_step (LStats now) rl = (False, snd (get_stats now rl))"

fun op_begins :: "limiter_op \<Rightarrow> instant" where
  "op_begins (LAllow c ip) = now_at c 0"
| "op_begins (LCleanup now) = now"
| "op_begins (LStats now) = now"

fun op_ends :: "limiter_op \<Rightarrow> instant" where
  "op_ends (LAllow c ip) = now_at (in_call c 1) 2"
| "op_ends (LCleanup now) = now"
| "op_ends (LStats now) = now"

fun op_valid :: "duration \<Rightarrow> limiter_op \<Rightarrow> bool" where
  "op_valid d (LAllow c ip) \<longleftrightarrow> mono_clock c \<and> now_at (in_call c 1) 2 - now_at c 0 \<le> d"
| "op_valid d (LCleanup now) \<longleftrightarrow> True"
| "op_valid d (LStats now) \<longleftrightarrow> True"

fun is_request :: "limiter_op \<Rightarrow> bool" where
  "is_request (LAllow c ip) = True"
| "is_request (LCleanup now) = False"
| "is_request (LStats now) = False"

fun is_request_of :: "string \<Rightarrow> limiter_op \<Rightarrow> bool" where
  "is_request_of a (LAllow c ip) = (ip = a)"
| "is_request_of a (LCleanup now) = False"
| "is_request_of a (LStats now) = False"

text \<open>
  The configurations the per-address bound holds for: capacities up to a million, rates
  up to \<open>2^28\<close>, and an idle timeout after which, an operation's duration \<open>d\<close> aside, an
  address's bucket has filled up again.
\<close>

definition config_ok :: "duration \<Rightarrow> rl_config \<Rightarrow> bool" where
  "config_ok d cfg \<longleftrightarrow>
     0 \<le> per_ip_capacity cfg \<and> per_ip_capacity cfg \<le> 10 ^ 6 \<and>
     0 < per_ip_refill_rate cfg \<and> per_ip_refill_rate cfg \<le> 2 ^ 28 \<and>
     0 \<le> d \<and> ip_idle_timeout cfg < 2 ^ 62 \<and>
     (per_ip_capacity cfg + 1) * 10 ^ 9 \<le> per_ip_refill_rate cfg * (ip_idle_timeout cfg - d)"

lemma default_config_ok: "config_ok (580 * second) default_rl_config"
  by (simp add: config_ok_def default_rl_config_def duration_defs)

lemma limiter_allow_config [simp]:
  "per_ip_refill_rate (config rl) \<noteq> 0 \<Longrightarrow> config (snd (limiter_allow c ip rl)) = config rl"
  by (erule limiter_allow_cases [of rl c ip]) auto

lemma limiter_allow_stop [simp]:
  "per_ip_refill_rate (config rl) \<noteq> 0 \<Longrightarrow> stop_closed (snd (limiter_allow c ip rl)) = stop_closed rl"
  by (erule limiter_allow_cases [of rl c ip]) auto

lemma cleanup_fields [simp]:
  "config (cleanup now rl) = config rl" "global_bucket (cleanup now rl) = global_bucket rl"
  "stop_closed (cleanup now rl) = stop_closed rl"
  by (simp_all add: cleanup_def Let_def)

lemma get_stats_fields [simp]:
  "config (snd (get_stats now rl)) = config rl" "ip_buckets (snd (get_stats now rl)) = ip_buckets rl"
  "global_bucket (snd (get_stats now rl)) = refill now (global_bucket rl)"
  "stop_closed (snd (get_stats now rl)) = stop_closed rl"
  by (simp_all add: get_stats_def bucket_tokens_def Let_def)

lemma cleanup_buckets:
  assumes "gm_ok (ip_buckets rl)" and "in_i64 (ip_idle_timeout (config rl))" and "0 \<le> ip_idle_timeout (config rl)"
  shows "gm_get (ip_buckets (cleanup now rl)) ip =
      (case gm_get (ip_buckets rl) ip of
         Some e \<Rightarrow> if last_seen e < now - ip_idle_timeout (config rl) then None else Some e
       | None \<Rightarrow> None)"
    and "gm_ok (ip_buckets (cleanup now rl))"
proof -
  let ?m = "ip_buckets rl" and ?cut = "now - ip_idle_timeout (config rl)"
  have "wrap64 (- ip_idle_timeout (config rl)) = - ip_idle_timeout (config rl)"
    using assms(2,3) by (intro wrap64_between) (auto simp: in_i64_def)
  then have m: "ip_buckets (cleanup now rl) =
      fold gm_del [ip. (ip, entry) \<leftarrow> ?m, last_seen entry < ?cut] ?m"
    by (simp add: cleanup_def Let_def)
  have idle: "ip \<in> set [ip. (ip, entry) \<leftarrow> ?m, last_seen entry < ?cut] \<longleftrightarrow>
      (\<exists>e. gm_get ?m ip = Some e \<and> last_seen e < ?cut)" for ip
    using gm_get_in [OF assms(1)] by (auto split: if_splits)
  show "gm_ok (ip_buckets (cleanup now rl))"
    unfolding m by (rule gm.ok_del_all [OF assms(1)])
  show "gm_get (ip_buckets (cleanup now rl)) ip =
      (case gm_get ?m ip of Some e \<Rightarrow> if last_seen e < ?cut then None else Some e | None \<Rightarrow> None)"
    unfolding m gm.lookup_del_all [OF assms(1)] idle by (auto split: option.splits)
qed


subsection \<open>The global limit as a meter\<close>

definition global_metered :: "rl_config \<Rightarrow> rate_limiter \<Rightarrow> instant \<Rightarrow> bool" where
  "global_metered cfg rl t \<longleftrightarrow> config rl = cfg \<and> per_ip_refill_rate cfg \<noteq> 0 \<and>
     bucket_metered (global_capacity cfg) (global_refill_rate cfg) (global_bucket rl) t"

definition global_entitled :: "rate_limiter \<Rightarrow> instant \<Rightarrow> int" where
  "global_entitled rl t = bucket_entitled (global_bucket rl) t"

lemma return_token_metered:
  "bucket_metered cap rate (global_bucket rl) t \<Longrightarrow>
     bucket_metered cap rate (global_bucket (return_global_token rl)) t \<and>
     bucket_entitled (global_bucket (return_global_token rl)) t \<le> bucket_entitled (global_bucket rl) t + 10 ^ 9"
  by (auto simp: return_global_token_bucket bucket_metered_def bucket_ok_def bucket_entitled_def
      algebra_simps)

lemma global_step:
  assumes "global_metered cfg rl (now_at c 0)"
  shows "global_metered cfg (snd (limiter_allow c ip rl)) (now_at c 0)"
    and "global_entitled (snd (limiter_allow c ip rl)) (now_at c 0)
        + (if fst (limiter_allow c ip rl) = Inr True then 10 ^ 9 else 0) \<le> global_entitled rl (now_at c 0)"
proof -
  let ?t = "now_at c 0" and ?gb = "snd (bucket_allow (now_at c 0) (global_bucket rl))"
  have nz: "per_ip_refill_rate (config rl) \<noteq> 0" and cfg: "config rl = cfg"
    and m: "bucket_metered (global_capacity cfg) (global_refill_rate cfg) (global_bucket rl) ?t"
    using assms by (auto simp: global_metered_def)
  note gb = allow_metered [OF m]
  have ret: "bucket_metered (global_capacity cfg) (global_refill_rate cfg)
        (global_bucket (return_global_token rl')) ?t \<and>
      bucket_entitled (global_bucket (return_global_token rl')) ?t \<le> bucket_entitled ?gb ?t + 10 ^ 9"
    if "global_bucket rl' = ?gb" for rl'
    using return_token_metered [of "global_capacity cfg" "global_refill_rate cfg" rl' ?t] gb(1) that by simp
  have "global_metered cfg (snd (limiter_allow c ip rl)) ?t \<and>
      global_entitled (snd (limiter_allow c ip rl)) ?t
        + (if fst (limiter_allow c ip rl) = Inr True then 10 ^ 9 else 0) \<le> global_entitled rl ?t"
    using nz
  proof (rule limiter_allow_cases [of rl c ip])
    assume "\<not> global_ok c rl"
      and "limiter_allow c ip rl = (Inr False, log_metric (RateLimitRejects ''global'')
        (rl\<lparr>global_bucket := ?gb\<rparr>))"
    then show ?thesis using gb nz cfg by (simp add: global_metered_def global_entitled_def global_ok_eq)
  next
    fix rl'
    assume g: "global_ok c rl" and rl': "config rl' = config rl" "global_bucket rl' = ?gb"
      and st: "limiter_allow c ip rl = (if ip_ok c ip rl then (Inr True, log_metric RateLimitAllows rl')
        else (Inr False, log_metric (RateLimitRejects ''per_ip'') (return_global_token rl')))"
    show ?thesis
      using gb nz cfg rl' st g ret [OF rl'(2)]
      by (cases "ip_ok c ip rl") (simp_all add: global_metered_def global_entitled_def global_ok_eq)
  qed
  then show "global_metered cfg (snd (limiter_allow c ip rl)) (now_at c 0)"
    and "global_entitled (snd (limiter_allow c ip rl)) (now_at c 0)
        + (if fst (limiter_allow c ip rl) = Inr True then 10 ^ 9 else 0) \<le> global_entitled rl (now_at c 0)"
    by simp_all
qed

lemma global_later: "global_metered cfg rl t \<Longrightarrow> t \<le> t' \<Longrightarrow> global_metered cfg rl t'"
  by (auto simp: global_metered_def intro: metered_later)

lemma global_grows: "global_metered cfg rl t \<Longrightarrow>
    global_entitled rl t' = global_entitled rl t + global_refill_rate cfg * (t' - t)"
  by (auto simp: global_metered_def global_entitled_def bucket_metered_def intro: entitled_grows)

lemma global_nonneg: "global_metered cfg rl t \<Longrightarrow> 0 \<le> global_entitled rl t"
  unfolding global_metered_def global_entitled_def by (elim conjE) (rule entitled_nonneg)

lemma global_limiter_step:
  assumes "global_metered cfg s (op_begins r)"
  shows "global_metered cfg (snd (limiter_step r s)) (op_begins r) \<and>
      global_entitled (snd (limiter_step r s)) (op_begins r)
        + (if fst (limiter_step r s) \<and> is_request r then 10 ^ 9 else 0) \<le> global_entitled s (op_begins r)"
proof (cases r)
  case (LAllow c ip)
  then show ?thesis using assms global_step [of cfg s c ip] by (simp add: split_beta)
next
  case (LCleanup now)
  then show ?thesis using assms by (simp add: global_metered_def global_entitled_def)
next
  case (LStats now)
  then show ?thesis using assms refill_metered refill_entitled
    by (auto simp: global_metered_def global_entitled_def)
qed

lemma global_op_step:
  assumes m: "global_metered cfg s (op_begins r)" and be: "op_begins r \<le> op_ends r"
  shows "global_metered cfg (snd (limiter_step r s)) (op_ends r)"
    and "global_entitled (snd (limiter_step r s)) (op_ends r)
        + (if fst (limiter_step r s) \<and> is_request r then 10 ^ 9 else 0)
      \<le> global_entitled s (op_begins r) + global_refill_rate cfg * (op_ends r - op_begins r)"
proof -
  have st: "global_metered cfg (snd (limiter_step r s)) (op_begins r)"
    "global_entitled (snd (limiter_step r s)) (op_begins r)
        + (if fst (limiter_step r s) \<and> is_request r then 10 ^ 9 else 0) \<le> global_entitled s (op_begins r)"
    using global_limiter_step [OF m] by auto
  show "global_metered cfg (snd (limiter_step r s)) (op_ends r)"
    using st(1) be by (rule global_later)
  show "global_entitled (snd (limiter_step r s)) (op_ends r)
        + (if fst (limiter_step r s) \<and> is_request r then 10 ^ 9 else 0)
      \<le> global_entitled s (op_begins r) + global_refill_rate cfg * (op_ends r - op_begins r)"
    unfolding global_grows [OF st(1), of "op_ends r"] using st(2) by linarith
qed

interpretation global_meter: metered limiter_step op_begins op_ends "\<lambda>_. True" is_request
  "global_metered cfg" global_entitled "global_refill_rate cfg"
  for cfg :: rl_config
proof (unfold_locales, goal_cases)
  case (1 s r)
  then show ?case by (intro global_op_step(1))
next
  case (2 s t t')
  then show ?case by (rule global_later)
next
  case (3 s r)
  then show ?case by (intro global_op_step(2))
next
  case (4 s t t')
  then show ?case by (intro eq_refl global_grows)
next
  case (5 s t)
  then show ?case by (rule global_nonneg)
qed


subsection \<open>The limit of one address as a meter\<close>

text \<open>
  An address without an entry is owed a full bucket.  Forgetting an entry therefore must
  not raise what the address is owed, which is what \<open>config_ok\<close> asks of the timeout.
\<close>

definition entry_metered :: "duration \<Rightarrow> rl_config \<Rightarrow> ip_entry \<Rightarrow> instant \<Rightarrow> bool" where
  "entry_metered d cfg e t \<longleftrightarrow>
     bucket_metered (per_ip_capacity cfg) (per_ip_refill_rate cfg) (ip_bucket e) t \<and>
     last_refill (ip_bucket e) \<le> last_seen e + d"

definition ip_metered :: "duration \<Rightarrow> rl_config \<Rightarrow> rate_limiter \<Rightarrow> instant \<Rightarrow> bool" where
  "ip_metered d cfg rl t \<longleftrightarrow> config rl = cfg \<and> config_ok d cfg \<and> gm_ok (ip_buckets rl) \<and>
     (\<forall>ip e. gm_get (ip_buckets rl) ip = Some e \<longrightarrow> entry_metered d cfg e t)"

definition ip_entitled :: "string \<Rightarrow> rate_limiter \<Rightarrow> instant \<Rightarrow> int" where
  "ip_entitled a rl t =
     (case gm_get (ip_buckets rl) a of
        Some e \<Rightarrow> bucket_entitled (ip_bucket e) t
      | None \<Rightarrow> per_ip_capacity (config rl) * 10 ^ 9)"

lemma entry_later: "entry_metered d cfg e t \<Longrightarrow> t \<le> t' \<Longrightarrow> entry_metered d cfg e t'"
  by (auto simp: entry_metered_def intro: metered_later)

lemma ip_later: "ip_metered d cfg rl t \<Longrightarrow> t \<le> t' \<Longrightarrow> ip_metered d cfg rl t'"
  by (auto simp: ip_metered_def intro: entry_later)

lemma ip_grows:
  assumes "ip_metered d cfg rl t" and "t \<le> t'"
  shows "ip_entitled a rl t' \<le> ip_entitled a rl t + per_ip_refill_rate cfg * (t' - t)"
proof (cases "gm_get (ip_buckets rl) a")
  case None
  have "0 \<le> per_ip_refill_rate cfg * (t' - t)"
    using assms by (simp add: ip_metered_def config_ok_def)
  then show ?thesis using None by (simp add: ip_entitled_def)
next
  case (Some e)
  then have "refill_rate (ip_bucket e) = per_ip_refill_rate cfg"
    using assms(1) by (auto simp: ip_metered_def entry_metered_def bucket_metered_def)
  then show ?thesis using Some entitled_grows [of "ip_bucket e"] by (simp add: ip_entitled_def)
qed

lemma ip_nonneg: "ip_metered d cfg rl t \<Longrightarrow> 0 \<le> ip_entitled a rl t"
  by (auto simp: ip_metered_def ip_entitled_def entry_metered_def config_ok_def
      intro: entitled_nonneg split: option.split)

text \<open>Only the map of addresses and the configuration matter to this meter.\<close>

lemma ip_metered_cong:
  "ip_buckets rl' = ip_buckets rl \<Longrightarrow> config rl' = config rl \<Longrightarrow>
     ip_metered d cfg rl' t = ip_metered d cfg rl t \<and> ip_entitled a rl' t = ip_entitled a rl t"
  by (simp add: ip_metered_def ip_entitled_def split: option.split)

lemma ip_metered_stats:
  "ip_metered d cfg (snd (get_stats now rl)) t = ip_metered d cfg rl t"
  "ip_entitled a (snd (get_stats now rl)) t = ip_entitled a rl t"
  using ip_metered_cong [of "snd (get_stats now rl)" rl] by simp_all

lemma bucket_of_metered:
  assumes "ip_metered d cfg rl t" and "t \<le> now_at c 1" and "now_at c 1 \<le> t'"
  shows "bucket_metered (per_ip_capacity cfg) (per_ip_refill_rate cfg) (bucket_of c a rl) t'"
    and "bucket_entitled (bucket_of c a rl) t' \<le> ip_entitled a rl t + per_ip_refill_rate cfg * (t' - t)"
proof -
  have cfg: "config rl = cfg" "config_ok d cfg" using assms(1) by (auto simp: ip_metered_def)
  show "bucket_metered (per_ip_capacity cfg) (per_ip_refill_rate cfg) (bucket_of c a rl) t'"
  proof (cases "gm_get (ip_buckets rl) a")
    case None
    then show ?thesis
      using cfg assms(3) by (auto simp: bucket_of_def bucket_metered_def bucket_ok_def config_ok_def)
  next
    case (Some e)
    then have "entry_metered d cfg e t" using assms(1) by (simp add: ip_metered_def)
    then show ?thesis
      using Some assms(2,3) by (auto simp: bucket_of_def entry_metered_def intro: metered_later)
  qed
  show "bucket_entitled (bucket_of c a rl) t' \<le> ip_entitled a rl t + per_ip_refill_rate cfg * (t' - t)"
  proof (cases "gm_get (ip_buckets rl) a")
    case None
    have "per_ip_refill_rate cfg * (t' - now_at c 1) \<le> per_ip_refill_rate cfg * (t' - t)"
      using assms(2) cfg by (intro mult_left_mono) (auto simp: config_ok_def)
    then show ?thesis using None cfg by (simp add: bucket_of_def ip_entitled_def bucket_entitled_def)
  next
    case (Some e)
    then show ?thesis
      using ip_grows [OF assms(1), of t' a] assms by (simp add: bucket_of_def ip_entitled_def)
  qed
qed

lemma ip_allow_step:
  assumes m: "ip_metered d cfg rl (now_at c 0)" and "mono_clock c"
    and dur: "now_at (in_call c 1) 2 - now_at c 0 \<le> d"
  shows "ip_metered d cfg (snd (limiter_allow c ip rl)) (now_at (in_call c 1) 2)"
    and "ip_entitled a (snd (limiter_allow c ip rl)) (now_at (in_call c 1) 2)
        + (if fst (limiter_allow c ip rl) = Inr True \<and> ip = a then 10 ^ 9 else 0)
      \<le> ip_entitled a rl (now_at c 0)
        + per_ip_refill_rate cfg * (now_at (in_call c 1) 2 - now_at c 0)"
proof -
  let ?i = "in_call c 1" and ?b = "now_at c 0" and ?R = "per_ip_refill_rate cfg"
  let ?t = "now_at ?i 2" and ?B = "bucket_of ?i ip rl" and ?s = "snd (limiter_allow c ip rl)"
  have mono: "mono_clock ?i" using assms(2) by (rule mono_in_call)
  have times: "?b \<le> now_at ?i 0" "now_at ?i 0 \<le> now_at ?i 1" "now_at ?i 1 \<le> ?t"
    using now_in_call_le [OF assms(2), of 0 1 "[0]"] by (auto simp: now_at_def [of ?i] intro: now_at_le [OF mono, unfolded now_at_def])
  have nz: "per_ip_refill_rate (config rl) \<noteq> 0" and cfg: "config rl = cfg"
    using m by (auto simp: ip_metered_def config_ok_def)
  have later: "ip_metered d cfg rl ?t" using m times by (intro ip_later [OF m]) linarith
  have grow: "ip_entitled x rl ?t \<le> ip_entitled x rl ?b + ?R * (?t - ?b)" for x
    using m times by (intro ip_grows) auto
  note B = bucket_of_metered [OF m, of ?i ?t ip]
  have Bm: "bucket_metered (per_ip_capacity cfg) ?R ?B ?t"
    and Be: "bucket_entitled ?B ?t \<le> ip_entitled ip rl ?b + ?R * (?t - ?b)"
    using B times by linarith+
  note A = allow_metered [OF Bm]
  have "ip_metered d cfg ?s ?t \<and>
      ip_entitled a ?s ?t + (if fst (limiter_allow c ip rl) = Inr True \<and> ip = a then 10 ^ 9 else 0)
        \<le> ip_entitled a rl ?b + ?R * (?t - ?b)"
    using nz
  proof (rule limiter_allow_cases [of rl c ip])
    assume "limiter_allow c ip rl = (Inr False, log_metric (RateLimitRejects ''global'')
        (rl\<lparr>global_bucket := snd (bucket_allow ?b (global_bucket rl))\<rparr>))"
    then show ?thesis using later grow [of a] ip_metered_cong [of ?s rl d cfg ?t a] by simp
  next
    fix rl'
    assume rl': "config rl' = config rl" "gm_ok (ip_buckets rl) \<Longrightarrow> gm_ok (ip_buckets rl')"
      and get: "\<And>ip'. gm_get (ip_buckets rl') ip' =
        (if ip' = ip then Some \<lparr>ip_bucket = snd (bucket_allow ?t ?B), last_seen = now_at ?i 0\<rparr>
         else gm_get (ip_buckets rl) ip')"
      and st: "limiter_allow c ip rl = (if ip_ok c ip rl then (Inr True, log_metric RateLimitAllows rl')
        else (Inr False, log_metric (RateLimitRejects ''per_ip'') (return_global_token rl')))"
    have "last_refill (snd (bucket_allow ?t ?B)) \<le> now_at ?i 0 + d"
      using A(1) times dur by (auto simp: bucket_metered_def)
    then have m': "ip_metered d cfg rl' ?t"
      using later rl' get A(1) by (auto simp: ip_metered_def entry_metered_def)
    have e': "ip_entitled a rl' ?t + (if ip_ok c ip rl \<and> ip = a then 10 ^ 9 else 0)
        \<le> ip_entitled a rl ?b + ?R * (?t - ?b)"
    proof (cases "ip = a")
      case True
      then show ?thesis using A(2) Be by (simp add: ip_entitled_def get ip_ok_eq)
    next
      case False
      then have "ip_entitled a rl' ?t = ip_entitled a rl ?t"
        using rl'(1) by (simp add: ip_entitled_def get split: option.split)
      then show ?thesis using grow [of a] False by simp
    qed
    have same: "ip_buckets ?s = ip_buckets rl'" "config ?s = config rl'"
      and res: "fst (limiter_allow c ip rl) = Inr True \<longleftrightarrow> ip_ok c ip rl" by (simp_all add: st)
    show ?thesis
      unfolding res using m' e' ip_metered_cong [OF same, of d cfg ?t a] by (simp only: simp_thms)
  qed
  then show "ip_metered d cfg ?s ?t"
    and "ip_entitled a ?s ?t + (if fst (limiter_allow c ip rl) = Inr True \<and> ip = a then 10 ^ 9 else 0)
        \<le> ip_entitled a rl ?b + ?R * (?t - ?b)" by simp_all
qed

lemma ip_cleanup_step:
  assumes m: "ip_metered d cfg rl t"
  shows "ip_metered d cfg (cleanup t rl) t" and "ip_entitled a (cleanup t rl) t \<le> ip_entitled a rl t"
proof -
  let ?R = "per_ip_refill_rate cfg" and ?C = "per_ip_capacity cfg" and ?I = "ip_idle_timeout cfg"
  have cfg: "config rl = cfg" "config_ok d cfg" and ok: "gm_ok (ip_buckets rl)"
    using m by (auto simp: ip_metered_def)
  have pos: "(?C + 1) * 10 ^ 9 \<le> ?R * (?I - d)" "0 < ?R" "0 \<le> ?C" "0 \<le> d" "?I < 2 ^ 62"
    using cfg by (auto simp: config_ok_def)
  then have "0 < ?R * (?I - d)" by (smt (verit) mult_pos_pos zero_less_power)
  then have "0 \<le> ?I" using pos by (simp add: zero_less_mult_iff)
  then have idle: "in_i64 (ip_idle_timeout (config rl))" "0 \<le> ip_idle_timeout (config rl)"
    using pos cfg by (auto simp: in_i64_def)
  note get = cleanup_buckets [OF ok idle, of t]
  show "ip_metered d cfg (cleanup t rl) t"
    using m get by (auto simp: ip_metered_def split: option.splits if_splits)
  show "ip_entitled a (cleanup t rl) t \<le> ip_entitled a rl t"
  proof (cases "gm_get (ip_buckets rl) a")
    case None
    then show ?thesis by (simp add: ip_entitled_def get)
  next
    case (Some e)
    then have e: "entry_metered d cfg e t" using m by (simp add: ip_metered_def)
    show ?thesis
    proof (cases "last_seen e < t - ?I")
      case True
      then have "?I - d \<le> t - last_refill (ip_bucket e)" using e by (simp add: entry_metered_def)
      then have "?R * (?I - d) \<le> ?R * (t - last_refill (ip_bucket e))"
        using pos by (intro mult_left_mono) auto
      with pos(1) have "(?C + 1) * 10 ^ 9 \<le> ?R * (t - last_refill (ip_bucket e))" by (rule order_trans)
      then have "?C * 10 ^ 9 \<le> ?R * (t - last_refill (ip_bucket e))" by simp
      moreover have "refill_rate (ip_bucket e) = ?R" and "0 \<le> tokens (ip_bucket e)"
        using e by (auto simp: entry_metered_def bucket_metered_def bucket_ok_def)
      ultimately have "?C * 10 ^ 9 \<le> bucket_entitled (ip_bucket e) t" by (simp add: bucket_entitled_def)
      then show ?thesis using Some True cfg by (simp add: ip_entitled_def get)
    next
      case False
      then show ?thesis using Some cfg by (simp add: ip_entitled_def get)
    qed
  qed
qed

interpretation ip_meter: metered limiter_step op_begins op_ends "op_valid d" "is_request_of a"
  "ip_metered d cfg" "ip_entitled a" "per_ip_refill_rate cfg"
  for d :: duration and cfg :: rl_config and a :: string
proof (unfold_locales, goal_cases)
  case (1 s r)
  then show ?case
    by (cases r) (auto simp: split_beta ip_metered_stats intro: ip_allow_step ip_cleanup_step)
next
  case (2 s t t')
  then show ?case by (rule ip_later)
next
  case (3 s r)
  then show ?case
  proof (cases r)
    case (LAllow c ip)
    with 3 show ?thesis using ip_allow_step(2) [where ip = ip and a = a, of d cfg s c] by (simp add: split_beta)
  next
    case (LCleanup now)
    with 3 show ?thesis using ip_cleanup_step(2) [of d cfg s now a] by simp
  next
    case (LStats now)
    with 3 show ?thesis by (simp add: ip_metered_stats)
  qed
next
  case (4 s t t')
  then show ?case by (rule ip_grows)
next
  case (5 s t)
  then show ?case by (rule ip_nonneg)
qed


subsection \<open>Properties\<close>

definition global_config_ok :: "rl_config \<Rightarrow> bool" where
  "global_config_ok cfg \<longleftrightarrow> 0 \<le> global_capacity cfg \<and> global_capacity cfg \<le> 10 ^ 6 \<and>
     0 < global_refill_rate cfg \<and> global_refill_rate cfg \<le> 2 ^ 28 \<and> per_ip_refill_rate cfg \<noteq> 0"

lemma new_rate_limiter_global:
  assumes "new_rate_limiter t cfg = Inr rl" and "global_config_ok cfg"
  shows "global_metered cfg rl t" and "global_entitled rl t = global_capacity cfg * 10 ^ 9"
  using assms
  by (auto simp: new_rate_limiter_def new_token_bucket_def global_metered_def global_entitled_def
      bucket_metered_def bucket_ok_def bucket_entitled_def global_config_ok_def split: if_splits)

lemma new_rate_limiter_metered:
  assumes "new_rate_limiter t cfg = Inr rl" and "config_ok d cfg"
  shows "ip_metered d cfg rl t" and "ip_entitled a rl t = per_ip_capacity cfg * 10 ^ 9"
  using assms
  by (auto simp: new_rate_limiter_def new_token_bucket_def ip_metered_def ip_entitled_def
      gomap_simps split: if_splits)

lemma scaled_bound:
  fixes n c x :: int
  assumes "10 ^ 9 * n \<le> c * 10 ^ 9 + x"
  shows "n \<le> c + x div 10 ^ 9"
proof -
  have "(n - c) * 10 ^ 9 \<le> x" using assms by (simp add: algebra_simps)
  then have "(n - c) * 10 ^ 9 div 10 ^ 9 \<le> x div 10 ^ 9" by (rule zdiv_mono1) simp
  then show ?thesis by simp
qed

text \<open>
  C1: The per-address limit. However requests of any clients, cleanups of idle entries
  and readings of the statistics are interleaved, the requests admitted from one address in the time from \<open>t\<close> to \<open>T\<close>
  are at most its capacity plus its rate times the time, although entries are forgotten
  and recreated full.
\<close>

theorem per_ip_admission_bound:
  assumes "new_rate_limiter t cfg = Inr rl" and "config_ok d cfg"
    and "in_order op_begins op_ends t ops T" and "\<forall>op\<in>set ops. op_valid d op"
  shows "int (admitted limiter_step (is_request_of a) rl ops)
    \<le> per_ip_capacity cfg + per_ip_refill_rate cfg * (T - t) div 10 ^ 9"
  using ip_meter.admitted_bound [OF new_rate_limiter_metered(1) [OF assms(1,2)] assms(3,4)]
  by (intro scaled_bound) (simp only: new_rate_limiter_metered(2) [OF assms(1,2)])

definition sample_limiter :: rate_limiter where
  "sample_limiter =
     \<lparr>config = default_rl_config,
      global_bucket = \<lparr>capacity = 1000, tokens = 1000, refill_rate = 100, last_refill = 0,
                       refill_period = second sdiv 100\<rparr>,
      ip_buckets = [], stop_closed = False, metric_log = []\<rparr>"

lemma new_sample_limiter: "new_rate_limiter 0 default_rl_config = Inr sample_limiter"
  by (simp add: new_rate_limiter_def new_token_bucket_def sample_limiter_def default_rl_config_def)

theorem per_ip_admission_bound_witness:
  "int (admitted limiter_step (is_request_of ''10.0.0.1'') sample_limiter
     [LAllow (\<lambda>_. 0) ''10.0.0.1'', LCleanup second, LAllow (\<lambda>_. minute) ''10.0.0.2''])
   \<le> 100 + 10 * (minute - 0) div 10 ^ 9"
  using per_ip_admission_bound [OF new_sample_limiter default_config_ok, where a = "''10.0.0.1''", of "[LAllow (\<lambda>_. 0) ''10.0.0.1'', LCleanup second, LAllow (\<lambda>_. minute) ''10.0.0.2'']" minute]
  by (simp add: duration_defs default_rl_config_def)

text \<open>
  C2: The global limit. Over any such sequence, the requests admitted from all addresses
  together are at most the global capacity plus the global rate times the time; the
  tokens handed back for refused addresses do not break it.
\<close>

theorem global_admission_bound:
  assumes "new_rate_limiter t cfg = Inr rl" and "global_config_ok cfg"
    and "in_order op_begins op_ends t ops T"
  shows "int (admitted limiter_step is_request rl ops)
    \<le> global_capacity cfg + global_refill_rate cfg * (T - t) div 10 ^ 9"
  using global_meter.admitted_bound [OF new_rate_limiter_global(1) [OF assms(1,2)] assms(3)]
  by (intro scaled_bound) (simp add: new_rate_limiter_global(2) [OF assms(1,2)])

theorem global_admission_bound_witness:
  "int (admitted limiter_step is_request sample_limiter
     [LAllow (\<lambda>_. 0) ''10.0.0.1'', LCleanup second, LAllow (\<lambda>_. minute) ''10.0.0.2''])
   \<le> 1000 + 100 * (minute - 0) div 10 ^ 9"
  using global_admission_bound [OF new_sample_limiter,
      of "[LAllow (\<lambda>_. 0) ''10.0.0.1'', LCleanup second, LAllow (\<lambda>_. minute) ''10.0.0.2'']" minute]
  by (simp add: duration_defs default_rl_config_def global_config_ok_def)

lemma ip_cleanup_get:
  assumes m: "ip_metered d cfg rl t"
  shows "gm_get (ip_buckets (cleanup t rl)) a =
      (case gm_get (ip_buckets rl) a of
         Some e \<Rightarrow> if last_seen e < t - ip_idle_timeout cfg then None else Some e | None \<Rightarrow> None)"
proof -
  have cfg: "config rl = cfg" "config_ok d cfg" and ok: "gm_ok (ip_buckets rl)"
    using m by (auto simp: ip_metered_def)
  have pos: "(per_ip_capacity cfg + 1) * 10 ^ 9 \<le> per_ip_refill_rate cfg * (ip_idle_timeout cfg - d)"
    "0 < per_ip_refill_rate cfg" "0 \<le> per_ip_capacity cfg" "0 \<le> d" "ip_idle_timeout cfg < 2 ^ 62"
    using cfg by (auto simp: config_ok_def)
  then have "0 < per_ip_refill_rate cfg * (ip_idle_timeout cfg - d)"
    by (smt (verit) mult_pos_pos zero_less_power)
  then have "0 \<le> ip_idle_timeout cfg" using pos by (simp add: zero_less_mult_iff)
  then show ?thesis
    using cleanup_buckets(1) [OF ok, of t a] pos cfg by (simp add: in_i64_def cong: option.case_cong)
qed

subsection \<open>Lemmas on one request\<close>

lemma limiter_allow_result:
  assumes "per_ip_refill_rate (config rl) \<noteq> 0"
  shows "fst (limiter_allow c ip rl) = Inr (global_ok c rl \<and> ip_ok c ip rl)"
  using assms by (rule limiter_allow_cases [of rl c ip]) auto

lemma limiter_allow_other:
  assumes "per_ip_refill_rate (config rl) \<noteq> 0" and "a \<noteq> ip"
  shows "gm_get (ip_buckets (snd (limiter_allow c ip rl))) a = gm_get (ip_buckets rl) a"
  using assms(1) by (rule limiter_allow_cases [of rl c ip]) (use assms(2) in auto)

lemma limiter_step_allow [simp]:
  "snd (limiter_step (LAllow c ip) rl) = snd (limiter_allow c ip rl)"
  by (simp add: split_beta)

lemma bucket_of_cong:
  "gm_get (ip_buckets rl') a = gm_get (ip_buckets rl) a \<Longrightarrow> config rl' = config rl \<Longrightarrow>
     bucket_of c a rl' = bucket_of c a rl"
  by (simp add: bucket_of_def split: option.split)

fun run_limiter :: "limiter_op list \<Rightarrow> rate_limiter \<Rightarrow> rate_limiter" where
  "run_limiter [] rl = rl"
| "run_limiter (op # ops) rl = run_limiter ops (snd (limiter_step op rl))"

fun is_outcome :: "rl_metric \<Rightarrow> bool" where
  "is_outcome (RateLimitIPsTracked n) = False"
| "is_outcome _ = True"

text \<open>
  C17: What \<open>Allow\<close> decides and what it takes.  A request passes exactly when the global
  bucket and the bucket of its address have a token at the time each is asked.  A request
  that passes takes one token from each; any other takes none, and when the global bucket
  is empty the one of the address is not asked.  Other addresses keep what they had, and
  exactly one outcome is added to the metrics.
\<close>

theorem allow_decision:
  assumes "per_ip_refill_rate (config rl) \<noteq> 0"
    and "bucket_ok (global_bucket rl)" and "bucket_ok (bucket_of (in_call c 1) ip rl)"
    and g: "g = level (now_at c 0) (global_bucket rl)"
    and a: "a = level (now_at (in_call c 1) 2) (bucket_of (in_call c 1) ip rl)"
    and res: "limiter_allow c ip rl = (res, rl')"
  shows "res = Inr (1 \<le> g \<and> 1 \<le> a) \<and>
    tokens (global_bucket rl') = (if 1 \<le> g \<and> 1 \<le> a then g - 1 else g) \<and>
    gm_get (ip_buckets rl') ip =
      (if 1 \<le> g then Some \<lparr>ip_bucket = (refill (now_at (in_call c 1) 2) (bucket_of (in_call c 1) ip rl))
                              \<lparr>tokens := if 1 \<le> a then a - 1 else a\<rparr>, last_seen = now_at (in_call c 1) 0\<rparr>
       else gm_get (ip_buckets rl) ip) \<and>
    (\<forall>ip'. ip' \<noteq> ip \<longrightarrow> gm_get (ip_buckets rl') ip' = gm_get (ip_buckets rl) ip') \<and>
    filter is_outcome (metric_log rl') = filter is_outcome (metric_log rl) @
      [if g < 1 then RateLimitRejects ''global'' else if a < 1 then RateLimitRejects ''per_ip'' else RateLimitAllows]"
proof -
  have ok: "global_ok c rl \<longleftrightarrow> 1 \<le> g" "ip_ok c ip rl \<longleftrightarrow> 1 \<le> a"
    using assms(2,3) by (simp_all add: global_ok_def ip_ok_def tokens_refill g a)
  have cap: "tokens (refill (now_at c 0) (global_bucket rl)) \<le> capacity (global_bucket rl)"
    using refill_ok(1) [OF assms(2), of "now_at c 0"] by (simp add: bucket_ok_def)
  have entry: "snd (bucket_allow (now_at (in_call c 1) 2) (bucket_of (in_call c 1) ip rl)) =
      (refill (now_at (in_call c 1) 2) (bucket_of (in_call c 1) ip rl))\<lparr>tokens := if 1 \<le> a then a - 1 else a\<rparr>"
    using assms(3) by (simp add: bucket_allow_def allow_n_eq Let_def tokens_refill flip: a)
  note global = bucket_allow_level(2) [OF assms(2), of "now_at c 0", folded g]
  show ?thesis using assms(1)
  proof (rule limiter_allow_cases [of rl c ip])
    assume "\<not> global_ok c rl"
      and "limiter_allow c ip rl = (Inr False, log_metric (RateLimitRejects ''global'')
             (rl\<lparr>global_bucket := snd (bucket_allow (now_at c 0) (global_bucket rl))\<rparr>))"
    then show ?thesis using res ok global by auto
  next
    fix rl1
    assume "global_ok c rl"
      and "limiter_allow c ip rl = (if ip_ok c ip rl then (Inr True, log_metric RateLimitAllows rl1)
         else (Inr False, log_metric (RateLimitRejects ''per_ip'') (return_global_token rl1)))"
      and "\<And>ip'. gm_get (ip_buckets rl1) ip' =
        (if ip' = ip then
           Some \<lparr>ip_bucket = snd (bucket_allow (now_at (in_call c 1) 2) (bucket_of (in_call c 1) ip rl)),
                 last_seen = now_at (in_call c 1) 0\<rparr>
         else gm_get (ip_buckets rl) ip')"
      and "global_bucket rl1 = snd (bucket_allow (now_at c 0) (global_bucket rl))"
      and "metric_log rl1 = metric_log rl @
        (if gm_get (ip_buckets rl) ip = None
         then [RateLimitIPsTracked (length (gm_put ip
                 \<lparr>ip_bucket = bucket_of (in_call c 1) ip rl, last_seen = now_at (in_call c 1) 0\<rparr>
                 (ip_buckets rl)))]
         else [])"
    moreover have "capacity (snd (bucket_allow (now_at c 0) (global_bucket rl))) = capacity (global_bucket rl)"
      by (simp add: bucket_allow_def)
    ultimately show ?thesis
      using res ok global entry cap tokens_refill [OF assms(2), of "now_at c 0", folded g]
      by (cases "1 \<le> a") (auto simp: return_global_token_bucket)
  qed
qed

theorem allow_decision_witness:
  "\<exists>rl'. limiter_allow (\<lambda>_. 0) ''10.0.0.1'' sample_limiter = (Inr True, rl') \<and> tokens (global_bucket rl') = 999 \<and>
     map_option (\<lambda>e. tokens (ip_bucket e)) (gm_get (ip_buckets rl') ''10.0.0.1'') = Some 99"
proof -
  obtain res rl' where res: "limiter_allow (\<lambda>_. 0) ''10.0.0.1'' sample_limiter = (res, rl')" by fastforce
  have ok: "bucket_ok (global_bucket sample_limiter)" "bucket_ok (bucket_of (in_call (\<lambda>_. 0) 1) ''10.0.0.1'' sample_limiter)"
    by (simp_all add: sample_limiter_def default_rl_config_def bucket_of_def bucket_ok_def gm_get_def)
  have rate: "per_ip_refill_rate (config sample_limiter) \<noteq> 0" by (simp add: sample_limiter_def default_rl_config_def)
  from allow_decision [OF rate ok refl refl res] show ?thesis
    using res by (simp add: sample_limiter_def default_rl_config_def bucket_of_def level_def gm_get_def now_at_def)
qed

text \<open>
  A request refused for its address gives its global token back: the global bucket
  is left as a refill alone would leave it.
\<close>

theorem refusal_returns_global_token:
  assumes "per_ip_refill_rate (config rl) \<noteq> 0" and "bucket_ok (global_bucket rl)"
    and "global_ok c rl" and "\<not> ip_ok c ip rl"
  shows "global_bucket (snd (limiter_allow c ip rl)) = refill (now_at c 0) (global_bucket rl)"
proof -
  let ?gb = "global_bucket rl"
  have ok: "bucket_ok (refill (now_at c 0) ?gb)" using assms(2) by (rule refill_ok)
  show ?thesis
    using assms(1)
  proof (rule limiter_allow_cases [of rl c ip])
    fix rl'
    assume rl': "global_bucket rl' = snd (bucket_allow (now_at c 0) ?gb)"
      and st: "limiter_allow c ip rl = (if ip_ok c ip rl then (Inr True, log_metric RateLimitAllows rl')
        else (Inr False, log_metric (RateLimitRejects ''per_ip'') (return_global_token rl')))"
    have "1 \<le> tokens (refill (now_at c 0) ?gb)" and
      "snd (bucket_allow (now_at c 0) ?gb) =
        refill (now_at c 0) ?gb\<lparr>tokens := tokens (refill (now_at c 0) ?gb) - 1\<rparr>"
      using assms(2,3) by (auto simp: global_ok_eq bucket_allow_def allow_n_eq Let_def split: if_splits)
    then show ?thesis
      using assms(4) st rl' ok by (simp add: return_global_token_bucket bucket_ok_def)
  qed (use assms(3) in simp)
qed

theorem refusal_returns_global_token_witness:
  "tokens (global_bucket (snd (limiter_allow (\<lambda>_. 0) ''10.0.0.1''
     (sample_limiter\<lparr>config := default_rl_config\<lparr>per_ip_capacity := 0\<rparr>\<rparr>)))) = 1000"
  using refusal_returns_global_token [of "sample_limiter\<lparr>config := default_rl_config\<lparr>per_ip_capacity := 0\<rparr>\<rparr>"
      "\<lambda>_. 0" "''10.0.0.1''"]
  by (simp add: sample_limiter_def default_rl_config_def global_ok_eq ip_ok_eq bucket_of_def
      bucket_ok_def bucket_allow_def allow_n_def refill_def gm_get_def Let_def wrap64_def)

text \<open>
  Addresses do not affect one another's buckets: after any requests from other
  addresses, the bucket an address is asked against is the one it had before.
\<close>

theorem addresses_are_isolated:
  assumes "per_ip_refill_rate (config rl) \<noteq> 0" and "\<forall>(c, ip) \<in> set reqs. ip \<noteq> a"
  shows "bucket_of c a (run_limiter (map (\<lambda>(c, ip). LAllow c ip) reqs) rl) = bucket_of c a rl"
  using assms
proof (induction reqs arbitrary: rl)
  case Nil
  then show ?case by simp
next
  case (Cons r reqs)
  obtain c' ip where r: "r = (c', ip)" by (cases r)
  let ?rl = "snd (limiter_allow c' ip rl)"
  have "bucket_of c a (run_limiter (map (\<lambda>(c, ip). LAllow c ip) reqs) ?rl) = bucket_of c a ?rl"
    using Cons.prems by (intro Cons.IH) auto
  also have "\<dots> = bucket_of c a rl"
    using Cons.prems by (intro bucket_of_cong limiter_allow_other limiter_allow_config) (auto simp: r)
  finally show ?case by (simp add: r del: limiter_step.simps)
qed


theorem addresses_are_isolated_witness:
  "bucket_of (\<lambda>_. second) ''10.0.0.1''
     (run_limiter (map (\<lambda>(c, ip). LAllow c ip) [(\<lambda>_. 0, ''10.0.0.2''), (\<lambda>_. 1, ''10.0.0.3'')]) sample_limiter) =
   bucket_of (\<lambda>_. second) ''10.0.0.1'' sample_limiter"
  by (rule addresses_are_isolated) (simp_all add: sample_limiter_def default_rl_config_def)

text \<open>
  A cleanup may forget an address, but only one whose bucket has filled up again, so
  the bucket the address is asked against next answers in the same way.
\<close>

lemma allow_full_bucket:
  assumes "bucket_ok tb" and "tokens (refill t tb) = capacity tb"
  shows "fst (bucket_allow t tb) \<longleftrightarrow> 1 \<le> capacity tb"
    and "tokens (snd (bucket_allow t tb)) = max 0 (capacity tb - 1)"
  using assms by (auto simp: bucket_allow_def allow_n_eq Let_def bucket_ok_def)

lemma bucket_of_fresh:
  assumes "ip_metered d cfg rl t" and "gm_get (ip_buckets rl) a = None"
  shows "bucket_ok (bucket_of c a rl)" and "capacity (bucket_of c a rl) = per_ip_capacity cfg"
    and "tokens (refill t' (bucket_of c a rl)) = per_ip_capacity cfg"
proof -
  show ok: "bucket_ok (bucket_of c a rl)" and cap: "capacity (bucket_of c a rl) = per_ip_capacity cfg"
    using assms by (auto simp: bucket_of_def ip_metered_def config_ok_def bucket_ok_def)
  have "tokens (bucket_of c a rl) = per_ip_capacity cfg"
    using assms by (auto simp: bucket_of_def ip_metered_def)
  then show "tokens (refill t' (bucket_of c a rl)) = per_ip_capacity cfg"
    using refill_ok(1,2) [OF ok, of t'] cap by (simp add: bucket_ok_def)
qed

lemma idle_entry_full:
  assumes "ip_metered d cfg rl t" and "gm_get (ip_buckets rl) a = Some e"
    and "last_seen e < t - ip_idle_timeout cfg" and "t \<le> t'"
  shows "bucket_ok (ip_bucket e)" and "capacity (ip_bucket e) = per_ip_capacity cfg"
    and "tokens (refill t' (ip_bucket e)) = per_ip_capacity cfg"
proof -
  let ?R = "per_ip_refill_rate cfg"
  have e: "entry_metered d cfg e t" and cfg: "config_ok d cfg"
    using assms(1,2) by (auto simp: ip_metered_def)
  then show ok: "bucket_ok (ip_bucket e)" and cap: "capacity (ip_bucket e) = per_ip_capacity cfg"
    by (auto simp: entry_metered_def bucket_metered_def)
  have "ip_idle_timeout cfg - d \<le> t' - last_refill (ip_bucket e)"
    using e assms(3,4) by (auto simp: entry_metered_def)
  then have "?R * (ip_idle_timeout cfg - d) \<le> ?R * (t' - last_refill (ip_bucket e))"
    using cfg by (intro mult_left_mono) (auto simp: config_ok_def)
  moreover have "(per_ip_capacity cfg + 1) * 10 ^ 9 \<le> ?R * (ip_idle_timeout cfg - d)"
    and "per_ip_capacity cfg \<le> 10 ^ 6" using cfg by (auto simp: config_ok_def)
  moreover have "refill_rate (ip_bucket e) = ?R"
    using e by (simp add: entry_metered_def bucket_metered_def)
  ultimately show "tokens (refill t' (ip_bucket e)) = per_ip_capacity cfg"
    using idle_full [OF ok, of t'] cap by auto
qed

text \<open>
  C28: Cleanup is invisible to clients: forgetting an idle address changes neither the
  answer its next request gets nor the tokens it has left after it.
\<close>

theorem cleanup_is_invisible:
  assumes "ip_metered d cfg rl t" and "mono_clock c" and "t \<le> now_at c 0"
  shows "ip_ok c a (cleanup t rl) = ip_ok c a rl \<and>
    tokens (snd (bucket_allow (now_at (in_call c 1) 2) (bucket_of (in_call c 1) a (cleanup t rl)))) =
      tokens (snd (bucket_allow (now_at (in_call c 1) 2) (bucket_of (in_call c 1) a rl)))"
proof -
  let ?i = "in_call c 1" and ?rl = "cleanup t rl"
  have times: "t \<le> now_at ?i 2"
    using assms(3) now_in_call_le [OF assms(2), of 0 1 "[2]"] by (simp add: now_at_def [of ?i])
  have get: "gm_get (ip_buckets ?rl) a =
      (case gm_get (ip_buckets rl) a of
         Some e \<Rightarrow> if last_seen e < t - ip_idle_timeout cfg then None else Some e | None \<Rightarrow> None)"
    using ip_cleanup_get [OF assms(1)] .
  have m: "ip_metered d cfg ?rl t" using ip_cleanup_step(1) [OF assms(1)] .
  show "ip_ok c a ?rl = ip_ok c a rl \<and>
    tokens (snd (bucket_allow (now_at ?i 2) (bucket_of ?i a ?rl))) =
      tokens (snd (bucket_allow (now_at ?i 2) (bucket_of ?i a rl)))"
  proof (cases "gm_get (ip_buckets ?rl) a = gm_get (ip_buckets rl) a")
    case True
    then have "bucket_of ?i a ?rl = bucket_of ?i a rl" by (rule bucket_of_cong) simp
    then show ?thesis by (simp only: ip_ok_eq simp_thms)
  next
    case False
    then obtain e where e: "gm_get (ip_buckets rl) a = Some e" "last_seen e < t - ip_idle_timeout cfg"
      and none: "gm_get (ip_buckets ?rl) a = None"
      using get by (auto split: option.splits if_splits)
    have b: "bucket_of ?i a rl = ip_bucket e" using e by (simp add: bucket_of_def)
    note old = idle_entry_full [OF assms(1) e times]
    note new = bucket_of_fresh [OF m none]
    have full: "tokens (refill (now_at ?i 2) (ip_bucket e)) = capacity (ip_bucket e)"
      "tokens (refill (now_at ?i 2) (bucket_of ?i a ?rl)) = capacity (bucket_of ?i a ?rl)"
      "capacity (bucket_of ?i a ?rl) = capacity (ip_bucket e)"
      by (simp_all only: old(2,3) new(2,3))
    show ?thesis
      unfolding ip_ok_eq b allow_full_bucket [OF old(1) full(1)] allow_full_bucket [OF new(1) full(2)]
      by (simp only: full(3) simp_thms)
  qed
qed

definition idle_limiter :: rate_limiter where
  "idle_limiter = sample_limiter\<lparr>ip_buckets :=
     [(''10.0.0.1'', \<lparr>ip_bucket = \<lparr>capacity = 100, tokens = 0, refill_rate = 10, last_refill = 0,
        refill_period = second sdiv 10\<rparr>, last_seen = 0\<rparr>)]\<rparr>"

theorem cleanup_is_invisible_witness:
  "ip_ok (\<lambda>_. 11 * minute) ''10.0.0.1'' (cleanup (11 * minute) idle_limiter) =
   ip_ok (\<lambda>_. 11 * minute) ''10.0.0.1'' idle_limiter"
proof -
  have "ip_metered (580 * second) default_rl_config idle_limiter (11 * minute)"
    using default_config_ok
    by (simp add: ip_metered_def idle_limiter_def sample_limiter_def gm_ok_def gm_get_def
        entry_metered_def bucket_metered_def bucket_ok_def default_rl_config_def duration_defs)
  then show ?thesis by (rule cleanup_is_invisible [THEN conjunct1]) simp_all
qed

text \<open>
  Behind proxies the client is not told apart: a \<open>X-Forwarded-For\<close> chain of two
  addresses is taken whole, not its first address as the comment in \<open>ExtractIP\<close> says,
  because \<open>SplitHostPort\<close> fails on it.  A lone address, with a port or without, is
  returned without the port.
\<close>

theorem extract_ip_forwarded:
  assumes "a \<noteq> []" and "set a \<inter> set '':[]'' = {}" and "set b \<inter> set '':[]'' = {}"
  shows "extract_ip (r\<lparr>req_header := (req_header r)(''X-Forwarded-For'' := [a @ '', '' @ b])\<rparr>) = a @ '', '' @ b \<and>
    extract_ip (r\<lparr>req_header := (req_header r)(''X-Forwarded-For'' := [a])\<rparr>) = a \<and>
    extract_ip (r\<lparr>req_header := (req_header r)(''X-Forwarded-For'' := [a @ '':'' @ b])\<rparr>) = a"
  using assms split_host_port_no_colon [of "a @ '', '' @ b"] split_host_port_no_colon [of a]
    split_host_port_plain [of a b]
  by (auto simp: extract_ip_def Let_def values_get_def)

theorem extract_ip_forwarded_witness:
  "extract_ip \<lparr>req_method = ''GET'', req_path = ''/api/v1/ltp'', req_url = ''/api/v1/ltp'', req_query = (\<lambda>_. []),
     req_header = (\<lambda>_. [])(''X-Forwarded-For'' := [''1.2.3.4, 5.6.7.8'']),
     remote_addr = ''10.0.0.1:5000''\<rparr> = ''1.2.3.4, 5.6.7.8''"
  using extract_ip_forwarded [of "''1.2.3.4''" "''5.6.7.8''"
      "\<lparr>req_method = ''GET'', req_path = ''/api/v1/ltp'', req_url = ''/api/v1/ltp'', req_query = (\<lambda>_. []),
        req_header = (\<lambda>_. []), remote_addr = ''10.0.0.1:5000''\<rparr>"]
  by simp

text \<open>
  A client that sends a new \<open>X-Forwarded-For\<close> address with each request is never
  held to the per-address limit: an address the limiter does not track is admitted,
  whatever the peer address of the connection.
\<close>

theorem forwarded_address_evades_limit:
  assumes "ip_metered d cfg rl t" and "1 \<le> per_ip_capacity cfg"
    and "values_get (req_header r) ''X-Forwarded-For'' = a" and "a \<noteq> []"
    and "CHR '':'' \<notin> set a" and "gm_get (ip_buckets rl) a = None"
  shows "ip_ok c (extract_ip r) rl"
proof -
  have "extract_ip r = a"
    using assms(3-5) split_host_port_no_colon [of a] by (simp add: extract_ip_def)
  moreover note b = bucket_of_fresh [OF assms(1,6)]
  ultimately show ?thesis
    using allow_full_bucket(1) [OF b(1), of "now_at (in_call c 1) 2"] b(2,3) assms(2)
    by (simp only: ip_ok_eq)
qed

theorem forwarded_address_evades_limit_witness:
  "ip_ok (\<lambda>_. 0) (extract_ip \<lparr>req_method = ''GET'', req_path = ''/api/v1/ltp'', req_url = ''/api/v1/ltp'', req_query = (\<lambda>_. []),
     req_header = (\<lambda>k. if k = ''X-Forwarded-For'' then [''1.2.3.4''] else []),
     remote_addr = ''10.0.0.1:5000''\<rparr>) sample_limiter"
  by (rule forwarded_address_evades_limit [where a = "''1.2.3.4''",
      OF new_rate_limiter_metered(1) [OF new_sample_limiter default_config_ok]])
    (simp_all add: values_get_def default_rl_config_def gm_get_def sample_limiter_def)

text \<open>
  The two panics of the package: a refill rate of zero, and a second \<open>Stop\<close>.
\<close>

lemma limiter_panics:
  "new_rate_limiter now (cfg\<lparr>global_refill_rate := 0\<rparr>) = Inl ''runtime error: integer divide by zero''"
  "limiter_stop rl = Inr rl' \<Longrightarrow> limiter_stop rl' = Inl ''close of closed channel''"
  by (auto simp: new_rate_limiter_def new_token_bucket_def limiter_stop_def split: if_splits)

end
