(* ===== verification/Pairs.thy ===== *)
theory Pairs
  imports Go_Strings
begin

text \<open>
  Package \<open>pairs\<close> (\<open>internal/pairs/pairs.go\<close>): the normal form of the currency pair
  a user writes, and its translation to and from Kraken's symbols.
\<close>

subsection \<open>The operations\<close>

definition normalize_user_pair :: "go_unicode \<Rightarrow> string \<Rightarrow> go_error + string" where
  "normalize_user_pair u p =
     (let p = trim_space u (to_upper u p) in
      if p = [] \<or> \<not> str_contains p ''/'' then
        Inl (ErrorString (''invalid pair: '' @ go_quote u p @ '' (expected BASE/QUOTE)''))
      else
        (let parts = split_on CHR ''/'' p in
         if length parts \<noteq> 2 \<or> parts ! 0 = [] \<or> parts ! 1 = [] then
           Inl (ErrorString (''invalid pair: '' @ go_quote u p))
         else Inr (parts ! 0 @ ''/'' @ parts ! 1)))"

definition to_kraken_symbol :: "go_unicode \<Rightarrow> string \<Rightarrow> go_error + string" where
  "to_kraken_symbol u user_pair =
     (case normalize_user_pair u user_pair of
        Inl e \<Rightarrow> Inl e
      | Inr n \<Rightarrow>
          (let parts = split_on CHR ''/'' n;
               base = parts ! 0;
               quote = parts ! 1;
               base' = (if base = ''BTC'' then (if quote = ''CHF'' then ''XBT'' else ''XXBT'')
                        else base);
               quote' = (if quote = ''USD'' then ''ZUSD''
                         else if quote = ''EUR'' then ''ZEUR''
                         else quote)
           in Inr (base' @ quote')))"

definition from_kraken_symbol :: "go_unicode \<Rightarrow> string \<Rightarrow> go_error + string" where
  "from_kraken_symbol u symb =
     (if length symb < 6 then Inl (ErrorString (''invalid kraken symbol: '' @ go_quote u symb))
      else
        (let split =
           (if has_prefix symb ''XXBT'' then Some (''BTC'', drop 4 symb)
            else if has_prefix symb ''XBT'' then Some (''BTC'', drop 3 symb)
            else None) in
         case split of
           None \<Rightarrow> Inl (ErrorString (''unsupported kraken symbol: '' @ go_quote u symb))
         | Some (base, quote) \<Rightarrow>
             if quote = ''ZUSD'' then Inr (base @ ''/'' @ ''USD'')
             else if quote = ''ZEUR'' then Inr (base @ ''/'' @ ''EUR'')
             else if quote = ''CHF'' then Inr (base @ ''/'' @ quote)
             else Inl (ErrorString (''unsupported quote currency in symbol: '' @ go_quote u symb))))"

subsection \<open>The shape of a normal form\<close>

text \<open>A well-formed pair: a base and a quote, neither empty, around the only slash.\<close>

definition well_formed_pair :: "string \<Rightarrow> bool" where
  "well_formed_pair p \<longleftrightarrow>
     (case split_on CHR ''/'' p of [a, b] \<Rightarrow> a \<noteq> [] \<and> b \<noteq> [] | _ \<Rightarrow> False)"

lemma well_formed_pair_iff:
  "well_formed_pair p \<longleftrightarrow>
     (\<exists>a b. p = a @ ''/'' @ b \<and> a \<noteq> [] \<and> b \<noteq> [] \<and> CHR ''/'' \<notin> set a \<and> CHR ''/'' \<notin> set b)"
proof -
  have "well_formed_pair p \<longleftrightarrow> (\<exists>a b. split_on CHR ''/'' p = [a, b] \<and> a \<noteq> [] \<and> b \<noteq> [])"
    by (simp add: well_formed_pair_def split: list.split)
  then show ?thesis by (auto simp: split_two_iff)
qed

lemma two_parts:
  "(case ps of [a, b] \<Rightarrow> a \<noteq> [] \<and> b \<noteq> [] | _ \<Rightarrow> False) \<longleftrightarrow>
     \<not> (length ps \<noteq> 2 \<or> ps ! 0 = [] \<or> ps ! 1 = [])"
  by (cases ps; cases "tl ps"; cases "tl (tl ps)") auto

lemma well_formed_pair_parts:
  "well_formed_pair q \<Longrightarrow> split_on CHR ''/'' q ! 0 @ ''/'' @ split_on CHR ''/'' q ! 1 = q"
  by (auto simp: well_formed_pair_iff split_on_append split_on_none)

lemma normalize_user_pair_eq:
  "normalize_user_pair u p =
     (let q = trim_space u (to_upper u p) in
      if well_formed_pair q then Inr q
      else if str_contains q ''/'' then Inl (ErrorString (''invalid pair: '' @ go_quote u q))
      else Inl (ErrorString (''invalid pair: '' @ go_quote u q @ '' (expected BASE/QUOTE)'')))"
proof -
  define q where "q = trim_space u (to_upper u p)"
  have bad: "(length (split_on CHR ''/'' q) \<noteq> 2 \<or> split_on CHR ''/'' q ! 0 = []
      \<or> split_on CHR ''/'' q ! 1 = []) \<longleftrightarrow> \<not> well_formed_pair q"
    by (simp only: well_formed_pair_def two_parts not_not)
  have slash: "well_formed_pair q \<Longrightarrow> q \<noteq> [] \<and> str_contains q ''/''"
    by (auto simp: well_formed_pair_iff)
  have nonempty: "str_contains q ''/'' \<Longrightarrow> q \<noteq> []" by (cases q) simp_all
  have "normalize_user_pair u p =
      (if q = [] \<or> \<not> str_contains q ''/'' then
         Inl (ErrorString (''invalid pair: '' @ go_quote u q @ '' (expected BASE/QUOTE)''))
       else if \<not> well_formed_pair q then Inl (ErrorString (''invalid pair: '' @ go_quote u q))
       else Inr (split_on CHR ''/'' q ! 0 @ ''/'' @ split_on CHR ''/'' q ! 1))"
    by (simp only: normalize_user_pair_def q_def [symmetric] Let_def bad)
  also have "\<dots> = (if well_formed_pair q then Inr q
       else if str_contains q ''/'' then Inl (ErrorString (''invalid pair: '' @ go_quote u q))
       else Inl (ErrorString (''invalid pair: '' @ go_quote u q @ '' (expected BASE/QUOTE)'')))"
    using slash nonempty well_formed_pair_parts [of q]
    by (cases "well_formed_pair q"; cases "str_contains q ''/''") (simp_all del: str_contains_char)
  finally show ?thesis by (simp only: q_def Let_def)
qed

lemma normalize_InrD:
  "normalize_user_pair u p = Inr n \<Longrightarrow> well_formed_pair n \<and> n = trim_space u (to_upper u p)"
  by (auto simp: normalize_user_pair_eq Let_def split: if_splits)

lemma normalize_Inl_text:
  "normalize_user_pair u p = Inl e \<Longrightarrow> \<exists>t. e = ErrorString (''invalid pair: '' @ t)"
  by (auto simp: normalize_user_pair_eq Let_def split: if_splits)

text \<open>On ASCII input the two passes commute with a second application.\<close>

lemma trim_space_ascii: "is_ascii s \<Longrightarrow>
    trim_space u s = trim_right_func is_space (trim_left_func is_space s)"
  by (simp add: trim_space_def)

lemma is_ascii_trim: "is_ascii s \<Longrightarrow> is_ascii (trim_space u s)"
  using set_trim [of is_space s] by (auto simp: trim_space_ascii intro: is_ascii_subset)

lemma is_ascii_to_upper: "is_ascii s \<Longrightarrow> is_ascii (to_upper u s)"
  by (simp add: to_upper_def)

lemma to_upper_fixed: "is_ascii s \<Longrightarrow> \<forall>c\<in>set s. upper_byte c = c \<Longrightarrow> to_upper u s = s"
  by (simp add: to_upper_def map_idI)

lemma normal_form_fixed:
  fixes u :: go_unicode
  assumes "is_ascii p"
  defines "q \<equiv> trim_space u (to_upper u p)"
  shows "to_upper u q = q" and "trim_space u q = q" and "is_ascii q"
proof -
  have up: "is_ascii (to_upper u p)" using assms by (simp add: is_ascii_to_upper)
  then show q: "is_ascii q" unfolding q_def by (rule is_ascii_trim)
  have "set q \<subseteq> set (to_upper u p)"
    using up set_trim [of is_space] by (simp add: q_def trim_space_ascii)
  moreover have "\<forall>c\<in>set (to_upper u p). upper_byte c = c"
    using assms by (auto simp: to_upper_def)
  ultimately show "to_upper u q = q" using q by (intro to_upper_fixed) auto
  show "trim_space u q = q"
    using up q by (simp add: q_def trim_space_ascii trim_idem)
qed

lemma normalize_of_normal_form:
  assumes "is_ascii p" and "normalize_user_pair u p = Inr n"
  shows "normalize_user_pair u n = Inr n" and "is_ascii n"
proof -
  have n: "n = trim_space u (to_upper u p)" and wf: "well_formed_pair n"
    using normalize_InrD [OF assms(2)] by auto
  show "is_ascii n" unfolding n by (rule normal_form_fixed(3) [OF assms(1)])
  have "trim_space u (to_upper u n) = n"
    using normal_form_fixed(1,2) [OF assms(1), of u] by (simp add: n)
  then show "normalize_user_pair u n = Inr n"
    using wf by (simp add: normalize_user_pair_eq)
qed

text \<open>Spaces around the pair and the case of its letters do not matter.\<close>

lemma dropWhile_all_append: "\<forall>c\<in>set xs. P c \<Longrightarrow> dropWhile P (xs @ ys) = dropWhile P ys"
  by (induction xs) auto

lemma trim_padding:
  assumes "\<forall>c\<in>set a. P c" and "\<forall>c\<in>set b. P c"
  shows "trim_right_func P (trim_left_func P (a @ s @ b)) = trim_right_func P (trim_left_func P s)"
proof (cases "\<forall>c\<in>set s. P c")
  case True
  then have "dropWhile P (a @ s @ b) = []" and "dropWhile P s = []" using assms by auto
  then show ?thesis by (simp only: trim_left_func_def)
next
  case False
  then have "dropWhile P (a @ s @ b) = dropWhile P s @ b"
    using assms by (simp add: dropWhile_all_append)
      (metis dropWhile_append1)
  then show ?thesis
    using assms by (simp add: trim_left_func_def trim_right_func_def dropWhile_all_append)
qed

lemma upper_byte_space: "is_space (upper_byte c) \<longleftrightarrow> is_space c"
  by (auto simp: upper_byte_def is_space_def byte_def)

lemma normalize_padding:
  assumes "is_ascii p" and "\<forall>c\<in>set a. is_space c" and "\<forall>c\<in>set b. is_space c"
  shows "normalize_user_pair u (a @ p @ b) = normalize_user_pair u p"
proof -
  have "is_ascii a" and "is_ascii b" using assms(2,3) by (auto simp: is_ascii_def is_space_def)
  then have "trim_space u (to_upper u (a @ p @ b)) = trim_space u (to_upper u p)"
    using assms trim_padding [of "map upper_byte a" is_space "map upper_byte b" "map upper_byte p"]
    by (simp add: trim_space_ascii to_upper_def upper_byte_space)
  then show ?thesis by (simp add: normalize_user_pair_eq)
qed

lemma normalize_case:
  "is_ascii p \<Longrightarrow> normalize_user_pair u (map upper_byte p) = normalize_user_pair u p"
  by (simp add: normalize_user_pair_eq to_upper_def comp_def)

subsection \<open>Kraken symbols\<close>

definition kraken_base :: "string \<Rightarrow> string \<Rightarrow> string" where
  "kraken_base base quote =
     (if base = ''BTC'' then (if quote = ''CHF'' then ''XBT'' else ''XXBT'') else base)"

definition kraken_quote :: "string \<Rightarrow> string" where
  "kraken_quote quote = (if quote = ''USD'' then ''ZUSD'' else if quote = ''EUR'' then ''ZEUR'' else quote)"

lemma to_kraken_symbol_split:
  "normalize_user_pair u p = Inr (a @ ''/'' @ b) \<Longrightarrow> CHR ''/'' \<notin> set a \<Longrightarrow> CHR ''/'' \<notin> set b \<Longrightarrow>
     to_kraken_symbol u p = Inr (kraken_base a b @ kraken_quote b)"
  by (simp add: to_kraken_symbol_def kraken_base_def kraken_quote_def Let_def string_simps)

lemma to_kraken_symbol_InrD:
  assumes "to_kraken_symbol u p = Inr s"
  obtains a b where "normalize_user_pair u p = Inr (a @ ''/'' @ b)" and "a \<noteq> []" and "b \<noteq> []"
    and "CHR ''/'' \<notin> set a" and "CHR ''/'' \<notin> set b" and "s = kraken_base a b @ kraken_quote b"
proof -
  obtain n where n: "normalize_user_pair u p = Inr n"
    using assms by (cases "normalize_user_pair u p") (auto simp: to_kraken_symbol_def)
  then obtain a b where "n = a @ ''/'' @ b" "a \<noteq> []" "b \<noteq> []" "CHR ''/'' \<notin> set a" "CHR ''/'' \<notin> set b"
    using normalize_InrD [OF n] by (auto simp: well_formed_pair_iff)
  moreover from this n have "to_kraken_symbol u p = Inr (kraken_base a b @ kraken_quote b)"
    by (simp add: to_kraken_symbol_split)
  ultimately show thesis using assms n by (intro that [of a b]) simp_all
qed

lemma to_kraken_symbol_Inl: "to_kraken_symbol u p = Inl e \<longleftrightarrow> normalize_user_pair u p = Inl e"
  by (cases "normalize_user_pair u p") (auto simp: to_kraken_symbol_def Let_def)

lemma to_kraken_of_normal:
  assumes "is_ascii p" and "normalize_user_pair u p = Inr n"
  shows "to_kraken_symbol u n = to_kraken_symbol u p"
  using assms normalize_of_normal_form [OF assms] by (simp add: to_kraken_symbol_def)

lemma kraken_symbol_no_slash: "to_kraken_symbol u p = Inr s \<Longrightarrow> CHR ''/'' \<notin> set s"
  by (erule to_kraken_symbol_InrD) (auto simp: kraken_base_def kraken_quote_def)

lemma upper_byte_slash: "upper_byte c = CHR ''/'' \<longleftrightarrow> c = CHR ''/''"
proof -
  have "byte (upper_byte c) = 47 \<longleftrightarrow> byte c = 47" by (auto simp: upper_byte_def byte_def)
  moreover have "byte d = 47 \<longleftrightarrow> d = CHR ''/''" for d
    using byte_inject [of d "CHR ''/''"] by (simp add: byte_def)
  ultimately show ?thesis by simp
qed

text \<open>Upper-casing and trimming put no slash into a text that has none.\<close>

definition keeps_slashes :: "go_unicode \<Rightarrow> bool" where
  "keeps_slashes u \<longleftrightarrow> (\<forall>s. CHR ''/'' \<notin> set s \<longrightarrow> CHR ''/'' \<notin> set (uni_upper u s) \<and> CHR ''/'' \<notin> set (uni_trim u s))"

lemma normalize_keeps_slashes:
  assumes "keeps_slashes u" and "CHR ''/'' \<notin> set s"
  shows "\<exists>e. normalize_user_pair u s = Inl e"
proof -
  have "\<forall>c\<in>set s. CHR ''/'' \<noteq> upper_byte c" using assms(2) upper_byte_slash by metis
  then have "CHR ''/'' \<notin> set (map upper_byte s)" by auto
  then have up: "CHR ''/'' \<notin> set (to_upper u s)" using assms by (simp add: to_upper_def keeps_slashes_def)
  then have "CHR ''/'' \<notin> set (trim_space u (to_upper u s))"
    using assms(1) set_trim [of is_space "to_upper u s"] by (auto simp: trim_space_def keeps_slashes_def)
  then show ?thesis by (auto simp: normalize_user_pair_eq Let_def well_formed_pair_iff)
qed

subsection \<open>Properties\<close>

text \<open>
  C30: \<open>NormalizeUserPair\<close> is a normal form: on ASCII input it ignores surrounding space
  and letter case, accepts exactly the texts whose trimmed upper-case form is a base and a
  quote around one slash, returns that form, and leaves a normal form as it is.
\<close>

theorem normalize_user_pair_normal_form:
  assumes "is_ascii p" and "\<forall>c\<in>set a. is_space c" and "\<forall>c\<in>set b. is_space c"
  shows "normalize_user_pair u (a @ map upper_byte p @ b) = normalize_user_pair u p \<and>
    (normalize_user_pair u p = Inr n \<longleftrightarrow> n = trim_space u (to_upper u p) \<and> well_formed_pair n) \<and>
    (normalize_user_pair u p = Inr n \<longrightarrow> normalize_user_pair u n = Inr n)"
proof (intro conjI impI)
  have "is_ascii (map upper_byte p)" using assms(1) by simp
  then have "normalize_user_pair u (a @ map upper_byte p @ b) = normalize_user_pair u (map upper_byte p)"
    using assms(2,3) by (rule normalize_padding)
  then show "normalize_user_pair u (a @ map upper_byte p @ b) = normalize_user_pair u p"
    by (simp only: normalize_case [OF assms(1)])
  show "normalize_user_pair u p = Inr n \<longleftrightarrow> n = trim_space u (to_upper u p) \<and> well_formed_pair n"
    by (auto simp: normalize_user_pair_eq Let_def split: if_splits)
  show "normalize_user_pair u n = Inr n" if "normalize_user_pair u p = Inr n"
    using assms(1) that by (rule normalize_of_normal_form(1))
qed

definition no_unicode :: go_unicode where
  "no_unicode = \<lparr>uni_upper = map upper_byte, uni_trim = (\<lambda>s. s), uni_quote = (\<lambda>s. s)\<rparr>"

lemma normalize_btc_usd: "normalize_user_pair u ''BTC/USD'' = Inr ''BTC/USD''"
proof -
  have "trim_space u (to_upper u ''BTC/USD'') = ''BTC/USD''"
    by (simp add: trim_space_def to_upper_def is_ascii_def upper_byte_def byte_def is_space_def
        trim_left_func_def trim_right_func_def)
  moreover have "well_formed_pair ''BTC/USD''" by (simp add: well_formed_pair_def)
  ultimately show ?thesis by (simp add: normalize_user_pair_eq)
qed

theorem normalize_user_pair_normal_form_witness:
  "normalize_user_pair no_unicode ('' '' @ map upper_byte ''BTC/USD'' @ '' '') = Inr ''BTC/USD''"
proof -
  have "is_ascii ''BTC/USD''" by (simp add: is_ascii_def byte_def)
  then show ?thesis
    using normalize_user_pair_normal_form [THEN conjunct1, of "''BTC/USD''" "'' ''" "'' ''" no_unicode]
    by (simp only: normalize_btc_usd) (simp add: is_space_def byte_def)
qed

text \<open>
  The six symbols \<open>FromKrakenSymbol\<close> understands, with what it makes of them.
\<close>

definition kraken_table :: "(string \<times> string) list" where
  "kraken_table =
     [(''XXBTZUSD'', ''BTC/USD''), (''XXBTZEUR'', ''BTC/EUR''), (''XXBTCHF'', ''BTC/CHF''),
      (''XBTZUSD'', ''BTC/USD''), (''XBTZEUR'', ''BTC/EUR''), (''XBTCHF'', ''BTC/CHF'')]"

lemma has_prefix_append: "has_prefix s p \<longleftrightarrow> (\<exists>r. s = p @ r)"
  by (metis append_eq_conv_conj append_take_drop_id has_prefix_def)

definition user_quote :: "string \<Rightarrow> string option" where
  "user_quote q =
     (if q = ''ZUSD'' then Some ''USD'' else if q = ''ZEUR'' then Some ''EUR''
      else if q = ''CHF'' then Some ''CHF'' else None)"

lemma from_kraken_split:
  "from_kraken_symbol u s = Inr r \<longleftrightarrow>
     (\<exists>x\<in>{''XXBT'', ''XBT''}. \<exists>q c. s = x @ q \<and> user_quote q = Some c \<and> r = ''BTC/'' @ c)"
proof -
  let ?b = "if has_prefix s ''XXBT'' then Some (drop 4 s)
    else if has_prefix s ''XBT'' then Some (drop 3 s) else None"
  have quote_len: "user_quote q = Some c \<Longrightarrow> 3 \<le> length q" for q c
    by (auto simp: user_quote_def split: if_splits)
  have "from_kraken_symbol u s = Inr r \<longleftrightarrow>
      6 \<le> length s \<and> (\<exists>q c. ?b = Some q \<and> user_quote q = Some c \<and> r = ''BTC/'' @ c)"
    by (auto simp: from_kraken_symbol_def user_quote_def Let_def)
  also have "\<dots> \<longleftrightarrow> (\<exists>q c. ?b = Some q \<and> user_quote q = Some c \<and> r = ''BTC/'' @ c)"
    using quote_len by (fastforce split: if_splits)
  also have "\<dots> \<longleftrightarrow> (\<exists>x\<in>{''XXBT'', ''XBT''}. \<exists>q c. s = x @ q \<and> user_quote q = Some c \<and> r = ''BTC/'' @ c)"
    by (auto simp: has_prefix_append)
  finally show ?thesis .
qed

text \<open>
  \<open>FromKrakenSymbol\<close> succeeds on exactly six symbols, with the results of the table.
\<close>

theorem from_kraken_symbol_table:
  "from_kraken_symbol u s = Inr r \<longleftrightarrow> (s, r) \<in> set kraken_table"
proof -
  have "user_quote q = Some c \<longleftrightarrow> (q, c) \<in> {(''ZUSD'', ''USD''), (''ZEUR'', ''EUR''), (''CHF'', ''CHF'')}" for q c
    by (auto simp: user_quote_def)
  then have "from_kraken_symbol u s = Inr r \<longleftrightarrow> (\<exists>x\<in>{''XXBT'', ''XBT''}.
      \<exists>(q, c)\<in>{(''ZUSD'', ''USD''), (''ZEUR'', ''EUR''), (''CHF'', ''CHF'')}. s = x @ q \<and> r = ''BTC/'' @ c)"
    by (auto simp: from_kraken_split)
  then show ?thesis by (simp add: kraken_table_def)
qed

text \<open>
  C31: For the three supported pairs the two translations are inverse: the symbol of any
  spelling of the pair reads back as its normal form.
\<close>

theorem kraken_symbol_roundtrip:
  assumes "normalize_user_pair u p = Inr n" and "n \<in> {''BTC/USD'', ''BTC/EUR'', ''BTC/CHF''}"
  shows "\<exists>s. to_kraken_symbol u p = Inr s \<and> from_kraken_symbol u s = Inr n"
proof -
  from assms(2) obtain q where q: "n = ''BTC'' @ ''/'' @ q" "q \<in> {''USD'', ''EUR'', ''CHF''}" by auto
  then have "to_kraken_symbol u p = Inr (kraken_base ''BTC'' q @ kraken_quote q)"
    using assms(1) by (intro to_kraken_symbol_split) auto
  moreover have "from_kraken_symbol u (kraken_base ''BTC'' q @ kraken_quote q) = Inr n"
    using q by (auto simp: from_kraken_symbol_def has_prefix_def kraken_base_def kraken_quote_def)
  ultimately show ?thesis by blast
qed

theorem kraken_symbol_roundtrip_witness:
  "\<exists>s. to_kraken_symbol no_unicode ''BTC/USD'' = Inr s \<and> from_kraken_symbol no_unicode s = Inr ''BTC/USD''"
  by (rule kraken_symbol_roundtrip [OF normalize_btc_usd [of no_unicode]]) auto

lemma normalize_plain:
  assumes "is_ascii p" and "\<forall>c\<in>set p. upper_byte c = c \<and> \<not> is_space c" and "well_formed_pair p"
  shows "normalize_user_pair u p = Inr p"
proof -
  have "trim_space u (to_upper u p) = p"
    using assms(1,2) by (simp add: to_upper_fixed trim_space_ascii trim_no_space)
  then show ?thesis using assms(3) by (simp add: normalize_user_pair_eq)
qed

text \<open>
  Different pairs can share a symbol: base and quote are joined without a separator,
  so \<open>XXB/TZUSD\<close> has the Kraken symbol, hence the cache key, of \<open>BTC/USD\<close>.
\<close>

theorem kraken_symbol_collision:
  "to_kraken_symbol u ''XXB/TZUSD'' = to_kraken_symbol u ''BTC/USD''
   \<and> normalize_user_pair u ''XXB/TZUSD'' \<noteq> normalize_user_pair u ''BTC/USD''"
proof -
  have n: "normalize_user_pair u ''XXB/TZUSD'' = Inr (''XXB'' @ ''/'' @ ''TZUSD'')"
    by (simp add: normalize_plain is_ascii_def upper_byte_def byte_def is_space_def well_formed_pair_def)
  have m: "normalize_user_pair u ''BTC/USD'' = Inr (''BTC'' @ ''/'' @ ''USD'')"
    by (simp add: normalize_btc_usd)
  have "to_kraken_symbol u ''XXB/TZUSD'' = Inr ''XXBTZUSD''"
    using to_kraken_symbol_split [OF n] by (simp add: kraken_base_def kraken_quote_def)
  moreover have "to_kraken_symbol u ''BTC/USD'' = Inr ''XXBTZUSD''"
    using to_kraken_symbol_split [OF m] by (simp add: kraken_base_def kraken_quote_def)
  ultimately show ?thesis by (simp add: n m)
qed

subsection \<open>Symbols are upper case\<close>

definition lower_byte_char :: "char \<Rightarrow> bool" where
  "lower_byte_char c \<longleftrightarrow> 97 \<le> byte c \<and> byte c \<le> 122"

text \<open>What the documentation says of \<open>strings.ToUpper\<close> and \<open>strings.TrimSpace\<close>, beyond ASCII.\<close>

definition upper_law :: "go_unicode \<Rightarrow> bool" where
  "upper_law u \<longleftrightarrow> (\<forall>s. \<forall>c\<in>set (uni_upper u s). \<not> lower_byte_char c) \<and> (\<forall>s. set (uni_trim u s) \<subseteq> set s)"

lemma upper_byte_not_lower: "\<not> lower_byte_char (upper_byte c)"
  by (auto simp: upper_byte_def lower_byte_char_def byte_def)

lemma normalized_upper:
  assumes "upper_law u" and "normalize_user_pair u p = Inr n"
  shows "\<forall>c\<in>set n. \<not> lower_byte_char c"
proof -
  have up: "\<forall>c\<in>set (to_upper u p). \<not> lower_byte_char c"
    using assms(1) upper_byte_not_lower by (auto simp: to_upper_def upper_law_def)
  have "set (trim_space u s) \<subseteq> set s" for s
    using assms(1) set_trim [of is_space s] by (auto simp: trim_space_def upper_law_def)
  then show ?thesis using normalize_InrD [OF assms(2)] up by blast
qed

lemma symbol_upper:
  assumes "upper_law u" and "to_kraken_symbol u p = Inr s"
  shows "\<forall>c\<in>set s. \<not> lower_byte_char c"
  using assms(2)
proof (rule to_kraken_symbol_InrD)
  fix a b
  assume n: "normalize_user_pair u p = Inr (a @ ''/'' @ b)" and s: "s = kraken_base a b @ kraken_quote b"
  from normalized_upper [OF assms(1) n] show ?thesis
    by (auto simp: s kraken_base_def kraken_quote_def lower_byte_char_def byte_def split: if_splits)
qed

lemma symbol_not_probe:
  assumes "upper_law u" and "to_kraken_symbol u p = Inr s"
  shows "s \<noteq> ''health_check''"
  using symbol_upper [OF assms] by (auto simp: lower_byte_char_def byte_def)

end
