(* ===== verification/Cache_Types.thy ===== *)
theory Cache_Types
  imports Float64
begin

text \<open>
  \<open>internal/cache/interface.go\<close>: cache entries, the configuration, and the \<open>Cache\<close>
  interface.  A value of type \<open>interface{}\<close> is one of the dynamic types the program can
  put into a cache or read back from JSON.
\<close>

datatype go_any = AnyNil | AnyFloat f64 | AnyString string | AnyBool bool | AnyOther string

record cache_entry =
  entry_value :: go_any
  expires_at :: instant
  created_at :: instant

definition is_expired :: "instant \<Rightarrow> cache_entry \<Rightarrow> bool" where
  "is_expired now e \<longleftrightarrow> now > expires_at e"

definition entry_ttl :: "instant \<Rightarrow> cache_entry \<Rightarrow> duration" where
  "entry_ttl now e = time_sub (expires_at e) now"

record cache_config =
  redis_url :: string
  redis_password :: string
  redis_db :: int
  default_ttl :: duration
  max_ttl :: duration
  max_size :: int
  eviction_policy :: string
  refresh_interval :: duration
  refresh_workers :: int
  enable_fallback :: bool
  fallback_ttl :: duration

definition default_cache_config :: cache_config where
  "default_cache_config =
     \<lparr>redis_url = ''redis://localhost:6379'', redis_password = [], redis_db = 0,
      default_ttl = 60 * second, max_ttl = 24 * hour, max_size = 10000, eviction_policy = ''lru'',
      refresh_interval = 30 * second, refresh_workers = 5, enable_fallback = True,
      fallback_ttl = 5 * minute\<rparr>"

text \<open>
  The interface: a method takes the clock of its execution and the cache's state, and
  gives its results and the new state.  An error is the left summand.  \<open>Get\<close>'s value and
  \<open>found\<close> flag are one option.  The argument of \<open>SetMultiple\<close> lists the items in the
  order in which the method ranges over the map.
\<close>

record 's cache_ops =
  op_get :: "clock \<Rightarrow> string \<Rightarrow> 's \<Rightarrow> (go_error + go_any option) \<times> 's"
  op_set :: "clock \<Rightarrow> string \<Rightarrow> go_any \<Rightarrow> duration \<Rightarrow> 's \<Rightarrow> go_error option \<times> 's"
  op_delete :: "clock \<Rightarrow> string \<Rightarrow> 's \<Rightarrow> go_error option \<times> 's"
  op_clear :: "clock \<Rightarrow> 's \<Rightarrow> go_error option \<times> 's"
  op_get_multiple :: "clock \<Rightarrow> string list \<Rightarrow> 's \<Rightarrow> (go_error + (string, go_any) gomap) \<times> 's"
  op_set_multiple :: "clock \<Rightarrow> (string, go_any) gomap \<Rightarrow> duration \<Rightarrow> 's \<Rightarrow> go_error option \<times> 's"
  op_get_with_metadata :: "clock \<Rightarrow> string \<Rightarrow> 's \<Rightarrow> (go_error + cache_entry option) \<times> 's"
  op_set_with_metadata :: "clock \<Rightarrow> string \<Rightarrow> cache_entry \<Rightarrow> 's \<Rightarrow> go_error option \<times> 's"
  op_expire :: "clock \<Rightarrow> string \<Rightarrow> duration \<Rightarrow> 's \<Rightarrow> go_error option \<times> 's"
  op_ttl :: "clock \<Rightarrow> string \<Rightarrow> 's \<Rightarrow> (go_error + duration) \<times> 's"
  op_evict_expired :: "clock \<Rightarrow> 's \<Rightarrow> (int \<times> go_error option) \<times> 's"
  op_size :: "clock \<Rightarrow> 's \<Rightarrow> (go_error + int) \<times> 's"
  op_ping :: "clock \<Rightarrow> 's \<Rightarrow> go_error option \<times> 's"
  op_close :: "clock \<Rightarrow> 's \<Rightarrow> go_error option \<times> 's"

end
