(* ===== verification/Value_Store.thy ===== *)
theory Value_Store
  imports Cache_Types
begin

text \<open>
  The contract of the \<open>Cache\<close> interface its clients rest on.  A cache may forget a key
  at any time, but it serves only values that were stored under the key, and none longer
  than its lifetime after it was stored.  \<open>serves s k\<close> holds the values the state can
  still give out for \<open>k\<close>, each with the last instant at which it can; \<open>life ttl\<close>
  bounds the lifetime of a value stored with \<open>ttl\<close>, counted from the start of the
  \<open>Set\<close>.  \<open>slack\<close> bounds the duration of one call.
\<close>

definition clock_within :: "duration \<Rightarrow> clock \<Rightarrow> bool" where
  "clock_within d c \<longleftrightarrow> mono_clock c \<and> (\<forall>p. c p \<le> c [] + d)"

lemma clock_within_mono: "clock_within d c \<Longrightarrow> c [] \<le> c p"
  by (simp add: clock_within_def mono_clockD)

lemma clock_within_le: "clock_within d c \<Longrightarrow> c p \<le> c [] + d"
  by (simp add: clock_within_def)

lemma clock_within_nonneg: "clock_within d c \<Longrightarrow> 0 \<le> d"
  using clock_within_le [of d c "[]"] by simp

lemma clock_within_const [simp]: "clock_within d (\<lambda>_. t) \<longleftrightarrow> 0 \<le> d"
  by (simp add: clock_within_def)

lemma clock_within_call: "clock_within d c \<Longrightarrow> clock_within d (in_call c i)"
  unfolding clock_within_def in_call_def
  by (auto simp: mono_clock_def dest: spec [of _ "[]"]) (meson add_right_mono list.distinct(1) order_trans Nil_le_Cons)

datatype store_op =
    SGet clock string
  | SSet clock string go_any duration
  | SDelete clock string
  | SClear clock
  | SEvict clock

fun store_clock :: "store_op \<Rightarrow> clock" where
  "store_clock (SGet c k) = c"
| "store_clock (SSet c k v ttl) = c"
| "store_clock (SDelete c k) = c"
| "store_clock (SClear c) = c"
| "store_clock (SEvict c) = c"

fun store_step :: "'s cache_ops \<Rightarrow> store_op \<Rightarrow> 's \<Rightarrow> 's" where
  "store_step ops (SGet c k) s = snd (op_get ops c k s)"
| "store_step ops (SSet c k v ttl) s = snd (op_set ops c k v ttl s)"
| "store_step ops (SDelete c k) s = snd (op_delete ops c k s)"
| "store_step ops (SClear c) s = snd (op_clear ops c s)"
| "store_step ops (SEvict c) s = snd (op_evict_expired ops c s)"

fun store_run :: "'s cache_ops \<Rightarrow> store_op list \<Rightarrow> 's \<Rightarrow> 's" where
  "store_run ops [] s = s"
| "store_run ops (x # xs) s = store_run ops xs (store_step ops x s)"

text \<open>What \<open>b\<close> serves, \<open>a\<close> serves too, as long.\<close>

type_synonym served = "string \<Rightarrow> (go_any \<times> instant) set"

definition serves_less :: "served \<Rightarrow> served \<Rightarrow> bool" where
  "serves_less b a \<longleftrightarrow> (\<forall>k. \<forall>(v, d) \<in> b k. \<exists>d'. (v, d') \<in> a k \<and> d \<le> d')"

lemma serves_less_refl [simp, intro]: "serves_less a a"
  by (auto simp: serves_less_def)

lemma serves_lessD: "serves_less b a \<Longrightarrow> (v, d) \<in> b k \<Longrightarrow> \<exists>d'. (v, d') \<in> a k \<and> d \<le> d'"
  by (auto simp: serves_less_def)

lemma serves_less_trans: "serves_less c b \<Longrightarrow> serves_less b a \<Longrightarrow> serves_less c a"
  unfolding serves_less_def by (fastforce intro: order_trans)

lemma serves_less_subset: "(\<And>k. b k \<subseteq> a k) \<Longrightarrow> serves_less b a"
  by (auto simp: serves_less_def)

definition serve_also :: "string \<Rightarrow> go_any \<Rightarrow> instant \<Rightarrow> served \<Rightarrow> served" where
  "serve_also k v d a = a(k := insert (v, d) (a k))"

locale value_store =
  fixes ops :: "'s cache_ops"
    and ok :: "'s \<Rightarrow> bool"
    and serves :: "'s \<Rightarrow> served"
    and life :: "duration \<Rightarrow> duration"
    and slack :: duration
  assumes get_ok: "ok s \<Longrightarrow> clock_within slack c \<Longrightarrow> ok (snd (op_get ops c k s))"
    and get_serves: "ok s \<Longrightarrow> clock_within slack c \<Longrightarrow> fst (op_get ops c k s) = Inr (Some v) \<Longrightarrow>
      \<exists>d. (v, d) \<in> serves s k \<and> c [] \<le> d"
    and get_keeps: "ok s \<Longrightarrow> clock_within slack c \<Longrightarrow> serves_less (serves (snd (op_get ops c k s))) (serves s)"
    and set_ok: "ok s \<Longrightarrow> clock_within slack c \<Longrightarrow> ok (snd (op_set ops c k v ttl s))"
    and set_serves: "ok s \<Longrightarrow> clock_within slack c \<Longrightarrow>
      serves_less (serves (snd (op_set ops c k v ttl s))) (serve_also k v (c [] + life ttl) (serves s))"
    and delete_ok: "ok s \<Longrightarrow> clock_within slack c \<Longrightarrow> ok (snd (op_delete ops c k s))"
    and delete_keeps: "ok s \<Longrightarrow> clock_within slack c \<Longrightarrow> serves_less (serves (snd (op_delete ops c k s))) (serves s)"
    and clear_ok: "ok s \<Longrightarrow> clock_within slack c \<Longrightarrow> ok (snd (op_clear ops c s))"
    and clear_keeps: "ok s \<Longrightarrow> clock_within slack c \<Longrightarrow> serves_less (serves (snd (op_clear ops c s))) (serves s)"
    and evict_ok: "ok s \<Longrightarrow> clock_within slack c \<Longrightarrow> ok (snd (op_evict_expired ops c s))"
    and evict_keeps: "ok s \<Longrightarrow> clock_within slack c \<Longrightarrow>
      serves_less (serves (snd (op_evict_expired ops c s))) (serves s)"
begin

lemma step_ok: "ok s \<Longrightarrow> clock_within slack (store_clock x) \<Longrightarrow> ok (store_step ops x s)"
  by (cases x) (auto intro: get_ok set_ok delete_ok clear_ok evict_ok)

text \<open>A state in which every served value was stored by an operation of \<open>xs\<close>.\<close>

definition accounted :: "store_op list \<Rightarrow> 's \<Rightarrow> bool" where
  "accounted xs s \<longleftrightarrow> (\<forall>k v d. (v, d) \<in> serves s k \<longrightarrow>
     (\<exists>c ttl. SSet c k v ttl \<in> set xs \<and> d \<le> c [] + life ttl))"

lemma accounted_less:
  assumes "accounted xs s" and "serves_less (serves s') (serves s)"
  shows "accounted (xs @ ys) s'"
  unfolding accounted_def
proof (intro allI impI)
  fix k v d
  assume "(v, d) \<in> serves s' k"
  then obtain d' where "(v, d') \<in> serves s k" "d \<le> d'" using serves_lessD [OF assms(2)] by blast
  then show "\<exists>c ttl. SSet c k v ttl \<in> set (xs @ ys) \<and> d \<le> c [] + life ttl"
    using assms(1) unfolding accounted_def by fastforce
qed

lemma accounted_step:
  assumes "ok s" and "clock_within slack (store_clock x)" and "accounted xs s"
  shows "accounted (xs @ [x]) (store_step ops x s)"
proof (cases x)
  case (SSet c k v ttl)
  have less: "serves_less (serves (store_step ops x s)) (serve_also k v (c [] + life ttl) (serves s))"
    using set_serves [OF assms(1), of c k v ttl] assms(2) by (simp add: SSet)
  show ?thesis
    unfolding accounted_def
  proof (intro allI impI)
    fix k' v' d
    assume "(v', d) \<in> serves (store_step ops x s) k'"
    then obtain d' where d': "(v', d') \<in> serve_also k v (c [] + life ttl) (serves s) k'" "d \<le> d'"
      using serves_lessD [OF less] by blast
    then consider "k' = k" "v' = v" "d' = c [] + life ttl" | "(v', d') \<in> serves s k'"
      by (auto simp: serve_also_def split: if_splits)
    then show "\<exists>c ttl. SSet c k' v' ttl \<in> set (xs @ [x]) \<and> d \<le> c [] + life ttl"
    proof cases
      case 1
      then show ?thesis using d'(2) SSet by auto
    next
      case 2
      then show ?thesis using assms(3) d'(2) unfolding accounted_def by fastforce
    qed
  qed
qed (use assms accounted_less get_keeps delete_keeps clear_keeps evict_keeps in auto)

lemma accounted_run:
  assumes "ok s" and "\<forall>x\<in>set ys. clock_within slack (store_clock x)" and "accounted xs s"
  shows "accounted (xs @ ys) (store_run ops ys s) \<and> ok (store_run ops ys s)"
  using assms
proof (induction ys arbitrary: xs s)
  case Nil
  then show ?case by simp
next
  case (Cons y ys)
  then have "accounted ((xs @ [y]) @ ys) (store_run ops ys (store_step ops y s)) \<and>
      ok (store_run ops ys (store_step ops y s))"
    by (intro Cons.IH step_ok accounted_step) auto
  then show ?case by simp
qed

lemma accounted_hit:
  assumes "ok s" and "accounted H s" and "\<forall>x\<in>set xs. clock_within slack (store_clock x)" and "clock_within slack c"
    and "fst (op_get ops c k (store_run ops xs s)) = Inr (Some v)"
  shows "\<exists>c' ttl. SSet c' k v ttl \<in> set (H @ xs) \<and> c [] \<le> c' [] + life ttl"
proof -
  note run = accounted_run [OF assms(1,3,2)]
  obtain d where "(v, d) \<in> serves (store_run ops xs s) k" "c [] \<le> d"
    using get_serves [OF conjunct2 [OF run] assms(4,5)] by blast
  then show ?thesis using run unfolding accounted_def by (meson order_trans)
qed

text \<open>A hit gives a value that some earlier \<open>Set\<close> stored, not longer ago than its lifetime.\<close>

lemma hit_is_fresh:
  assumes "ok s" and "\<And>k. serves s k = {}"
    and "\<forall>x\<in>set xs. clock_within slack (store_clock x)" and "clock_within slack c"
    and "fst (op_get ops c k (store_run ops xs s)) = Inr (Some v)"
  shows "\<exists>c' ttl. SSet c' k v ttl \<in> set xs \<and> c [] \<le> c' [] + life ttl"
proof -
  have "accounted [] s" using assms(2) by (simp add: accounted_def)
  from accounted_hit [OF assms(1) this assms(3-5)] show ?thesis by simp
qed

end

end
