(* ===== verification/Ltp_Service.thy ===== *)
theory Ltp_Service
  imports Pairs Value_Store
begin

text \<open>
  \<open>internal/cache/legacy.go\<close> and \<open>internal/ltp/service.go\<close>: the price cache the service
  uses, a wrapper of any \<open>Cache\<close>, and \<open>GetLTP\<close>.  The service sees two interfaces:
  \<open>price_cache\<close> (\<open>ltp.Cache\<close>) on a state \<open>'s\<close>, and the Kraken API on a state \<open>'k\<close>.
\<close>

declare One_nat_def [simp del]

subsection \<open>The legacy cache\<close>

record 's price_cache =
  pc_get :: "clock \<Rightarrow> string \<Rightarrow> 's \<Rightarrow> f64 option \<times> 's"
  pc_set :: "clock \<Rightarrow> string \<Rightarrow> f64 \<Rightarrow> 's \<Rightarrow> 's"

definition legacy_get :: "'s cache_ops \<Rightarrow> clock \<Rightarrow> string \<Rightarrow> 's \<Rightarrow> f64 option \<times> 's" where
  "legacy_get ops c key s =
     (let (r, s) = op_get ops (in_call c 0) key s in
      (case r of
         Inr (Some (AnyFloat price)) \<Rightarrow> Some price
       | _ \<Rightarrow> None, s))"

definition legacy_set :: "'s cache_ops \<Rightarrow> clock \<Rightarrow> string \<Rightarrow> f64 \<Rightarrow> 's \<Rightarrow> 's" where
  "legacy_set ops c key v s = snd (op_set ops (in_call c 0) key (AnyFloat v) (60 * second) s)"

definition legacy_cache :: "'s cache_ops \<Rightarrow> 's price_cache" where
  "legacy_cache ops = \<lparr>pc_get = legacy_get ops, pc_set = legacy_set ops\<rparr>"

subsection \<open>GetLTP\<close>

record quote =
  quote_pair :: string
  quote_amount :: f64

text \<open>\<open>KrakenAPI.GetTickerPrices\<close>; the context is part of the API's state.\<close>

type_synonym 'k kraken_api = "clock \<Rightarrow> string list \<Rightarrow> 'k \<Rightarrow> (go_error + (string, f64) gomap) \<times> 'k"

fun normalize_all :: "go_unicode \<Rightarrow> string list \<Rightarrow> string list \<Rightarrow> go_error + string list" where
  "normalize_all u [] normalized = Inr normalized"
| "normalize_all u (p # ps) normalized =
     (case normalize_user_pair u p of
        Inl err \<Rightarrow> Inl (HandlerError 400 (err_text err))
      | Inr n \<Rightarrow> normalize_all u ps (if n \<in> set normalized then normalized else normalized @ [n]))"

text \<open>
  The pass over the cache: prices found so far, and the pairs still needed with their
  symbols.  The \<open>i\<close>-th call of the cache has the \<open>i\<close>-th position of the body.
\<close>

fun from_cache ::
  "go_unicode \<Rightarrow> 's price_cache \<Rightarrow> clock \<Rightarrow> nat \<Rightarrow> string list \<Rightarrow> (string, f64) gomap \<Rightarrow> (string \<times> string) list \<Rightarrow>
   's \<Rightarrow> (go_error + (string, f64) gomap \<times> (string \<times> string) list) \<times> 's" where
  "from_cache u pc c i [] results needed s = (Inr (results, needed), s)"
| "from_cache u pc c i (up # ups) results needed s =
     (case to_kraken_symbol u up of
        Inl err \<Rightarrow> (Inl (HandlerError 400 (err_text err)), s)
      | Inr symb \<Rightarrow>
          (case pc_get pc (in_call c i) symb s of
             (Some v, s) \<Rightarrow> from_cache u pc c (i + 1) ups (gm_put up v results) needed s
           | (None, s) \<Rightarrow> from_cache u pc c (i + 1) ups results (needed @ [(up, symb)]) s))"

fun from_prices ::
  "'s price_cache \<Rightarrow> clock \<Rightarrow> nat \<Rightarrow> (string \<times> string) list \<Rightarrow> (string, f64) gomap \<Rightarrow> (string, f64) gomap \<Rightarrow>
   's \<Rightarrow> (go_error + (string, f64) gomap) \<times> 's" where
  "from_prices pc c i [] prices results s = (Inr results, s)"
| "from_prices pc c i ((up, symb) # needed) prices results s =
     (case gm_get prices symb of
        None \<Rightarrow> (Inl (HandlerError 400 (''pair not found or unsupported: '' @ up)), s)
      | Some p \<Rightarrow> from_prices pc c (i + 1) needed prices (gm_put up p results) (pc_set pc (in_call c i) symb p s))"

text \<open>The keys of a map are distinct, so sorting them has one result, whatever the order of the range.\<close>

definition sorted_quotes :: "(string, f64) gomap \<Rightarrow> quote list" where
  "sorted_quotes results =
     map (\<lambda>k. \<lparr>quote_pair = k,
               quote_amount = (case gm_get results k of Some v \<Rightarrow> v | None \<Rightarrow> Fin 0)\<rparr>)
       (sort (map fst results))"

definition get_ltp ::
  "go_unicode \<Rightarrow> 's price_cache \<Rightarrow> 'k kraken_api \<Rightarrow> clock \<Rightarrow> string list \<Rightarrow> 's \<times> 'k \<Rightarrow>
   (go_error + quote list) \<times> 's \<times> 'k" where
  "get_ltp u pc api c user_pairs st =
     (let (s, k) = st in
      if user_pairs = [] then (Inl (HandlerError 400 ''no pairs provided''), s, k)
      else
        (case normalize_all u user_pairs [] of
           Inl e \<Rightarrow> (Inl e, s, k)
         | Inr normalized \<Rightarrow>
             (case from_cache u pc c 0 normalized [] [] s of
                (Inl e, s) \<Rightarrow> (Inl e, s, k)
              | (Inr (results, needed), s) \<Rightarrow>
                  if needed = [] then (Inr (sorted_quotes results), s, k)
                  else
                    (let n = length normalized in
                     case api (in_call c n) (map snd needed) k of
                       (Inl err, k) \<Rightarrow> (Inl (WrapError ''kraken: '' err), s, k)
                     | (Inr prices, k) \<Rightarrow>
                         (case from_prices pc c (n + 1) needed prices results s of
                            (Inl e, s) \<Rightarrow> (Inl e, s, k)
                          | (Inr results, s) \<Rightarrow> (Inr (sorted_quotes results), s, k))))))"

subsection \<open>Normalisation and results\<close>

lemma normalize_all_Inr:
  "normalize_all u ps ns = Inr ns' \<Longrightarrow> distinct ns \<Longrightarrow>
     distinct ns' \<and> set ns' = set ns \<union> {n. \<exists>p\<in>set ps. normalize_user_pair u p = Inr n} \<and>
     (\<forall>p\<in>set ps. \<exists>n. normalize_user_pair u p = Inr n)"
proof (induction u ps ns rule: normalize_all.induct)
  case (2 u p ps ns)
  then show ?case by (cases "normalize_user_pair u p") (auto split: if_splits)
qed simp

lemma normalize_all_Inl:
  "normalize_all u ps ns = Inl e \<Longrightarrow>
     \<exists>p\<in>set ps. \<exists>err. normalize_user_pair u p = Inl err \<and> e = HandlerError 400 (err_text err)"
proof (induction u ps ns rule: normalize_all.induct)
  case (2 u p ps ns)
  then show ?case by (cases "normalize_user_pair u p") (auto split: if_splits)
qed simp

abbreviation gm_keys :: "('k, 'v) gomap \<Rightarrow> 'k set" where
  "gm_keys m \<equiv> fst ` set m"

lemma gm_keys_put [simp]: "gm_keys (gm_put k v m) = insert k (gm_keys m)"
  by (simp add: gm_put_def dom_update)

lemma from_cache_keys:
  "from_cache u pc c i ups results needed s = (Inr (results', needed'), s') \<Longrightarrow> gm_ok results \<Longrightarrow>
     gm_ok results' \<and> gm_keys results' \<union> fst ` set needed' = gm_keys results \<union> fst ` set needed \<union> set ups"
proof (induction u pc c i ups results needed s arbitrary: results' needed' s' rule: from_cache.induct)
  case (2 u pc c i up ups results needed s)
  then show ?case
    by (auto simp: gm.ok_put split: sum.splits prod.splits option.splits)
qed simp

text \<open>The three ways in which one pair is looked up, as an elimination rule.\<close>

lemma from_cache_ConsE:
  assumes "from_cache u pc c i (up # ups) results needed s = (Inr r, s')"
  obtains (hit) symb v s1 where "to_kraken_symbol u up = Inr symb" and "pc_get pc (in_call c i) symb s = (Some v, s1)"
      and "from_cache u pc c (i + 1) ups (gm_put up v results) needed s1 = (Inr r, s')"
  | (miss) symb s1 where "to_kraken_symbol u up = Inr symb" and "pc_get pc (in_call c i) symb s = (None, s1)"
      and "from_cache u pc c (i + 1) ups results (needed @ [(up, symb)]) s1 = (Inr r, s')"
  using assms by (auto split: sum.splits prod.splits option.splits)

lemma from_cache_needed:
  assumes "from_cache u pc c i ups results needed s = (Inr (results', needed'), s')"
    and "\<And>up symb. (up, symb) \<in> set needed \<Longrightarrow> to_kraken_symbol u up = Inr symb"
  shows "(up, symb) \<in> set needed' \<Longrightarrow> to_kraken_symbol u up = Inr symb"
  using assms
proof (induction ups arbitrary: i results needed s)
  case (Cons p ups)
  from Cons.prems(2) show ?case
  proof (cases rule: from_cache_ConsE)
    case (hit sy v s1)
    then show ?thesis using Cons.IH [OF Cons.prems(1) hit(3) Cons.prems(3)] by blast
  next
    case (miss sy s1)
    have "to_kraken_symbol u a = Inr b" if "(a, b) \<in> set (needed @ [(p, sy)])" for a b
      using that Cons.prems(3) miss(1) by auto
    then show ?thesis using Cons.IH [OF Cons.prems(1) miss(3)] by blast
  qed
qed simp

lemma from_prices_keys:
  "from_prices pc c i needed prices results s = (Inr results', s') \<Longrightarrow> gm_ok results \<Longrightarrow>
     gm_ok results' \<and> gm_keys results' = gm_keys results \<union> fst ` set needed"
proof (induction pc c i needed prices results s arbitrary: results' s' rule: from_prices.induct)
  case (2 pc c i up symb needed prices results s)
  then show ?case by (auto simp: gm.ok_put split: option.splits)
qed simp

lemma sorted_quotes_pairs: "map quote_pair (sorted_quotes results) = sort (map fst results)"
  by (simp add: sorted_quotes_def comp_def)

lemma sorted_quotes_in: "gm_ok m \<Longrightarrow> q \<in> set (sorted_quotes m) \<Longrightarrow> gm_get m (quote_pair q) = Some (quote_amount q)"
  by (auto simp: sorted_quotes_def gm_get_def gm_ok_def)

lemma from_cache_Inl:
  "from_cache u pc c i ups results needed s = (Inl e, s') \<Longrightarrow> \<exists>msg. e = HandlerError 400 msg"
  by (induction u pc c i ups results needed s rule: from_cache.induct)
    (auto split: sum.splits prod.splits option.splits)

lemma from_prices_Inl:
  "from_prices pc c i needed prices results s = (Inl e, s') \<Longrightarrow> \<exists>msg. e = HandlerError 400 msg"
  by (induction pc c i needed prices results s rule: from_prices.induct) (auto split: option.splits)

text \<open>The stages of a call of \<open>GetLTP\<close>: which case of its result comes from where.\<close>

definition api_answer ::
  "go_unicode \<Rightarrow> 's price_cache \<Rightarrow> 'k kraken_api \<Rightarrow> clock \<Rightarrow> string list \<Rightarrow> 's \<times> 'k \<Rightarrow>
   (go_error + (string, f64) gomap) option" where
  "api_answer u pc api c user_pairs st =
     (case normalize_all u user_pairs [] of
        Inl e \<Rightarrow> None
      | Inr normalized \<Rightarrow>
          (case from_cache u pc c 0 normalized [] [] (fst st) of
             (Inl e, s) \<Rightarrow> None
           | (Inr (results, needed), s) \<Rightarrow>
               if needed = [] then None
               else Some (fst (api (in_call c (length normalized)) (map snd needed) (snd st)))))"

lemma get_ltp_Inr:
  assumes "get_ltp u pc api c ps (s, k) = (Inr quotes, s', k')"
  obtains ns results needed s1 results' where "normalize_all u ps [] = Inr ns"
    and "from_cache u pc c 0 ns [] [] s = (Inr (results, needed), s1)"
    and "quotes = sorted_quotes results'"
    and "needed = [] \<and> results' = results \<and> s' = s1 \<and> k' = k \<or>
      (\<exists>prices. api_answer u pc api c ps (s, k) = Some (Inr prices) \<and> needed \<noteq> [] \<and>
        from_prices pc c (length ns + 1) needed prices results s1 = (Inr results', s'))"
proof (cases "normalize_all u ps []")
  case (Inl e)
  then show ?thesis using assms by (simp add: get_ltp_def split: if_splits)
next
  case (Inr ns)
  obtain r s1 where fc: "from_cache u pc c 0 ns [] [] s = (r, s1)" by fastforce
  show ?thesis
  proof (cases r)
    case (Inl e)
    then show ?thesis using assms Inr fc by (simp add: get_ltp_def split: if_splits)
  next
    case r: (Inr rn)
    obtain results needed where rn: "rn = (results, needed)" by fastforce
    show ?thesis
    proof (cases "needed = []")
      case True
      then show ?thesis using assms Inr fc r rn by (intro that [of ns results needed s1 results]) (auto simp: get_ltp_def split: if_splits)
    next
      case False
      then show ?thesis using assms Inr fc r rn that
        by (auto simp: get_ltp_def api_answer_def Let_def split: if_splits prod.splits sum.splits)
    qed
  qed
qed

text \<open>
  C12: A successful \<open>GetLTP\<close> answers every pair asked for, in normal form, once each and in
  alphabetical order; it succeeds only if all of them are well formed.
\<close>

theorem get_ltp_answers_every_pair:
  assumes "get_ltp u pc api c user_pairs st = (Inr quotes, st')"
  shows "sorted (map quote_pair quotes) \<and> distinct (map quote_pair quotes) \<and>
    set (map quote_pair quotes) = {n. \<exists>p\<in>set user_pairs. normalize_user_pair u p = Inr n} \<and>
    (\<forall>p\<in>set user_pairs. \<exists>n. normalize_user_pair u p = Inr n)"
proof -
  obtain s k s' k' where st: "st = (s, k)" "st' = (s', k')" by (cases st, cases st') auto
  obtain ns results needed s1 results' where n: "normalize_all u user_pairs [] = Inr ns"
    and fc: "from_cache u pc c 0 ns [] [] s = (Inr (results, needed), s1)"
    and q: "quotes = sorted_quotes results'"
    and rest: "needed = [] \<and> results' = results \<and> s' = s1 \<and> k' = k \<or>
      (\<exists>prices. api_answer u pc api c user_pairs (s, k) = Some (Inr prices) \<and> needed \<noteq> [] \<and>
        from_prices pc c (length ns + 1) needed prices results s1 = (Inr results', s'))"
    using get_ltp_Inr [OF assms [unfolded st]] by metis
  have keys: "gm_ok results" "gm_keys results \<union> fst ` set needed = set ns"
    using from_cache_keys [OF fc] by (simp_all add: gm.ok_empty)
  have "gm_ok results' \<and> gm_keys results' = set ns"
    using rest
  proof
    assume "needed = [] \<and> results' = results \<and> s' = s1 \<and> k' = k"
    then show ?thesis using keys by simp
  next
    assume "\<exists>prices. api_answer u pc api c user_pairs (s, k) = Some (Inr prices) \<and> needed \<noteq> [] \<and>
        from_prices pc c (length ns + 1) needed prices results s1 = (Inr results', s')"
    then obtain prices where "from_prices pc c (length ns + 1) needed prices results s1 = (Inr results', s')"
      by blast
    from from_prices_keys [OF this keys(1)] keys(2) show ?thesis by simp
  qed
  then show ?thesis
    using normalize_all_Inr [OF n] by (simp add: q sorted_quotes_pairs gm_ok_def)
qed

text \<open>A cache that holds nothing, and a Kraken that knows one price.\<close>

definition empty_price_cache :: "unit price_cache" where
  "empty_price_cache = \<lparr>pc_get = (\<lambda>c k s. (None, s)), pc_set = (\<lambda>c k v s. s)\<rparr>"

definition one_price_api :: "nat kraken_api" where
  "one_price_api c syms k = (Inr [(''XXBTZUSD'', Fin 50000)], k + 1)"

lemma to_kraken_btc_usd: "to_kraken_symbol u ''BTC/USD'' = Inr ''XXBTZUSD''"
  using to_kraken_symbol_split [of u "''BTC/USD''" "''BTC''" "''USD''"]
  by (simp add: normalize_btc_usd kraken_base_def kraken_quote_def)

lemma get_ltp_example:
  "get_ltp u empty_price_cache one_price_api (\<lambda>_. 0) [''BTC/USD''] ((), 0) =
     (Inr [\<lparr>quote_pair = ''BTC/USD'', quote_amount = Fin 50000\<rparr>], (), 1)"
  by (simp add: get_ltp_def normalize_btc_usd to_kraken_btc_usd empty_price_cache_def one_price_api_def
      sorted_quotes_def gm_get_def gm_put_def)

theorem get_ltp_answers_every_pair_witness:
  "set (map quote_pair [\<lparr>quote_pair = ''BTC/USD'', quote_amount = Fin 50000\<rparr>]) =
     {n. \<exists>p\<in>set [''BTC/USD'']. normalize_user_pair no_unicode p = Inr n}"
  using get_ltp_answers_every_pair [OF get_ltp_example [of no_unicode]] by blast

lemma get_ltp_failure:
  assumes e: "fst (get_ltp u pc api c user_pairs st) = Inl e"
  shows "(\<exists>msg. e = HandlerError 400 msg) \<or>
     (\<exists>err. e = WrapError ''kraken: '' err \<and> api_answer u pc api c user_pairs st = Some (Inl err))"
proof -
  obtain s k where st: "st = (s, k)" by fastforce
  show ?thesis
  proof (cases "user_pairs = [] \<or> (\<exists>e'. normalize_all u user_pairs [] = Inl e')")
    case True
    then show ?thesis using e normalize_all_Inl [of u user_pairs "[]"]
      by (auto simp: get_ltp_def st split: if_splits)
  next
    case False
    then obtain ns where ns: "normalize_all u user_pairs [] = Inr ns" "user_pairs \<noteq> []"
      by (cases "normalize_all u user_pairs []") auto
    obtain r s1 where fc: "from_cache u pc c 0 ns [] [] s = (r, s1)" by fastforce
    show ?thesis
      using e ns fc from_cache_Inl [of u pc c 0 ns "[]" "[]" s] from_prices_Inl
      by (auto simp: get_ltp_def api_answer_def st Let_def split: sum.splits prod.splits if_splits)
  qed
qed

text \<open>The causes of the errors of the stages.\<close>

lemma normalize_all_first:
  "normalize_all u ps ns = Inl e \<Longrightarrow>
     \<exists>xs p ys err. ps = xs @ p # ys \<and> list_all (\<lambda>x. \<not> isl (normalize_user_pair u x)) xs \<and>
       normalize_user_pair u p = Inl err \<and> e = HandlerError 400 (err_text err)"
proof (induction ps arbitrary: ns)
  case (Cons p ps)
  show ?case
  proof (cases "normalize_user_pair u p")
    case (Inl err)
    then have "p # ps = [] @ p # ps" "list_all (\<lambda>x. \<not> isl (normalize_user_pair u x)) []"
      "e = HandlerError 400 (err_text err)" using Cons.prems by simp_all
    then show ?thesis using Inl by blast
  next
    case (Inr n)
    then have "normalize_all u ps (if n \<in> set ns then ns else ns @ [n]) = Inl e" using Cons.prems by simp
    from Cons.IH [OF this] obtain xs q ys err where "ps = xs @ q # ys"
      "list_all (\<lambda>x. \<not> isl (normalize_user_pair u x)) xs" "normalize_user_pair u q = Inl err"
      "e = HandlerError 400 (err_text err)" by blast
    moreover from this have "p # ps = (p # xs) @ q # ys"
      "list_all (\<lambda>x. \<not> isl (normalize_user_pair u x)) (p # xs)" using Inr by simp_all
    ultimately show ?thesis by blast
  qed
qed simp

lemma from_cache_cause:
  "from_cache u pc c i ups results needed s = (Inl e, s') \<Longrightarrow>
     \<exists>up err. up \<in> set ups \<and> to_kraken_symbol u up = Inl err \<and> e = HandlerError 400 (err_text err)"
proof (induction ups arbitrary: i results needed s)
  case (Cons p ups)
  show ?case
  proof (cases "to_kraken_symbol u p")
    case (Inl err)
    then show ?thesis using Cons.prems by auto
  next
    case (Inr symb)
    obtain v s1 where got: "pc_get pc (in_call c i) symb s = (v, s1)" by fastforce
    show ?thesis
      using Cons.prems Inr got Cons.IH [of "i + 1" results "needed @ [(p, symb)]" s1]
        Cons.IH [of "i + 1" "gm_put p (the v) results" needed s1]
      by (cases v) auto
  qed
qed simp

lemma from_prices_cause:
  "from_prices pc c i needed prices results s = (Inl e, s') \<Longrightarrow>
     \<exists>up symb. (up, symb) \<in> set needed \<and> gm_get prices symb = None \<and>
       e = HandlerError 400 (''pair not found or unsupported: '' @ up)"
  by (induction pc c i needed prices results s rule: from_prices.induct) (auto split: option.splits)

lemma needed_pairs:
  assumes "from_cache u pc c i ups results [] s = (Inr (results', needed), s')" and "(up, symb) \<in> set needed"
    and "gm_ok results"
  shows "up \<in> set ups \<union> gm_keys results" and "to_kraken_symbol u up = Inr symb"
  using from_cache_keys [OF assms(1,3)] from_cache_needed [OF assms(1) _ assms(2)] assms(2) by force+

text \<open>
  C20: Why \<open>GetLTP\<close> fails.  Without pairs, or with a pair that is not well formed, it is a 400
  before cache and Kraken are used, with the text of the first such pair's error.  With pairs
  that are well formed it is Kraken's own error, which keeps its place in the chain, or a 400
  that names a pair whose symbol Kraken's reply does not have.  (The third case, a
  normal form that has no symbol, needs Unicode tables whose upper case is not stable.)
\<close>

theorem get_ltp_errors:
  assumes "fst (get_ltp u pc api c ps st) = Inl e"
  shows "ps = [] \<and> e = HandlerError 400 ''no pairs provided'' \<and> snd (get_ltp u pc api c ps st) = st \<or>
    (\<exists>xs p ys err. ps = xs @ p # ys \<and> list_all (\<lambda>x. \<not> isl (normalize_user_pair u x)) xs \<and>
      normalize_user_pair u p = Inl err \<and> e = HandlerError 400 (err_text err) \<and>
      snd (get_ltp u pc api c ps st) = st) \<or>
    list_all (\<lambda>x. \<not> isl (normalize_user_pair u x)) ps \<and>
     ((\<exists>p n err. p \<in> set ps \<and> normalize_user_pair u p = Inr n \<and> to_kraken_symbol u n = Inl err \<and>
        e = HandlerError 400 (err_text err)) \<or>
      (\<exists>err. api_answer u pc api c ps st = Some (Inl err) \<and> e = WrapError ''kraken: '' err) \<or>
      (\<exists>prices p n symb. api_answer u pc api c ps st = Some (Inr prices) \<and> p \<in> set ps \<and>
        normalize_user_pair u p = Inr n \<and> to_kraken_symbol u n = Inr symb \<and> gm_get prices symb = None \<and>
        e = HandlerError 400 (''pair not found or unsupported: '' @ n)))"
proof -
  obtain s k where st: "st = (s, k)" by fastforce
  consider "ps = []" | e' where "ps \<noteq> []" "normalize_all u ps [] = Inl e'"
    | ns where "ps \<noteq> []" "normalize_all u ps [] = Inr ns" by (cases "normalize_all u ps []") auto
  then show ?thesis
  proof cases
    case 1
    then show ?thesis using assms by (simp add: get_ltp_def st)
  next
    case 2
    then have "get_ltp u pc api c ps st = (Inl e', st)" by (simp add: get_ltp_def st)
    then show ?thesis using normalize_all_first [OF 2(2)] assms by simp
  next
    case 3
    then have ok: "list_all (\<lambda>x. \<not> isl (normalize_user_pair u x)) ps"
      and ns: "\<And>n. n \<in> set ns \<Longrightarrow> \<exists>p. p \<in> set ps \<and> normalize_user_pair u p = Inr n"
      using normalize_all_Inr [OF 3(2)] by (auto simp: list_all_iff isl_def)
    obtain r s1 where fc: "from_cache u pc c 0 ns [] [] s = (r, s1)" by fastforce
    show ?thesis
    proof (cases r)
      case (Inl e1)
      then have "e = e1" using assms 3 fc by (simp add: get_ltp_def st)
      moreover obtain up err where "up \<in> set ns" "to_kraken_symbol u up = Inl err" "e1 = HandlerError 400 (err_text err)"
        using from_cache_cause [OF fc [unfolded Inl]] by blast
      moreover from this obtain p where "p \<in> set ps" "normalize_user_pair u p = Inr up" using ns by blast
      ultimately show ?thesis using ok by (intro disjI2) blast
    next
      case (Inr rn)
      obtain results needed where rn: "rn = (results, needed)" by fastforce
      have "needed \<noteq> []" using assms 3 fc Inr rn by (auto simp: get_ltp_def st)
      obtain a k1 where api: "api (in_call c (length ns)) (map snd needed) k = (a, k1)" by fastforce
      have answer: "api_answer u pc api c ps st = Some a"
        using 3 fc Inr rn api \<open>needed \<noteq> []\<close> by (simp add: api_answer_def st)
      show ?thesis
      proof (cases a)
        case (Inl err)
        then have "e = WrapError ''kraken: '' err"
          using assms 3 fc Inr rn api \<open>needed \<noteq> []\<close> by (simp add: get_ltp_def st Let_def)
        then show ?thesis using answer Inl ok by (intro disjI2) blast
      next
        case (Inr prices)
        then obtain s2 where "from_prices pc c (length ns + 1) needed prices results s1 = (Inl e, s2)"
          using assms 3 fc \<open>r = Inr rn\<close> rn api \<open>needed \<noteq> []\<close>
          by (auto simp: get_ltp_def st Let_def split: sum.splits prod.splits)
        from from_prices_cause [OF this] obtain up symb where up: "(up, symb) \<in> set needed"
          "gm_get prices symb = None" "e = HandlerError 400 (''pair not found or unsupported: '' @ up)" by blast
        have "up \<in> set ns" "to_kraken_symbol u up = Inr symb"
          using needed_pairs [OF fc [unfolded \<open>r = Inr rn\<close> rn] up(1)] by (simp_all add: gm_ok_def)
        moreover from this obtain p where "p \<in> set ps" "normalize_user_pair u p = Inr up" using ns by blast
        ultimately show ?thesis using up(2,3) answer Inr ok by (intro disjI2) blast
      qed
    qed
  qed
qed

theorem get_ltp_errors_witness:
  "fst (get_ltp no_unicode empty_price_cache one_price_api (\<lambda>_. 0) [''ETH/USD''] ((), 0)) =
     Inl (HandlerError 400 ''pair not found or unsupported: ETH/USD'') \<and>
   (\<exists>prices. api_answer no_unicode empty_price_cache one_price_api (\<lambda>_. 0) [''ETH/USD''] ((), 0) = Some (Inr prices) \<and>
     gm_get prices ''ETHZUSD'' = None)"
proof -
  have f: "fst (get_ltp no_unicode empty_price_cache one_price_api (\<lambda>_. 0) [''ETH/USD''] ((), 0)) =
     Inl (HandlerError 400 ''pair not found or unsupported: ETH/USD'')" by code_simp
  have n: "normalize_user_pair no_unicode ''ETH/USD'' = Inr ''ETH/USD''" by code_simp
  have y: "to_kraken_symbol no_unicode ''ETH/USD'' = Inr ''ETHZUSD''" by code_simp
  show ?thesis using get_ltp_errors [OF f] f n y by (auto simp: Cons_eq_append_conv)
qed

text \<open>A property of the cache that its calls under the symbols of pairs keep.\<close>

lemma from_cache_preserves:
  assumes "\<And>c symb s. P s \<Longrightarrow> Q symb \<Longrightarrow> P (snd (pc_get pc c symb s))"
    and "\<And>up symb. to_kraken_symbol u up = Inr symb \<Longrightarrow> Q symb"
  shows "P s \<Longrightarrow> P (snd (from_cache u pc c i ups results needed s))"
proof (induction ups arbitrary: i results needed s)
  case (Cons up ups)
  show ?case
  proof (cases "to_kraken_symbol u up")
    case (Inr symb)
    then have "P (snd (pc_get pc (in_call c i) symb s))" using assms Cons.prems by blast
    then show ?thesis using Cons.IH Inr by (auto split: prod.split option.split)
  qed (use Cons.prems in simp)
qed simp

lemma from_prices_preserves:
  assumes "\<And>c symb p s. P s \<Longrightarrow> Q symb \<Longrightarrow> P (pc_set pc c symb p s)"
  shows "P s \<Longrightarrow> \<forall>(up, symb)\<in>set needed. Q symb \<Longrightarrow> P (snd (from_prices pc c i needed prices results s))"
  by (induction needed arbitrary: i results s) (auto simp: assms split: option.split)

lemma get_ltp_preserves:
  assumes get: "\<And>c symb s. P s \<Longrightarrow> Q symb \<Longrightarrow> P (snd (pc_get pc c symb s))"
    and set: "\<And>c symb p s. P s \<Longrightarrow> Q symb \<Longrightarrow> P (pc_set pc c symb p s)"
    and sym: "\<And>up symb. to_kraken_symbol u up = Inr symb \<Longrightarrow> Q symb" and "P s"
  shows "P (fst (snd (get_ltp u pc api c ps (s, k))))"
proof (cases "ps = [] \<or> (\<exists>e. normalize_all u ps [] = Inl e)")
  case True
  then show ?thesis using assms(4) by (auto simp: get_ltp_def)
next
  case False
  then obtain ns where ns: "normalize_all u ps [] = Inr ns" "ps \<noteq> []"
    by (cases "normalize_all u ps []") auto
  obtain r s1 where fc: "from_cache u pc c 0 ns [] [] s = (r, s1)" by fastforce
  have "P (snd (from_cache u pc c 0 ns [] [] s))"
    using get sym assms(4) by (rule from_cache_preserves)
  then have s1: "P s1" by (simp add: fc)
  show ?thesis
  proof (cases r)
    case (Inl e)
    then show ?thesis using ns fc s1 by (simp add: get_ltp_def)
  next
    case r: (Inr rn)
    obtain results needed where rn: "rn = (results, needed)" by fastforce
    have needed: "\<forall>(up, symb)\<in>set needed. Q symb"
      using from_cache_needed [OF fc [unfolded r rn]] sym by auto
    have "P (snd (from_prices pc c i needed prices results s1))" for i prices
      using from_prices_preserves [where P = P and Q = Q, OF _ s1 needed] set by blast
    then have out: "P s2" if "from_prices pc c i needed prices results s1 = (x, s2)" for i prices x s2
      using that by (metis snd_conv)
    show ?thesis using ns fc r rn s1
      by (auto simp: get_ltp_def Let_def split: sum.split prod.split intro: out)
  qed
qed

subsection \<open>What a call does to the cache\<close>

lemma store_run_append: "store_run ops (xs @ ys) s = store_run ops ys (store_run ops xs s)"
  by (induction xs arbitrary: s) auto

text \<open>The cache calls of a \<open>GetLTP\<close> that runs on clock \<open>c\<close>, and a hit after some of them.\<close>

definition service_ops :: "clock \<Rightarrow> (string \<Rightarrow> f64 \<Rightarrow> bool) \<Rightarrow> store_op list \<Rightarrow> bool" where
  "service_ops c stored xs \<longleftrightarrow> (\<forall>x\<in>set xs.
     (\<exists>j symb. x = SGet (in_call (in_call c j) 0) symb) \<or>
     (\<exists>j symb p. x = SSet (in_call (in_call c j) 0) symb (AnyFloat p) (60 * second) \<and> stored symb p))"

lemma service_ops_append: "service_ops c P xs \<Longrightarrow> service_ops c P ys \<Longrightarrow> service_ops c P (xs @ ys)"
  by (auto simp: service_ops_def)

definition hit_after :: "'s cache_ops \<Rightarrow> clock \<Rightarrow> 's \<Rightarrow> store_op list \<Rightarrow> string \<Rightarrow> f64 \<Rightarrow> bool" where
  "hit_after ops c s xs symb v \<longleftrightarrow>
     (\<exists>j. fst (op_get ops (in_call (in_call c j) 0) symb (store_run ops xs s)) = Inr (Some (AnyFloat v)))"

lemma legacy_get_snd: "snd (legacy_get ops c k s) = store_run ops [SGet (in_call c 0) k] s"
  by (simp add: legacy_get_def split_beta)

lemma legacy_get_hit: "fst (legacy_get ops c k s) = Some v \<longleftrightarrow> fst (op_get ops (in_call c 0) k s) = Inr (Some (AnyFloat v))"
  by (auto simp: legacy_get_def split_beta split: sum.split option.split go_any.split)

text \<open>The prices in \<open>res'\<close> that are not in \<open>res\<close> come from hits of the cache.\<close>

definition supplied ::
  "'s cache_ops \<Rightarrow> go_unicode \<Rightarrow> clock \<Rightarrow> 's \<Rightarrow> (string, f64) gomap \<Rightarrow> (string, f64) gomap \<Rightarrow> bool" where
  "supplied ops u c s res' res \<longleftrightarrow> (\<forall>a v. gm_get res' a = Some v \<longrightarrow> gm_get res a \<noteq> Some v \<longrightarrow>
     (\<exists>symb ys. to_kraken_symbol u a = Inr symb \<and> service_ops c (\<lambda>_ _. False) ys \<and> hit_after ops c s ys symb v))"

lemma supplied_refl [simp]: "supplied ops u c s res res"
  by (simp add: supplied_def)

lemma supplied_later:
  assumes "supplied ops u c (store_run ops [x] s) res' res" and "service_ops c (\<lambda>_ _. False) [x]"
  shows "supplied ops u c s res' res"
  unfolding supplied_def
proof (intro allI impI)
  fix a v
  assume "gm_get res' a = Some v" and "gm_get res a \<noteq> Some v"
  then obtain symb ys where y: "to_kraken_symbol u a = Inr symb" "service_ops c (\<lambda>_ _. False) ys"
    "hit_after ops c (store_run ops [x] s) ys symb v" using assms(1) unfolding supplied_def by blast
  have "hit_after ops c s ([x] @ ys) symb v" using y(3) by (simp add: hit_after_def)
  moreover have "service_ops c (\<lambda>_ _. False) ([x] @ ys)" using assms(2) y(2) by (rule service_ops_append)
  ultimately show "\<exists>symb ys. to_kraken_symbol u a = Inr symb \<and> service_ops c (\<lambda>_ _. False) ys \<and> hit_after ops c s ys symb v"
    using y(1) by blast
qed

lemma supplied_put:
  assumes "supplied ops u c s res' (gm_put up v res)" and "to_kraken_symbol u up = Inr symb"
    and "service_ops c (\<lambda>_ _. False) ys" and "hit_after ops c s ys symb v"
  shows "supplied ops u c s res' res"
  unfolding supplied_def
proof (intro allI impI)
  fix a w
  assume a: "gm_get res' a = Some w" "gm_get res a \<noteq> Some w"
  show "\<exists>symb ys. to_kraken_symbol u a = Inr symb \<and> service_ops c (\<lambda>_ _. False) ys \<and> hit_after ops c s ys symb w"
  proof (cases "a = up \<and> w = v")
    case True
    then show ?thesis using assms(2-4) by blast
  next
    case False
    then have "gm_get (gm_put up v res) a \<noteq> Some w" using a(2) by (auto simp: gm.lookup_put)
    then show ?thesis using a(1) assms(1) unfolding supplied_def by blast
  qed
qed

lemma from_cache_trace:
  assumes "from_cache u (legacy_cache ops) c i ups results needed s = (Inr (results', needed'), s')"
  shows "(\<exists>xs. s' = store_run ops xs s \<and> service_ops c (\<lambda>_ _. False) xs) \<and> supplied ops u c s results' results"
  using assms
proof (induction ups arbitrary: i results needed s)
  case Nil
  have "service_ops c (\<lambda>_ _. False) []" by (simp add: service_ops_def)
  then show ?case using Nil by (intro conjI exI [of _ "[]"]) simp_all
next
  case (Cons up ups)
  let ?c = "in_call (in_call c i) 0"
  have one: "service_ops c (\<lambda>_ _. False) [SGet ?c symb]" for symb
    unfolding service_ops_def by simp blast
  have step: "(\<exists>xs. s' = store_run ops xs s \<and> service_ops c (\<lambda>_ _. False) xs) \<and> supplied ops u c s results' res"
    if s1: "s1 = store_run ops [SGet ?c symb] s"
      and rest: "from_cache u (legacy_cache ops) c (i + 1) ups res need s1 = (Inr (results', needed'), s')"
    for res need s1 symb
  proof -
    obtain xs where xs: "s' = store_run ops xs s1" "service_ops c (\<lambda>_ _. False) xs"
      and sup: "supplied ops u c s1 results' res" using Cons.IH [OF rest] by blast
    have "s' = store_run ops ([SGet ?c symb] @ xs) s" using xs(1) s1 by simp
    moreover have "service_ops c (\<lambda>_ _. False) ([SGet ?c symb] @ xs)" using one xs(2) by (rule service_ops_append)
    moreover have "supplied ops u c s results' res" using sup one unfolding s1 by (rule supplied_later)
    ultimately show ?thesis by blast
  qed
  have got: "s1 = store_run ops [SGet ?c symb] s" if "pc_get (legacy_cache ops) (in_call c i) symb s = (r, s1)" for r s1 symb
    using that legacy_get_snd [of ops "in_call c i" symb s] by (simp add: legacy_cache_def)
  from Cons.prems show ?case
  proof (cases rule: from_cache_ConsE)
    case (hit symb v s1)
    have "fst (legacy_get ops (in_call c i) symb s) = Some v" using hit(2) by (simp add: legacy_cache_def)
    then have now: "hit_after ops c s [] symb v" unfolding legacy_get_hit hit_after_def store_run.simps by blast
    have none: "service_ops c (\<lambda>_ _. False) []" by (simp add: service_ops_def)
    note rest = step [OF got [OF hit(2)] hit(3)]
    have "supplied ops u c s results' results"
      by (rule supplied_put [OF conjunct2 [OF rest] hit(1) none now])
    then show ?thesis by (rule conjI [OF conjunct1 [OF rest]])
  next
    case (miss symb s1)
    show ?thesis by (rule step [OF got [OF miss(2)] miss(3)])
  qed
qed

lemma from_prices_trace:
  assumes "from_prices (legacy_cache ops) c i needed prices results s = (r, s')"
  shows "\<exists>xs. s' = store_run ops xs s \<and> service_ops c (\<lambda>symb p. gm_get prices symb = Some p) xs"
  using assms
proof (induction needed arbitrary: i results s)
  case Nil
  then show ?case by (auto intro!: exI [of _ "[]"] simp: service_ops_def)
next
  case (Cons n needed)
  obtain up symb where n: "n = (up, symb)" by fastforce
  show ?case
  proof (cases "gm_get prices symb")
    case None
    then show ?thesis using Cons.prems n by (auto intro!: exI [of _ "[]"] simp: service_ops_def)
  next
    case (Some p)
    let ?x = "SSet (in_call (in_call c i) 0) symb (AnyFloat p) (60 * second)"
    have "from_prices (legacy_cache ops) c (i + 1) needed prices (gm_put up p results) (store_run ops [?x] s) = (r, s')"
      using Cons.prems n Some by (simp add: legacy_cache_def legacy_set_def)
    then obtain xs where "s' = store_run ops xs (store_run ops [?x] s)"
      "service_ops c (\<lambda>symb p. gm_get prices symb = Some p) xs" using Cons.IH by blast
    then have "s' = store_run ops (?x # xs) s" "service_ops c (\<lambda>symb p. gm_get prices symb = Some p) (?x # xs)"
      using Some by (auto simp: service_ops_def)
    then show ?thesis by blast
  qed
qed

lemma from_prices_results:
  assumes "from_prices pc c i needed prices results s = (Inr results', s')" and "gm_get results' a = Some v"
  shows "gm_get results a = Some v \<or> (\<exists>symb. (a, symb) \<in> set needed \<and> gm_get prices symb = Some v)"
  using assms
proof (induction pc c i needed prices results s rule: from_prices.induct)
  case (2 pc c i up symb needed prices results s)
  then show ?case by (auto simp: gm.lookup_put split: option.splits if_splits)
qed simp

subsection \<open>Histories of calls\<close>

definition answered :: "go_unicode \<Rightarrow> 's price_cache \<Rightarrow> 'k kraken_api \<Rightarrow> clock \<Rightarrow> string list \<Rightarrow> 's \<times> 'k \<Rightarrow> string \<Rightarrow> f64 \<Rightarrow> bool" where
  "answered u pc api c ps st symb p \<longleftrightarrow>
     (\<exists>prices. api_answer u pc api c ps st = Some (Inr prices) \<and> gm_get prices symb = Some p)"

lemma service_ops_mono: "service_ops c P xs \<Longrightarrow> (\<And>a b. P a b \<Longrightarrow> Q a b) \<Longrightarrow> service_ops c Q xs"
  unfolding service_ops_def by blast

lemma from_cache_trace_any:
  assumes "from_cache u (legacy_cache ops) c i ups results needed s = (r, s')"
  shows "\<exists>xs. s' = store_run ops xs s \<and> service_ops c (\<lambda>_ _. False) xs"
  using assms
proof (induction ups arbitrary: i results needed s)
  case Nil
  then show ?case by (intro exI [of _ "[]"]) (simp add: service_ops_def)
next
  case (Cons up ups)
  show ?case
  proof (cases "to_kraken_symbol u up")
    case (Inl e)
    then show ?thesis using Cons.prems by (intro exI [of _ "[]"]) (simp add: service_ops_def)
  next
    case (Inr symb)
    let ?x = "SGet (in_call (in_call c i) 0) symb"
    have s1: "snd (pc_get (legacy_cache ops) (in_call c i) symb s) = store_run ops [?x] s"
      by (simp add: legacy_cache_def legacy_get_snd)
    obtain res need where "from_cache u (legacy_cache ops) c (i + 1) ups res need (store_run ops [?x] s) = (r, s')"
      using Cons.prems Inr s1 by (auto split: prod.splits option.splits)
    then obtain xs where xs: "s' = store_run ops xs (store_run ops [?x] s)" "service_ops c (\<lambda>_ _. False) xs"
      using Cons.IH by blast
    have "service_ops c (\<lambda>_ _. False) [?x]" unfolding service_ops_def by simp blast
    then have "service_ops c (\<lambda>_ _. False) ([?x] @ xs)" using xs(2) by (rule service_ops_append)
    moreover have "s' = store_run ops ([?x] @ xs) s" using xs(1) by simp
    ultimately show ?thesis by blast
  qed
qed

lemma get_ltp_trace:
  "\<exists>xs. fst (snd (get_ltp u (legacy_cache ops) api c ps (s, k))) = store_run ops xs s \<and>
     service_ops c (answered u (legacy_cache ops) api c ps (s, k)) xs"
proof -
  let ?pc = "legacy_cache ops"
  have none: "\<exists>xs. s = store_run ops xs s \<and> service_ops c (answered u ?pc api c ps (s, k)) xs"
    by (intro exI [of _ "[]"]) (simp add: service_ops_def)
  show ?thesis
  proof (cases "ps = [] \<or> (\<exists>e. normalize_all u ps [] = Inl e)")
    case True
    then show ?thesis using none by (auto simp: get_ltp_def)
  next
    case False
    then obtain ns where ns: "normalize_all u ps [] = Inr ns" "ps \<noteq> []"
      by (cases "normalize_all u ps []") auto
    obtain r s1 where fc: "from_cache u ?pc c 0 ns [] [] s = (r, s1)" by fastforce
    obtain xs where xs: "s1 = store_run ops xs s" "service_ops c (\<lambda>_ _. False) xs"
      using from_cache_trace_any [OF fc] by blast
    have xs': "service_ops c (answered u ?pc api c ps (s, k)) xs" using xs(2) by (rule service_ops_mono) simp
    show ?thesis
    proof (cases "fst (snd (get_ltp u ?pc api c ps (s, k))) = s1")
      case True
      then show ?thesis using xs(1) xs' by blast
    next
      case False
      then obtain results needed prices r2 s2 where ans: "api_answer u ?pc api c ps (s, k) = Some (Inr prices)"
        and fp: "from_prices ?pc c (length ns + 1) needed prices results s1 = (r2, s2)"
        and s2: "fst (snd (get_ltp u ?pc api c ps (s, k))) = s2"
        using ns fc by (auto simp: get_ltp_def api_answer_def Let_def split: sum.splits prod.splits if_splits)
      obtain ys where ys: "s2 = store_run ops ys s1" "service_ops c (\<lambda>symb p. gm_get prices symb = Some p) ys"
        using from_prices_trace [OF fp] by blast
      have "service_ops c (answered u ?pc api c ps (s, k)) ys"
        using ys(2) by (rule service_ops_mono) (simp add: answered_def ans)
      then have "service_ops c (answered u ?pc api c ps (s, k)) (xs @ ys)" by (rule service_ops_append [OF xs'])
      moreover have "s2 = store_run ops (xs @ ys) s" using xs(1) ys(1) by (simp add: store_run_append)
      ultimately show ?thesis using s2 by blast
    qed
  qed
qed

text \<open>Where a quoted amount comes from: this call's answer of Kraken, or a hit of the cache.\<close>

lemma get_ltp_quote:
  assumes "get_ltp u (legacy_cache ops) api c ps (s, k) = (Inr quotes, st')" and "q \<in> set quotes"
  shows "\<exists>symb. to_kraken_symbol u (quote_pair q) = Inr symb \<and>
    (answered u (legacy_cache ops) api c ps (s, k) symb (quote_amount q) \<or>
     (\<exists>xs. service_ops c (\<lambda>_ _. False) xs \<and> hit_after ops c s xs symb (quote_amount q)))"
proof -
  let ?pc = "legacy_cache ops"
  obtain s' k' where st': "st' = (s', k')" by fastforce
  from assms(1) [unfolded st'] show ?thesis
  proof (rule get_ltp_Inr)
    fix ns results needed s1 results'
    assume fc: "from_cache u ?pc c 0 ns [] [] s = (Inr (results, needed), s1)"
      and quotes: "quotes = sorted_quotes results'"
      and rest: "needed = [] \<and> results' = results \<and> s' = s1 \<and> k' = k \<or>
        (\<exists>prices. api_answer u ?pc api c ps (s, k) = Some (Inr prices) \<and> needed \<noteq> [] \<and>
          from_prices ?pc c (length ns + 1) needed prices results s1 = (Inr results', s'))"
    have ok: "gm_ok results" using from_cache_keys [OF fc] by (simp add: gm.ok_empty)
    have sup: "supplied ops u c s results []" using from_cache_trace [OF fc] by blast
    have hit: ?thesis if "gm_get results (quote_pair q) = Some (quote_amount q)"
      using sup that unfolding supplied_def by (fastforce simp: gm.lookup_empty)
    show ?thesis
      using rest
    proof
      assume "needed = [] \<and> results' = results \<and> s' = s1 \<and> k' = k"
      then show ?thesis using hit sorted_quotes_in [OF ok] assms(2) quotes by blast
    next
      assume "\<exists>prices. api_answer u ?pc api c ps (s, k) = Some (Inr prices) \<and> needed \<noteq> [] \<and>
          from_prices ?pc c (length ns + 1) needed prices results s1 = (Inr results', s')"
      then obtain prices where ans: "api_answer u ?pc api c ps (s, k) = Some (Inr prices)"
        and fp: "from_prices ?pc c (length ns + 1) needed prices results s1 = (Inr results', s')" by blast
      have "gm_ok results'" using from_prices_keys [OF fp ok] by simp
      then have "gm_get results' (quote_pair q) = Some (quote_amount q)"
        using sorted_quotes_in assms(2) quotes by blast
      from from_prices_results [OF fp this] show ?thesis
      proof
        assume "gm_get results (quote_pair q) = Some (quote_amount q)"
        then show ?thesis by (rule hit)
      next
        assume "\<exists>symb. (quote_pair q, symb) \<in> set needed \<and> gm_get prices symb = Some (quote_amount q)"
        then obtain symb where "(quote_pair q, symb) \<in> set needed" "gm_get prices symb = Some (quote_amount q)" by blast
        moreover from this(1) have "to_kraken_symbol u (quote_pair q) = Inr symb"
          by (rule from_cache_needed [OF fc, rotated]) simp
        ultimately show ?thesis using ans by (auto simp: answered_def)
      qed
    qed
  qed
qed

fun run_ltp :: "go_unicode \<Rightarrow> 's price_cache \<Rightarrow> 'k kraken_api \<Rightarrow> (clock \<times> string list) list \<Rightarrow> 's \<times> 'k \<Rightarrow> 's \<times> 'k" where
  "run_ltp u pc api [] st = st"
| "run_ltp u pc api ((c, ps) # calls) st = run_ltp u pc api calls (snd (get_ltp u pc api c ps st))"

text \<open>In the history \<open>calls\<close>, the call on clock \<open>c\<close> got the price \<open>p\<close> of \<open>symb\<close> from Kraken.\<close>

definition fetched ::
  "go_unicode \<Rightarrow> 's price_cache \<Rightarrow> 'k kraken_api \<Rightarrow> (clock \<times> string list) list \<Rightarrow> 's \<times> 'k \<Rightarrow> clock \<Rightarrow> string \<Rightarrow> f64 \<Rightarrow> bool" where
  "fetched u pc api calls st c symb p \<longleftrightarrow>
     (\<exists>as ps bs. calls = as @ (c, ps) # bs \<and> answered u pc api c ps (run_ltp u pc api as st) symb p)"

definition cache_calls_within :: "duration \<Rightarrow> clock \<Rightarrow> bool" where
  "cache_calls_within slack c \<longleftrightarrow> (\<forall>j. clock_within slack (in_call (in_call c j) 0))"

lemma service_ops_within:
  "service_ops c P xs \<Longrightarrow> cache_calls_within slack c \<Longrightarrow> \<forall>x\<in>set xs. clock_within slack (store_clock x)"
  unfolding service_ops_def cache_calls_within_def by fastforce

lemma run_ltp_trace:
  assumes "\<forall>(c, ps)\<in>set calls. cache_calls_within slack c"
  shows "\<exists>xs. fst (run_ltp u (legacy_cache ops) api calls st) = store_run ops xs (fst st) \<and>
    (\<forall>x\<in>set xs. clock_within slack (store_clock x)) \<and>
    (\<forall>c' symb v ttl. SSet c' symb v ttl \<in> set xs \<longrightarrow> ttl = 60 * second \<and>
      (\<exists>c j p. c' = in_call (in_call c j) 0 \<and> v = AnyFloat p \<and> fetched u (legacy_cache ops) api calls st c symb p))"
  using assms
proof (induction calls arbitrary: st)
  case Nil
  then show ?case by (intro exI [of _ "[]"]) simp
next
  case (Cons call calls)
  let ?pc = "legacy_cache ops"
  obtain c ps where call: "call = (c, ps)" by fastforce
  obtain s k where st: "st = (s, k)" by fastforce
  let ?st = "snd (get_ltp u ?pc api c ps (s, k))"
  obtain xs where xs: "fst ?st = store_run ops xs s" "service_ops c (answered u ?pc api c ps (s, k)) xs"
    using get_ltp_trace [of u ops api c ps s k] by blast
  obtain ys where ys: "fst (run_ltp u ?pc api calls ?st) = store_run ops ys (fst ?st)"
    "\<forall>x\<in>set ys. clock_within slack (store_clock x)"
    "\<forall>c' symb v ttl. SSet c' symb v ttl \<in> set ys \<longrightarrow> ttl = 60 * second \<and>
      (\<exists>c j p. c' = in_call (in_call c j) 0 \<and> v = AnyFloat p \<and> fetched u ?pc api calls ?st c symb p)"
    using Cons.IH [of ?st] Cons.prems by auto
  have later: "fetched u ?pc api calls ?st c' symb p \<Longrightarrow> fetched u ?pc api (call # calls) st c' symb p" for c' symb p
  proof -
    assume "fetched u ?pc api calls ?st c' symb p"
    then obtain as qs bs where "calls = as @ (c', qs) # bs" "answered u ?pc api c' qs (run_ltp u ?pc api as ?st) symb p"
      unfolding fetched_def by blast
    then have "call # calls = ((c, ps) # as) @ (c', qs) # bs"
      "answered u ?pc api c' qs (run_ltp u ?pc api ((c, ps) # as) st) symb p" by (simp_all add: call st)
    then show ?thesis unfolding fetched_def by blast
  qed
  have first: "answered u ?pc api c ps (s, k) symb p \<Longrightarrow> fetched u ?pc api (call # calls) st c symb p" for symb p
    unfolding fetched_def by (intro exI [of _ "[]"] exI [of _ ps] exI [of _ calls]) (simp add: call st)
  have "cache_calls_within slack c" using Cons.prems by (simp add: call)
  then have "\<forall>x\<in>set xs. clock_within slack (store_clock x)" by (rule service_ops_within [OF xs(2)])
  then have within: "\<forall>x\<in>set (xs @ ys). clock_within slack (store_clock x)" using ys(2) by auto
  have sets: "ttl = 60 * second \<and> (\<exists>c j p. c' = in_call (in_call c j) 0 \<and> v = AnyFloat p \<and>
      fetched u ?pc api (call # calls) st c symb p)" if mem: "SSet c' symb v ttl \<in> set (xs @ ys)" for c' symb v ttl
  proof (cases "SSet c' symb v ttl \<in> set ys")
    case True
    then show ?thesis using ys(3) later by blast
  next
    case False
    then have "SSet c' symb v ttl \<in> set xs" using mem by simp
    then obtain j p where "c' = in_call (in_call c j) 0" "v = AnyFloat p" "ttl = 60 * second"
      "answered u ?pc api c ps (s, k) symb p" using xs(2) unfolding service_ops_def by fastforce
    then show ?thesis using first by blast
  qed
  have "fst (run_ltp u ?pc api (call # calls) st) = store_run ops (xs @ ys) (fst st)"
    using xs(1) ys(1) by (simp add: call st store_run_append)
  then show ?case using within sets by blast
qed

context value_store begin

text \<open>A quote that is not this call's answer was stored, not longer ago than its lifetime.\<close>

lemma quote_accounted:
  assumes "ok s" and "accounted H s" and "cache_calls_within slack c" and "mono_clock c"
    and res: "get_ltp u (legacy_cache ops) api c ps (s, k) = (Inr quotes, st')" and q: "q \<in> set quotes"
  shows "\<exists>symb. to_kraken_symbol u (quote_pair q) = Inr symb \<and>
    (answered u (legacy_cache ops) api c ps (s, k) symb (quote_amount q) \<or>
     (\<exists>c' ttl. SSet c' symb (AnyFloat (quote_amount q)) ttl \<in> set H \<and> c [] \<le> c' [] + life ttl))"
proof -
  let ?p = "quote_amount q"
  obtain symb where symb: "to_kraken_symbol u (quote_pair q) = Inr symb"
    and src: "answered u (legacy_cache ops) api c ps (s, k) symb ?p \<or>
      (\<exists>ys. service_ops c (\<lambda>_ _. False) ys \<and> hit_after ops c s ys symb ?p)"
    using get_ltp_quote [OF res q] by blast
  have "\<exists>c' ttl. SSet c' symb (AnyFloat ?p) ttl \<in> set H \<and> c [] \<le> c' [] + life ttl"
    if ys: "service_ops c (\<lambda>_ _. False) ys" and hit: "hit_after ops c s ys symb ?p" for ys
  proof -
    obtain i where h: "fst (op_get ops (in_call (in_call c i) 0) symb (store_run ops ys s)) = Inr (Some (AnyFloat ?p))"
      using hit by (auto simp: hit_after_def)
    have "clock_within slack (in_call (in_call c i) 0)" using assms(3) by (simp add: cache_calls_within_def)
    from accounted_hit [OF assms(1,2) service_ops_within [OF ys assms(3)] this h]
    obtain c' ttl where set: "SSet c' symb (AnyFloat ?p) ttl \<in> set (H @ ys)"
      and age: "in_call (in_call c i) 0 [] \<le> c' [] + life ttl" by blast
    have "SSet c' symb (AnyFloat ?p) ttl \<notin> set ys" using ys unfolding service_ops_def by auto
    moreover have "c [] \<le> in_call (in_call c i) 0 []" using assms(4) by (simp add: in_call_def mono_clockD)
    ultimately show ?thesis using set age by (intro exI [of _ c'] exI [of _ ttl]) auto
  qed
  then show ?thesis using symb src by blast
qed

lemma quote_is_fresh:
  assumes "ok s" and "\<And>k. serves s k = {}"
    and "\<forall>(c, ps)\<in>set calls. cache_calls_within slack c" and "cache_calls_within slack c" and "mono_clock c"
    and res: "get_ltp u (legacy_cache ops) api c ps (run_ltp u (legacy_cache ops) api calls (s, k)) = (Inr quotes, st')"
    and q: "q \<in> set quotes"
  shows "\<exists>symb. to_kraken_symbol u (quote_pair q) = Inr symb \<and>
    (answered u (legacy_cache ops) api c ps (run_ltp u (legacy_cache ops) api calls (s, k)) symb (quote_amount q) \<or>
     (\<exists>c' j. fetched u (legacy_cache ops) api calls (s, k) c' symb (quote_amount q) \<and>
        c [] \<le> c' [j, 0] + life (60 * second)))"
proof -
  let ?pc = "legacy_cache ops"
  obtain s1 k1 where run: "run_ltp u ?pc api calls (s, k) = (s1, k1)" by fastforce
  obtain xs where xs: "s1 = store_run ops xs s" "\<forall>x\<in>set xs. clock_within slack (store_clock x)"
    "\<forall>c' symb v ttl. SSet c' symb v ttl \<in> set xs \<longrightarrow> ttl = 60 * second \<and>
      (\<exists>c j p. c' = in_call (in_call c j) 0 \<and> v = AnyFloat p \<and> fetched u ?pc api calls (s, k) c symb p)"
    using run_ltp_trace [OF assms(3), of u ops api "(s, k)"] run by auto
  have "accounted [] s" using assms(2) by (simp add: accounted_def)
  then have acc: "accounted xs s1" "ok s1" using accounted_run [OF assms(1) xs(2), of "[]"] xs(1) by simp_all
  obtain symb where symb: "to_kraken_symbol u (quote_pair q) = Inr symb"
    and src: "answered u ?pc api c ps (s1, k1) symb (quote_amount q) \<or>
      (\<exists>c' ttl. SSet c' symb (AnyFloat (quote_amount q)) ttl \<in> set xs \<and> c [] \<le> c' [] + life ttl)"
    using quote_accounted [OF acc(2,1) assms(4,5) res [unfolded run] q] by blast
  have "\<exists>c' j. fetched u ?pc api calls (s, k) c' symb (quote_amount q) \<and> c [] \<le> c' [j, 0] + life (60 * second)"
    if "SSet c' symb (AnyFloat (quote_amount q)) ttl \<in> set xs" and "c [] \<le> c' [] + life ttl" for c' ttl
    using xs(3) that by (fastforce simp: in_call_def)
  then show ?thesis using symb src run by auto
qed

end

end
