(* ===== verification/Health.thy ===== *)
theory Health
  imports Ltp_Service
begin

text \<open>
  \<open>internal/health\<close>: the checker and its checks.  A check runs on the clock of its call
  and the state of the world \<open>'w\<close>.  A nil interface is \<open>None\<close>.
\<close>

declare One_nat_def [simp del]

datatype health_status = StatusHealthy | StatusUnhealthy

record check_result =
  check_name :: string
  check_status :: health_status
  check_error :: string

record health_response =
  resp_status :: health_status
  resp_checks :: "check_result list"

type_synonym 'w health_check = "clock \<Rightarrow> 'w \<Rightarrow> check_result \<times> 'w"

type_synonym 'w checker = "'w health_check list"

definition new_checker :: "'w checker" where
  "new_checker = []"

definition add_check :: "'w health_check \<Rightarrow> 'w checker \<Rightarrow> 'w checker" where
  "add_check check checks = checks @ [check]"

definition checker_health_check :: "health_response" where
  "checker_health_check = \<lparr>resp_status = StatusHealthy, resp_checks = []\<rparr>"

fun run_checks ::
  "'w checker \<Rightarrow> clock \<Rightarrow> nat \<Rightarrow> check_result list \<Rightarrow> health_status \<Rightarrow> 'w \<Rightarrow> health_response \<times> 'w" where
  "run_checks [] c i results overall w = (\<lparr>resp_status = overall, resp_checks = results\<rparr>, w)"
| "run_checks (check # checks) c i results overall w =
     (let (result, w) = check (in_call c i) w
      in run_checks checks c (i + 1) (results @ [result])
           (if check_status result = StatusUnhealthy then StatusUnhealthy else overall) w)"

definition readiness_check :: "'w checker \<Rightarrow> clock \<Rightarrow> 'w \<Rightarrow> health_response \<times> 'w" where
  "readiness_check checks c w =
     (if checks = [] then (\<lparr>resp_status = StatusHealthy, resp_checks = []\<rparr>, w)
      else run_checks checks c 0 [] StatusHealthy w)"

subsection \<open>The checks\<close>

definition cache_check :: "'s price_cache option \<Rightarrow> 's health_check" where
  "cache_check cache c s =
     (case cache of
        None \<Rightarrow> (\<lparr>check_name = ''cache'', check_status = StatusUnhealthy, check_error = ''cache is nil''\<rparr>, s)
      | Some _ \<Rightarrow> (\<lparr>check_name = ''cache'', check_status = StatusHealthy, check_error = []\<rparr>, s))"

definition legacy_cache_check :: "'s price_cache option \<Rightarrow> 's health_check" where
  "legacy_cache_check cache c s =
     (case cache of
        None \<Rightarrow>
          (\<lparr>check_name = ''legacy_cache'', check_status = StatusUnhealthy, check_error = ''cache is nil''\<rparr>, s)
      | Some pc \<Rightarrow>
          (let test_key = ''health_check'';
               test_value = to_f64 (12345 / 100);
               s = pc_set pc (in_call c 0) test_key test_value s;
               (found, s) = pc_get pc (in_call c 1) test_key s
           in if (case found of Some v \<Rightarrow> f64_eq v test_value | None \<Rightarrow> False) then
                (\<lparr>check_name = ''legacy_cache'', check_status = StatusHealthy, check_error = []\<rparr>, s)
              else
                (\<lparr>check_name = ''legacy_cache'', check_status = StatusUnhealthy,
                  check_error = ''cache read/write test failed''\<rparr>, s)))"

text \<open>The client is called with a context that ends after two seconds.\<close>

definition kraken_check :: "(duration \<Rightarrow> 'k kraken_api) option \<Rightarrow> 'k health_check" where
  "kraken_check client c k =
     (case client of
        None \<Rightarrow>
          (\<lparr>check_name = ''kraken_api'', check_status = StatusUnhealthy, check_error = ''kraken client is nil''\<rparr>, k)
      | Some api \<Rightarrow>
          (case api (2 * second) (in_call c 0) [''XBTUSD''] k of
             (Inl err, k) \<Rightarrow>
               (\<lparr>check_name = ''kraken_api'', check_status = StatusUnhealthy,
                 check_error = ''kraken API health check failed: '' @ err_text err\<rparr>, k)
           | (Inr _, k) \<Rightarrow>
               (\<lparr>check_name = ''kraken_api'', check_status = StatusHealthy, check_error = []\<rparr>, k)))"

subsection \<open>Properties\<close>

text \<open>The results of the checks, run one after the other.\<close>

fun check_results :: "'w checker \<Rightarrow> clock \<Rightarrow> nat \<Rightarrow> 'w \<Rightarrow> check_result list \<times> 'w" where
  "check_results [] c i w = ([], w)"
| "check_results (check # checks) c i w =
     (let (result, w) = check (in_call c i) w; (rs, w) = check_results checks c (i + 1) w
      in (result # rs, w))"

lemma run_checks_eq:
  "run_checks checks c i results overall w =
     (let (rs, w) = check_results checks c i w
      in (\<lparr>resp_status = (if \<exists>r\<in>set rs. check_status r = StatusUnhealthy then StatusUnhealthy else overall),
           resp_checks = results @ rs\<rparr>, w))"
  by (induction checks c i results overall w rule: run_checks.induct) (auto simp: split_beta Let_def)

text \<open>
  Readiness runs every check once, in order, and is unhealthy exactly when one of
  them is.
\<close>

theorem readiness_is_conjunction:
  "readiness_check checks c w =
     (let (rs, w') = check_results checks c 0 w
      in (\<lparr>resp_status = (if \<exists>r\<in>set rs. check_status r = StatusUnhealthy then StatusUnhealthy else StatusHealthy),
           resp_checks = rs\<rparr>, w'))"
  by (cases checks) (simp_all add: readiness_check_def run_checks_eq)

end
