(* ===== verification/Http_Server.thy ===== *)
theory Http_Server
  imports Rate_Limiter Health
begin

text \<open>
  \<open>internal/httpserver/server.go\<close> and \<open>internal/resp/response.go\<close>: the response
  writer, the handlers, the middleware and their order.  The service behind the server
  is its \<open>LTPProvider\<close> interface on a state \<open>'w\<close>; the checks share that state.  The
  Prometheus handler, the serving of a file, and what \<open>ServeMux\<close> does with a path that is
  not registered are parameters.
\<close>

declare One_nat_def [simp del]

subsection \<open>Responses\<close>

datatype body_part =
    JsonError string
  | JsonQuotes "quote list"
  | JsonHealth health_response
  | PlainText string
  | OtherBody string

text \<open>
  The first \<open>WriteHeader\<close> or \<open>Write\<close> fixes status and headers.  \<open>captured\<close> is the
  \<open>statusCode\<close> of the \<open>responseWriter\<close> that \<open>metricsMiddleware\<close> wraps around the
  writer: it follows every \<open>WriteHeader\<close>, also one that comes too late.
\<close>

type_synonym headers = "string \<Rightarrow> string option"

record response =
  res_header :: headers
  res_sent :: "(int \<times> headers) option"
  res_body :: "body_part list"
  captured :: int

definition new_response :: response where
  "new_response = \<lparr>res_header = (\<lambda>_. None), res_sent = None, res_body = [], captured = 200\<rparr>"

definition set_header :: "string \<Rightarrow> string \<Rightarrow> response \<Rightarrow> response" where
  "set_header k v w = w\<lparr>res_header := (res_header w)(k \<mapsto> v)\<rparr>"

definition write_header :: "int \<Rightarrow> response \<Rightarrow> response" where
  "write_header code w =
     (let w = w\<lparr>captured := code\<rparr>
      in case res_sent w of None \<Rightarrow> w\<lparr>res_sent := Some (code, res_header w)\<rparr> | Some _ \<Rightarrow> w)"

definition write_body :: "body_part \<Rightarrow> response \<Rightarrow> response" where
  "write_body b w =
     (let w = (case res_sent w of None \<Rightarrow> w\<lparr>res_sent := Some (200, res_header w)\<rparr> | Some _ \<Rightarrow> w)
      in w\<lparr>res_body := res_body w @ [b]\<rparr>)"

text \<open>The status the client sees: 200 when the handler wrote nothing.\<close>

definition final_status :: "response \<Rightarrow> int" where
  "final_status w = (case res_sent w of None \<Rightarrow> 200 | Some (code, _) \<Rightarrow> code)"

text \<open>\<open>json.Encoder.Encode\<close> writes nothing when a number is not finite.\<close>

fun is_finite :: "f64 \<Rightarrow> bool" where
  "is_finite (Fin _) = True"
| "is_finite _ = False"

definition encode_quotes :: "quote list \<Rightarrow> response \<Rightarrow> response" where
  "encode_quotes qs w =
     (if \<forall>q\<in>set qs. is_finite (quote_amount q) then write_body (JsonQuotes qs) w else w)"

definition resp_json_error :: "int \<Rightarrow> string \<Rightarrow> response \<Rightarrow> response" where
  "resp_json_error code msg w =
     write_body (JsonError msg) (write_header code (set_header ''Content-Type'' ''application/json'' w))"

text \<open>\<open>http.Error\<close> of the standard library.\<close>

definition http_error :: "string \<Rightarrow> int \<Rightarrow> response \<Rightarrow> response" where
  "http_error msg code w =
     write_body (PlainText (msg @ [CHR 0x0A]))
       (write_header code
          (set_header ''X-Content-Type-Options'' ''nosniff''
             (set_header ''Content-Type'' ''text/plain; charset=utf-8'' w)))"

subsection \<open>The server\<close>

datatype http_metric =
    HTTPRequests string string string
  | HTTPDuration string string string f64

datatype server_log = AccessLog string string | SvcError go_error | PanicLog string

text \<open>The fields of \<open>http.Server\<close> that are set; its handler is \<open>server_handler\<close> below.\<close>

record http_server =
  hs_addr :: string
  read_header_timeout :: duration
  read_timeout :: duration
  write_timeout :: duration
  idle_timeout :: duration

record 'w server =
  addr :: string
  http_srv :: http_server
  svc :: "clock \<Rightarrow> string list \<Rightarrow> 'w \<Rightarrow> (go_error + quote list) \<times> 'w"
  health_checker :: "'w checker"
  limiter :: rate_limiter
  world :: 'w
  http_metrics :: "http_metric list"
  server_log :: "server_log list"
  rl_gauges :: "(int \<times> f64) option"

definition new_server ::
  "instant \<Rightarrow> string \<Rightarrow> (clock \<Rightarrow> string list \<Rightarrow> 'w \<Rightarrow> (go_error + quote list) \<times> 'w) \<Rightarrow> 'w \<Rightarrow>
   string + 'w server" where
  "new_server now listen_addr provider w =
     (case new_rate_limiter now default_rl_config of
        Inl panic \<Rightarrow> Inl panic
      | Inr rl \<Rightarrow>
          Inr \<lparr>addr = listen_addr,
               http_srv =
                 \<lparr>hs_addr = listen_addr, read_header_timeout = 5 * second, read_timeout = 10 * second,
                  write_timeout = 15 * second, idle_timeout = 60 * second\<rparr>,
               svc = provider, health_checker = new_checker, limiter = rl, world = w, http_metrics = [],
               server_log = [], rl_gauges = None\<rparr>)"

definition add_health_check :: "'w health_check \<Rightarrow> 'w server \<Rightarrow> 'w server" where
  "add_health_check check s = s\<lparr>health_checker := add_check check (health_checker s)\<rparr>"

text \<open>\<open>http_shutdown\<close> is the error of \<open>http.Server.Shutdown\<close>.\<close>

definition shutdown :: "(http_server \<Rightarrow> go_error option) \<Rightarrow> 'w server \<Rightarrow> string + go_error option \<times> 'w server" where
  "shutdown http_shutdown s =
     (case limiter_stop (limiter s) of
        Inl panic \<Rightarrow> Inl panic
      | Inr rl \<Rightarrow> Inr (http_shutdown (http_srv s), s\<lparr>limiter := rl\<rparr>))"

definition get_rate_limit_stats :: "instant \<Rightarrow> 'w server \<Rightarrow> rl_stats \<times> 'w server" where
  "get_rate_limit_stats now s = (let (st, rl) = get_stats now (limiter s) in (st, s\<lparr>limiter := rl\<rparr>))"

definition update_rate_limit_metrics :: "instant \<Rightarrow> 'w server \<Rightarrow> 'w server" where
  "update_rate_limit_metrics now s =
     (let (st, rl) = get_stats now (limiter s)
      in s\<lparr>limiter := rl, rl_gauges := Some (stat_global_tokens st, stat_global_utilization st)\<rparr>)"

subsection \<open>Handlers\<close>

text \<open>A handler returns or panics; what it did before stays.\<close>

datatype outcome = Returned | Panicked string

type_synonym 'w handler =
  "clock \<Rightarrow> http_request \<Rightarrow> response \<times> 'w server \<Rightarrow> outcome \<times> response \<times> 'w server"

fun trimmed_parts :: "go_unicode \<Rightarrow> string list \<Rightarrow> string list" where
  "trimmed_parts u [] = []"
| "trimmed_parts u (p # ps) =
     (let p = trim_space u p in if p \<noteq> [] then p # trimmed_parts u ps else trimmed_parts u ps)"

definition requested_pairs :: "go_unicode \<Rightarrow> http_request \<Rightarrow> string list" where
  "requested_pairs u r =
     (let p = values_get (req_query r) ''pair'' in
      if p \<noteq> [] then [p]
      else
        (let ps = values_get (req_query r) ''pairs'' in
         if ps \<noteq> [] then trimmed_parts u (split_on CHR '','' ps)
         else [''BTC/USD'', ''BTC/CHF'', ''BTC/EUR'']))"

definition handle_ltp :: "go_unicode \<Rightarrow> 'w handler" where
  "handle_ltp u c r st =
     (let (w, s) = st in
      if req_method r \<noteq> ''GET'' then (Returned, resp_json_error 405 ''method not allowed'' w, s)
      else
        (let pairs = requested_pairs u r in
         if pairs = [] then
           (Returned, resp_json_error 400 (''query param '' @ [CHR 0x27] @ ''pair'' @ [CHR 0x27] @ '' or '' @
              [CHR 0x27] @ ''pairs'' @ [CHR 0x27] @ '' is required'') w, s)
         else
           (let (res, x) = svc s (in_call c 0) pairs (world s);
                s = s\<lparr>world := x\<rparr>
            in case res of
                 Inl err \<Rightarrow>
                   (case as_handler_error err of
                      Some (code, msg) \<Rightarrow> (Returned, resp_json_error code msg w, s)
                    | None \<Rightarrow>
                        (Returned, resp_json_error 500 ''internal error'' w,
                         s\<lparr>server_log := server_log s @ [SvcError err]\<rparr>))
               | Inr quotes \<Rightarrow>
                   (Returned, encode_quotes quotes (set_header ''Content-Type'' ''application/json'' w), s))))"

definition write_health :: "health_response \<Rightarrow> response \<Rightarrow> response" where
  "write_health hr w =
     (let code = (if resp_status hr = StatusUnhealthy then 503 else 200)
      in write_body (JsonHealth hr) (write_header code (set_header ''Content-Type'' ''application/json'' w)))"

definition handle_health :: "'w handler" where
  "handle_health c r st =
     (let (w, s) = st in
      if req_method r \<noteq> ''GET'' then (Returned, resp_json_error 405 ''method not allowed'' w, s)
      else (Returned, write_health checker_health_check w, s))"

definition handle_ready :: "'w handler" where
  "handle_ready c r st =
     (let (w, s) = st in
      if req_method r \<noteq> ''GET'' then (Returned, resp_json_error 405 ''method not allowed'' w, s)
      else
        (let (hr, x) = readiness_check (health_checker s) (in_call c 0) (world s)
         in (Returned, write_health hr w, s\<lparr>world := x\<rparr>)))"

text \<open>The file system: whether \<open>os.Stat\<close> says that the file does not exist, and \<open>http.ServeFile\<close>.\<close>

definition handle_open_api :: "bool \<Rightarrow> (http_request \<Rightarrow> response \<Rightarrow> response) \<Rightarrow> 'w handler" where
  "handle_open_api missing serve_file c r st =
     (let (w, s) = st in
      if req_method r \<noteq> ''GET'' then (Returned, http_error ''Method not allowed'' 405 w, s)
      else if missing then (Returned, http_error ''OpenAPI specification not found'' 404 w, s)
      else
        (Returned, serve_file r (set_header ''Access-Control-Allow-Origin'' ''*''
           (set_header ''Content-Type'' ''application/yaml'' w)), s))"

text \<open>The page, one text per line; \<open>`\<close> stands for the double quote and \<open>^\<close> for the single one.\<close>

fun html_char :: "char \<Rightarrow> char" where
  "html_char c = (if c = CHR ''`'' then CHR 0x22 else if c = CHR ''^'' then CHR 0x27 else c)"

definition swagger_html :: string where
  "swagger_html = map html_char (str_join [CHR 0x0A]
     [''<!DOCTYPE html>'',
      ''<html lang=`en`>'',
      ''<head>'',
      ''    <meta charset=`utf-8` />'',
      ''    <meta name=`viewport` content=`width=device-width, initial-scale=1` />'',
      ''    <title>Bitcoin LTP API Documentation</title>'',
      ''    <link rel=`stylesheet` href=`https://unpkg.com/swagger-ui-dist@5.9.0/swagger-ui.css` />'',
      ''</head>'',
      ''<body>'',
      ''    <div id=`swagger-ui`></div>'',
      ''    <script src=`https://unpkg.com/swagger-ui-dist@5.9.0/swagger-ui-bundle.js`></script>'',
      ''    <script src=`https://unpkg.com/swagger-ui-dist@5.9.0/swagger-ui-standalone-preset.js`></script>'',
      ''    <script>'',
      ''        window.onload = () => {'',
      ''            window.ui = SwaggerUIBundle({'',
      ''                url: ^/openapi.yaml^,'',
      ''                dom_id: ^#swagger-ui^,'',
      ''                presets: ['',
      ''                    SwaggerUIBundle.presets.apis,'',
      ''                    SwaggerUIStandalonePreset'',
      ''                ],'',
      ''                layout: `StandaloneLayout`,'',
      ''                tryItOutEnabled: true,'',
      ''                filter: true,'',
      ''                displayOperationId: false,'',
      ''                displayRequestDuration: true,'',
      ''            });'',
      ''        };'',
      ''    </script>'',
      ''</body>'',
      ''</html>''])"

definition handle_swagger_ui :: "'w handler" where
  "handle_swagger_ui c r st =
     (let (w, s) = st in
      if req_method r \<noteq> ''GET'' then (Returned, http_error ''Method not allowed'' 405 w, s)
      else
        (Returned, write_body (PlainText swagger_html) (write_header 200
           (set_header ''Access-Control-Allow-Origin'' ''*''
             (set_header ''Content-Type'' ''text/html; charset=utf-8'' w))), s))"

subsection \<open>Middleware\<close>

definition cors :: "'w handler \<Rightarrow> 'w handler" where
  "cors next c r st =
     (let (w, s) = st;
          w = set_header ''Access-Control-Allow-Headers'' ''Content-Type''
                (set_header ''Access-Control-Allow-Methods'' ''GET, OPTIONS''
                   (set_header ''Access-Control-Allow-Origin'' ''*'' w))
      in if req_method r = ''OPTIONS'' then (Returned, write_header 200 w, s)
         else next (in_call c 0) r (w, s))"

definition logging :: "'w handler \<Rightarrow> 'w handler" where
  "logging next c r st =
     (case next (in_call c 1) r st of
        (Returned, w, s) \<Rightarrow>
          (Returned, w, s\<lparr>server_log := server_log s @ [AccessLog (req_method r) (req_url r)]\<rparr>)
      | (Panicked p, w, s) \<Rightarrow> (Panicked p, w, s))"

definition recovery :: "'w handler \<Rightarrow> 'w handler" where
  "recovery next c r st =
     (case next (in_call c 0) r st of
        (Returned, w, s) \<Rightarrow> (Returned, w, s)
      | (Panicked p, w, s) \<Rightarrow>
          (Returned, resp_json_error 500 ''internal server error'' w,
           s\<lparr>server_log := server_log s @ [PanicLog p]\<rparr>))"

text \<open>
  The client library panics in \<open>WithLabelValues\<close> when a label value is not acceptable to
  it (it has to be UTF-8): \<open>valid\<close> is that check.  Nothing in the chain in front of this
  middleware recovers.
\<close>

definition metrics_middleware :: "(string \<Rightarrow> bool) \<Rightarrow> 'w handler \<Rightarrow> 'w handler" where
  "metrics_middleware valid next c r st =
     (let (w, s) = st; start = now_at c 0 in
      case next (in_call c 1) r (w\<lparr>captured := 200\<rparr>, s) of
        (Returned, w, s) \<Rightarrow>
          (let duration = duration_seconds (time_sub (now_at c 2) start);
               status = itoa (captured w)
           in if valid (req_method r) \<and> valid (req_path r) \<and> valid status then
                (Returned, w, s\<lparr>http_metrics := http_metrics s @
                  [HTTPRequests (req_method r) (req_path r) status,
                   HTTPDuration (req_method r) (req_path r) status duration]\<rparr>)
              else (Panicked ''label value is not valid UTF-8'', w, s))
      | (Panicked p, w, s) \<Rightarrow> (Panicked p, w, s))"

definition rate_limit_middleware :: "'w handler \<Rightarrow> 'w handler" where
  "rate_limit_middleware next c r st =
     (if req_path r = ''/health'' \<or> req_path r = ''/ready'' \<or> req_path r = ''/metrics'' then
        next (in_call c 0) r st
      else
        (let (w, s) = st;
             ip = extract_ip r;
             (res, rl) = limiter_allow (in_call c 0) ip (limiter s);
             s = s\<lparr>limiter := rl\<rparr>
         in case res of
              Inl panic \<Rightarrow> (Panicked panic, w, s)
            | Inr allowed \<Rightarrow>
                if \<not> allowed then (Returned, resp_json_error 429 ''rate limit exceeded'' w, s)
                else next (in_call c 1) r (w, s)))"

text \<open>The handlers that are not the server's own.\<close>

record 'w externals =
  ext_metrics :: "'w handler"
  ext_valid_label :: "string \<Rightarrow> bool"
  ext_other_path :: "'w handler"
  ext_file_missing :: bool
  ext_serve_file :: "http_request \<Rightarrow> response \<Rightarrow> response"

definition mux :: "go_unicode \<Rightarrow> 'w externals \<Rightarrow> 'w handler" where
  "mux u ext c r st =
     (if req_path r = ''/api/v1/ltp'' then handle_ltp u c r st
      else if req_path r = ''/health'' then handle_health c r st
      else if req_path r = ''/ready'' then handle_ready c r st
      else if req_path r = ''/openapi.yaml'' then handle_open_api (ext_file_missing ext) (ext_serve_file ext) c r st
      else if req_path r = ''/docs'' then handle_swagger_ui c r st
      else if req_path r = ''/metrics'' then ext_metrics ext c r st
      else ext_other_path ext c r st)"

definition server_handler :: "go_unicode \<Rightarrow> 'w externals \<Rightarrow> 'w handler" where
  "server_handler u ext =
     cors (logging (rate_limit_middleware (metrics_middleware (ext_valid_label ext) (recovery (mux u ext)))))"

subsection \<open>Lemmas on responses and handlers\<close>

lemma response_simps [simp]:
  "res_sent (set_header k v w) = res_sent w" "res_body (set_header k v w) = res_body w"
  "captured (set_header k v w) = captured w"
  "res_body (write_header code w) = res_body w" "captured (write_header code w) = code"
  "res_body (write_body b w) = res_body w @ [b]" "captured (write_body b w) = captured w"
  by (simp_all add: set_header_def write_header_def write_body_def Let_def split: option.split)

lemma final_status_simps [simp]:
  "final_status (set_header k v w) = final_status w"
  "final_status (write_body b w) = final_status w"
  "res_sent w = None \<Longrightarrow> final_status (write_header code w) = code"
  by (simp_all add: final_status_def set_header_def write_header_def write_body_def Let_def split: option.split)

lemma resp_json_error_simps [simp]:
  "res_body (resp_json_error code msg w) = res_body w @ [JsonError msg]"
  "captured (resp_json_error code msg w) = code"
  "res_sent w = None \<Longrightarrow> final_status (resp_json_error code msg w) = code"
  by (simp_all add: resp_json_error_def)

lemma http_error_simps [simp]:
  "captured (http_error msg code w) = code"
  "res_sent w = None \<Longrightarrow> final_status (http_error msg code w) = code"
  by (simp_all add: http_error_def)

lemma write_health_simps [simp]:
  "captured (write_health hr w) = (if resp_status hr = StatusUnhealthy then 503 else 200)"
  "res_sent w = None \<Longrightarrow> final_status (write_health hr w) = (if resp_status hr = StatusUnhealthy then 503 else 200)"
  by (simp_all add: write_health_def Let_def)

lemma encode_quotes_simps [simp]:
  "captured (encode_quotes qs w) = captured w" "final_status (encode_quotes qs w) = final_status w"
  by (simp_all add: encode_quotes_def)

lemma fresh_status [simp]: "res_sent w = None \<Longrightarrow> final_status w = 200"
  by (simp add: final_status_def)

lemma captured_same [simp]:
  "res_sent (w\<lparr>captured := n\<rparr>) = res_sent w" "res_body (w\<lparr>captured := n\<rparr>) = res_body w"
  "final_status (w\<lparr>captured := n\<rparr>) = final_status w"
  by (simp_all add: final_status_def split: option.split)

text \<open>The server's own handlers return, leave limiter and metrics alone, and report the status they set.\<close>

definition own_paths :: "string set" where
  "own_paths = {''/api/v1/ltp'', ''/health'', ''/ready'', ''/docs''}"

lemma own_handlers:
  assumes "req_path r \<in> own_paths" and "res_sent w = None" and "captured w = 200"
    and "mux u ext c r (w, s) = (out, w', s')"
  shows "out = Returned" and "limiter s' = limiter s" and "http_metrics s' = http_metrics s"
    and "captured w' = final_status w'"
  using assms
  by (auto simp: mux_def own_paths_def handle_ltp_def handle_health_def handle_ready_def handle_swagger_ui_def
      Let_def split_beta split: if_splits sum.splits option.splits prod.splits)

lemma recovery_returns: "fst (recovery next c r st) = Returned"
  by (simp add: recovery_def split: prod.split outcome.split)

text \<open>The library accepts ASCII, and so the text of every status.\<close>

definition accepts_ascii :: "(string \<Rightarrow> bool) \<Rightarrow> bool" where
  "accepts_ascii valid \<longleftrightarrow> (\<forall>s. is_ascii s \<longrightarrow> valid s)"

lemma nat_digits_ascii: "is_ascii (nat_digits n)"
proof (induction n rule: nat_digits.induct)
  case (1 n)
  have "(48 + n mod 10) mod 256 < (128::nat)" by (simp add: mod_less)
  then show ?case using 1
    by (subst nat_digits.simps) (auto simp: is_ascii_def byte_def of_char_of take_bit_eq_mod)
qed

lemma itoa_ascii: "is_ascii (itoa i)"
  using nat_digits_ascii by (simp add: itoa_def is_ascii_def byte_def)

text \<open>The labels of a request are acceptable.\<close>

definition labels_ok :: "(string \<Rightarrow> bool) \<Rightarrow> http_request \<Rightarrow> bool" where
  "labels_ok valid r \<longleftrightarrow> valid (req_method r) \<and> valid (req_path r)"

lemma labels_valid:
  assumes "accepts_ascii valid" and "labels_ok valid r"
  shows "valid (req_method r)" and "valid (req_path r)" and "valid (itoa n)"
  using assms itoa_ascii by (auto simp: labels_ok_def accepts_ascii_def)

lemma metrics_returns:
  assumes "accepts_ascii valid" and "labels_ok valid r"
  shows "fst (metrics_middleware valid (recovery next) c r st) = Returned"
proof -
  obtain w s where st: "st = (w, s)" by fastforce
  obtain w' s' where "recovery next (in_call c 1) r (w\<lparr>captured := 200\<rparr>, s) = (Returned, w', s')"
    using recovery_returns [of "next" "in_call c 1" r "(w\<lparr>captured := 200\<rparr>, s)"] by (metis prod.collapse)
  then show ?thesis by (simp add: metrics_middleware_def st Let_def labels_valid [OF assms])
qed

lemma limiter_no_panic:
  assumes "per_ip_refill_rate (config rl) \<noteq> 0"
  obtains b rl' where "limiter_allow c ip rl = (Inr b, rl')"
  using limiter_allow_result [OF assms] by (metis prod.collapse)

subsection \<open>What a request keeps of the server\<close>

definition handler_keeps :: "('w server \<Rightarrow> bool) \<Rightarrow> 'w handler \<Rightarrow> bool" where
  "handler_keeps I h \<longleftrightarrow> (\<forall>c r w s. I s \<longrightarrow> I (snd (snd (h c r (w, s)))))"

text \<open>The changes that the server's own code makes to its state while it handles a request.\<close>

definition stable :: "('w server \<Rightarrow> bool) \<Rightarrow> bool" where
  "stable I \<longleftrightarrow> (\<forall>s. I s \<longrightarrow>
     (\<forall>c ps. I (s\<lparr>world := snd (svc s c ps (world s))\<rparr>)) \<and>
     (\<forall>c. I (s\<lparr>world := snd (readiness_check (health_checker s) c (world s))\<rparr>)) \<and>
     (\<forall>c ip. I (s\<lparr>limiter := snd (limiter_allow c ip (limiter s))\<rparr>)) \<and>
     (\<forall>xs. I (s\<lparr>server_log := xs\<rparr>)) \<and> (\<forall>xs. I (s\<lparr>http_metrics := xs\<rparr>)))"

lemma stableD:
  assumes "stable I" and "I s"
  shows "I (s\<lparr>world := snd (svc s c ps (world s))\<rparr>)"
    and "I (s\<lparr>world := snd (readiness_check (health_checker s) c (world s))\<rparr>)"
    and "I (s\<lparr>limiter := snd (limiter_allow c ip (limiter s))\<rparr>)"
    and "I (s\<lparr>server_log := xs\<rparr>)" and "I (s\<lparr>http_metrics := ms\<rparr>)"
  using assms by (simp_all add: stable_def)

lemma handler_keepsD: "handler_keeps I h \<Longrightarrow> I s \<Longrightarrow> I (snd (snd (h c r (w, s))))"
  by (simp add: handler_keeps_def)

lemma keeps_result: "handler_keeps I h \<Longrightarrow> h c r (w, s) = (out, w', s') \<Longrightarrow> I s \<Longrightarrow> I s'"
  by (metis handler_keepsD snd_conv)

lemma keeps_handle_ltp:
  assumes "stable I"
  shows "handler_keeps I (handle_ltp u)"
  unfolding handler_keeps_def
proof (intro allI impI)
  fix c r w and s :: "'a server"
  assume "I s"
  note s = stableD [OF assms this]
  have log: "I (s\<lparr>world := snd (svc s c' ps (world s)), server_log := xs\<rparr>)" for c' ps xs
    using stableD(4) [OF assms s(1)] .
  show "I (snd (snd (handle_ltp u c r (w, s))))"
    using s(1) log \<open>I s\<close>
    by (auto simp: handle_ltp_def Let_def split_beta split: sum.split option.split)
qed

lemma keeps_own:
  assumes "stable I"
  shows "handler_keeps I handle_health" "handler_keeps I handle_ready" "handler_keeps I (handle_open_api missing serve_file)"
    "handler_keeps I handle_swagger_ui"
  using stableD(2) [OF assms]
  by (simp_all add: handler_keeps_def handle_health_def handle_ready_def handle_open_api_def handle_swagger_ui_def Let_def split_beta)

lemma keeps_mux:
  assumes "stable I" and "handler_keeps I (ext_metrics ext)" and "handler_keeps I (ext_other_path ext)"
  shows "handler_keeps I (mux u ext)"
  using handler_keepsD [OF keeps_handle_ltp [OF assms(1)]] handler_keepsD [OF keeps_own(1) [OF assms(1)]]
    handler_keepsD [OF keeps_own(2) [OF assms(1)]] handler_keepsD [OF keeps_own(3) [OF assms(1)]]
    handler_keepsD [OF keeps_own(4) [OF assms(1)]] handler_keepsD [OF assms(2)] handler_keepsD [OF assms(3)]
  by (simp add: handler_keeps_def mux_def)

lemma keeps_recovery:
  assumes "stable I" and "handler_keeps I h"
  shows "handler_keeps I (recovery h)"
  unfolding handler_keeps_def recovery_def
  using keeps_result [OF assms(2)] stableD(4) [OF assms(1)] by (fastforce split: prod.split outcome.split)

lemma keeps_metrics:
  assumes "stable I" and "handler_keeps I h"
  shows "handler_keeps I (metrics_middleware valid h)"
  unfolding handler_keeps_def metrics_middleware_def
  using keeps_result [OF assms(2)] stableD(5) [OF assms(1)]
  by (fastforce simp: Let_def split: prod.split outcome.split)

lemma keeps_rate_limit:
  assumes "stable I" and "handler_keeps I h"
  shows "handler_keeps I (rate_limit_middleware h)"
  unfolding handler_keeps_def rate_limit_middleware_def
  using handler_keepsD [OF assms(2)] stableD(3) [OF assms(1)]
  by (auto simp: Let_def split_beta split: sum.split)

lemma keeps_logging:
  assumes "stable I" and "handler_keeps I h"
  shows "handler_keeps I (logging h)"
  unfolding handler_keeps_def logging_def
  using keeps_result [OF assms(2)] stableD(4) [OF assms(1)] by (fastforce split: prod.split outcome.split)

lemma keeps_cors: "handler_keeps I h \<Longrightarrow> handler_keeps I (cors h)"
  by (simp add: handler_keeps_def cors_def Let_def)

lemma keeps_server_handler:
  assumes "stable I" and "handler_keeps I (ext_metrics ext)" and "handler_keeps I (ext_other_path ext)"
  shows "handler_keeps I (server_handler u ext)"
  unfolding server_handler_def
  by (intro keeps_cors keeps_logging keeps_rate_limit keeps_metrics keeps_recovery keeps_mux assms)

subsection \<open>Properties\<close>

lemma chain_returns:
  assumes "per_ip_refill_rate (config (limiter s)) \<noteq> 0"
    and "accepts_ascii (ext_valid_label ext)" and "labels_ok (ext_valid_label ext) r"
  shows "fst (server_handler u ext c r (w, s)) = Returned"
proof -
  let ?h = "metrics_middleware (ext_valid_label ext) (recovery (mux u ext))"
  have h: "fst (?h c' r st) = Returned" for c' st using assms(2,3) by (rule metrics_returns)
  have rl: "fst (rate_limit_middleware ?h c' r (w', s)) = Returned" for c' w'
  proof -
    obtain b rl' where "limiter_allow (in_call c' 0) (extract_ip r) (limiter s) = (Inr b, rl')"
      using assms(1) by (rule limiter_no_panic)
    then show ?thesis using h by (auto simp: rate_limit_middleware_def Let_def)
  qed
  have lg: "fst (logging (rate_limit_middleware ?h) c' r (w', s)) = Returned" for c' w'
    using rl [of "in_call c' 1" w'] by (auto simp: logging_def split: prod.split outcome.split)
  then show ?thesis by (simp add: server_handler_def cors_def Let_def)
qed

text \<open>
  No panic of a handler leaves the server when the request's method and path are
  acceptable as labels: whatever the handlers behind the mux do, the chain of middleware
  returns, and a handler that panics before it wrote anything is answered with a 500.
\<close>

theorem panics_are_contained:
  assumes "per_ip_refill_rate (config (limiter s)) \<noteq> 0"
    and "accepts_ascii (ext_valid_label ext)" and "labels_ok (ext_valid_label ext) r"
  shows "fst (server_handler u ext c r (w, s)) = Returned \<and>
    (\<forall>next c' w1 s1 p w2 s2. next (in_call c' 0) r (w1, s1) = (Panicked p, w2, s2) \<longrightarrow> res_sent w2 = None \<longrightarrow>
       fst (recovery next c' r (w1, s1)) = Returned \<and>
       final_status (fst (snd (recovery next c' r (w1, s1)))) = 500)"
  using chain_returns [OF assms] by (simp add: recovery_def)

definition bad_handler :: "unit handler" where
  "bad_handler c r st = (Panicked ''nil map'', st)"

definition sample_http_server :: http_server where
  "sample_http_server =
     \<lparr>hs_addr = [], read_header_timeout = 0, read_timeout = 0, write_timeout = 0, idle_timeout = 0\<rparr>"

definition sample_server :: "unit server" where
  "sample_server =
     \<lparr>addr = [], http_srv = sample_http_server, svc = (\<lambda>c ps w. (Inr [], w)), health_checker = [], limiter = sample_limiter, world = (),
      http_metrics = [], server_log = [], rl_gauges = None\<rparr>"

definition sample_externals :: "unit externals" where
  "sample_externals =
     \<lparr>ext_metrics = bad_handler, ext_valid_label = is_ascii, ext_other_path = bad_handler, ext_file_missing = True,
      ext_serve_file = (\<lambda>r w. w)\<rparr>"

definition sample_request :: "string \<Rightarrow> string \<Rightarrow> http_request" where
  "sample_request method path =
     \<lparr>req_method = method, req_path = path, req_url = path, req_query = (\<lambda>_. []), req_header = (\<lambda>_. []),
      remote_addr = ''10.0.0.1:5000''\<rparr>"

lemma sample_limiter_rate: "per_ip_refill_rate (config (limiter sample_server)) \<noteq> 0"
  by (simp add: sample_server_def sample_limiter_def default_rl_config_def)

lemma ascii_accepted [simp]: "accepts_ascii is_ascii"
  by (simp add: accepts_ascii_def)

lemma sample_path:
  "req_path (sample_request method path) = path" "req_method (sample_request method path) = method"
  by (simp_all add: sample_request_def)

lemma sample_labels [simp]:
  "ext_valid_label sample_externals = is_ascii"
  "labels_ok is_ascii (sample_request ''GET'' ''/metrics'')" "labels_ok is_ascii (sample_request ''GET'' ''/health'')"
  "labels_ok is_ascii (sample_request ''GET'' ''/api/v1/ltp'')" "labels_ok is_ascii (sample_request ''OPTIONS'' ''/api/v1/ltp'')"
  by (simp_all add: sample_externals_def labels_ok_def is_ascii_def byte_def sample_request_def)

theorem panics_are_contained_witness:
  "fst (server_handler no_unicode sample_externals (\<lambda>_. 0) (sample_request ''GET'' ''/metrics'')
     (new_response, sample_server)) = Returned"
  by (rule panics_are_contained [OF sample_limiter_rate, THEN conjunct1]) simp_all

text \<open>The clock of the limiter's call inside the chain, and of the handlers behind it.\<close>

definition limiter_clock :: "clock \<Rightarrow> clock" where
  "limiter_clock c = in_call (in_call (in_call c 0) 1) 0"

text \<open>
  C19: The gate in front of the handlers. A preflight is answered with 200 and costs
  nothing.  A request that the limiter refuses is answered with 429 and reaches neither the
  service nor the request metrics; \<open>/health\<close> and \<open>/ready\<close> are never refused and do
  not touch the limiter.
\<close>

theorem rate_limit_gate:
  assumes "res_sent w = None" and "res_body w = []" and "captured w = 200"
  shows "(req_method r = ''OPTIONS'' \<longrightarrow>
      (\<exists>w'. server_handler u ext c r (w, s) = (Returned, w', s) \<and> final_status w' = 200 \<and> res_body w' = [])) \<and>
    (req_method r \<noteq> ''OPTIONS'' \<longrightarrow> req_path r \<notin> {''/health'', ''/ready'', ''/metrics''} \<longrightarrow>
      fst (limiter_allow (limiter_clock c) (extract_ip r) (limiter s)) = Inr False \<longrightarrow>
      (\<exists>w' s'. server_handler u ext c r (w, s) = (Returned, w', s') \<and> final_status w' = 429 \<and>
        res_body w' = [JsonError ''rate limit exceeded''] \<and> world s' = world s \<and>
        http_metrics s' = http_metrics s \<and>
        limiter s' = snd (limiter_allow (limiter_clock c) (extract_ip r) (limiter s)))) \<and>
    (req_method r \<noteq> ''OPTIONS'' \<longrightarrow> req_path r \<in> {''/health'', ''/ready''} \<longrightarrow>
      accepts_ascii (ext_valid_label ext) \<longrightarrow> labels_ok (ext_valid_label ext) r \<longrightarrow>
      (\<exists>w' s'. server_handler u ext c r (w, s) = (Returned, w', s') \<and> limiter s' = limiter s))"
proof (intro conjI impI)
  assume "req_method r = ''OPTIONS''"
  then show "\<exists>w'. server_handler u ext c r (w, s) = (Returned, w', s) \<and> final_status w' = 200 \<and> res_body w' = []"
    using assms by (simp add: server_handler_def cors_def Let_def)
next
  assume m: "req_method r \<noteq> ''OPTIONS''" and p: "req_path r \<notin> {''/health'', ''/ready'', ''/metrics''}"
    and refused: "fst (limiter_allow (limiter_clock c) (extract_ip r) (limiter s)) = Inr False"
  obtain rl where "limiter_allow (limiter_clock c) (extract_ip r) (limiter s) = (Inr False, rl)"
    using refused by (metis prod.collapse)
  then show "\<exists>w' s'. server_handler u ext c r (w, s) = (Returned, w', s') \<and> final_status w' = 429 \<and>
        res_body w' = [JsonError ''rate limit exceeded''] \<and> world s' = world s \<and>
        http_metrics s' = http_metrics s \<and>
        limiter s' = snd (limiter_allow (limiter_clock c) (extract_ip r) (limiter s))"
    using m p assms
    by (simp add: server_handler_def cors_def logging_def rate_limit_middleware_def limiter_clock_def Let_def)
next
  assume m: "req_method r \<noteq> ''OPTIONS''" and p: "req_path r \<in> {''/health'', ''/ready''}"
    and ok: "accepts_ascii (ext_valid_label ext)" "labels_ok (ext_valid_label ext) r"
  define w0 where "w0 = set_header ''Access-Control-Allow-Headers'' ''Content-Type''
      (set_header ''Access-Control-Allow-Methods'' ''GET, OPTIONS'' (set_header ''Access-Control-Allow-Origin'' ''*'' w))"
  let ?c = "in_call (in_call (in_call (in_call (in_call c 0) 1) 0) 1) 0"
  obtain out w' s' where mx: "mux u ext ?c r (w0\<lparr>captured := 200\<rparr>, s) = (out, w', s')" by (metis prod_cases3)
  have own: "req_path r \<in> own_paths" using p by (auto simp: own_paths_def)
  have sent: "res_sent (w0\<lparr>captured := 200\<rparr>) = None" using assms(1) by (simp add: w0_def)
  note o = own_handlers [OF own sent _ mx]
  show "\<exists>w' s'. server_handler u ext c r (w, s) = (Returned, w', s') \<and> limiter s' = limiter s"
    using m p mx o(1,2)
    by (auto simp: server_handler_def cors_def logging_def rate_limit_middleware_def metrics_middleware_def
        recovery_def Let_def w0_def labels_valid [OF ok])
qed

theorem rate_limit_gate_witness:
  "\<exists>w'. server_handler no_unicode sample_externals (\<lambda>_. 0) (sample_request ''OPTIONS'' ''/api/v1/ltp'')
     (new_response, sample_server) = (Returned, w', sample_server) \<and> final_status w' = 200"
  using rate_limit_gate [of new_response "sample_request ''OPTIONS'' ''/api/v1/ltp''" no_unicode sample_externals
      "\<lambda>_. 0" sample_server]
  by (auto simp: new_response_def sample_request_def)

lemma own_request_counted:
  assumes "req_path r \<in> own_paths" and "res_sent w = None"
    and "accepts_ascii valid" and "labels_ok valid r"
  shows "\<exists>w' s' d. metrics_middleware valid (recovery (mux u ext)) c r (w, s) = (Returned, w', s') \<and>
    limiter s' = limiter s \<and> http_metrics s' = http_metrics s @
      [HTTPRequests (req_method r) (req_path r) (itoa (final_status w')),
       HTTPDuration (req_method r) (req_path r) (itoa (final_status w')) d]"
proof -
  obtain out1 w1 s1 where mx: "mux u ext (in_call (in_call c 1) 0) r (w\<lparr>captured := 200\<rparr>, s) = (out1, w1, s1)"
    by (metis prod_cases3)
  have "res_sent (w\<lparr>captured := 200\<rparr>) = None" using assms(2) by simp
  note o = own_handlers [OF assms(1) this _ mx]
  show ?thesis
    using mx o by (simp add: metrics_middleware_def recovery_def Let_def labels_valid [OF assms(3,4)])
qed

text \<open>
  C35: A request to one of the server's own four endpoints (with a method and a path that
  are acceptable as labels), which is no preflight and which the limiter admits or
  exempts, is answered by the chain without a panic and counted once, under the status its
  client receives, and timed under the same labels; the line of the access log follows.
\<close>

theorem metrics_report_client_status:
  assumes "req_path r \<in> own_paths" and "req_method r \<noteq> ''OPTIONS''" and "res_sent w = None"
    and "accepts_ascii (ext_valid_label ext)" and "labels_ok (ext_valid_label ext) r"
    and "req_path r \<in> {''/health'', ''/ready''} \<or>
      fst (limiter_allow (limiter_clock c) (extract_ip r) (limiter s)) = Inr True"
  shows "\<exists>w' s' d ls. server_handler u ext c r (w, s) = (Returned, w', s') \<and>
    http_metrics s' = http_metrics s @
      [HTTPRequests (req_method r) (req_path r) (itoa (final_status w')),
       HTTPDuration (req_method r) (req_path r) (itoa (final_status w')) d] \<and>
    server_log s' = ls @ [AccessLog (req_method r) (req_url r)]"
proof -
  define w0 where "w0 = set_header ''Access-Control-Allow-Headers'' ''Content-Type''
      (set_header ''Access-Control-Allow-Methods'' ''GET, OPTIONS'' (set_header ''Access-Control-Allow-Origin'' ''*'' w))"
  let ?h = "metrics_middleware (ext_valid_label ext) (recovery (mux u ext))"
  have sent: "res_sent w0 = None" using assms(3) by (simp add: w0_def)
  have "\<exists>c' s0. rate_limit_middleware ?h (in_call (in_call c 0) 1) r (w0, s) = ?h c' r (w0, s0) \<and>
      http_metrics s0 = http_metrics s"
  proof (cases "req_path r \<in> {''/health'', ''/ready''}")
    case True
    then show ?thesis by (intro exI [of _ "in_call (in_call (in_call c 0) 1) 0"] exI [of _ s])
      (auto simp: rate_limit_middleware_def)
  next
    case False
    then obtain rl where "limiter_allow (limiter_clock c) (extract_ip r) (limiter s) = (Inr True, rl)"
      using assms(6) by (metis prod.collapse)
    then show ?thesis using False assms(1)
      by (intro exI [of _ "in_call (in_call (in_call c 0) 1) 1"] exI [of _ "s\<lparr>limiter := rl\<rparr>"])
        (auto simp: rate_limit_middleware_def limiter_clock_def own_paths_def Let_def)
  qed
  then obtain c' s0 where gate: "rate_limit_middleware ?h (in_call (in_call c 0) 1) r (w0, s) = ?h c' r (w0, s0)"
    and s0: "http_metrics s0 = http_metrics s" by blast
  from own_request_counted [OF assms(1) sent assms(4,5), of u ext c' s0] obtain w' s' d where
    h: "?h c' r (w0, s0) = (Returned, w', s')" and
    log: "http_metrics s' = http_metrics s0 @
      [HTTPRequests (req_method r) (req_path r) (itoa (final_status w')),
       HTTPDuration (req_method r) (req_path r) (itoa (final_status w')) d]" by blast
  have "server_handler u ext c r (w, s) =
      (Returned, w', s'\<lparr>server_log := server_log s' @ [AccessLog (req_method r) (req_url r)]\<rparr>)"
    using assms(2) gate h by (simp add: server_handler_def cors_def logging_def w0_def Let_def)
  then show ?thesis using log s0 by simp
qed

text \<open>For instance a client that posts to \<open>/health\<close> and is told 405.\<close>

theorem metrics_report_client_status_witness:
  "\<exists>w' s' d. server_handler no_unicode sample_externals (\<lambda>_. 0) (sample_request ''POST'' ''/health'')
       (new_response, sample_server) = (Returned, w', s') \<and> final_status w' = 405 \<and>
     http_metrics s' = [HTTPRequests ''POST'' ''/health'' ''405'', HTTPDuration ''POST'' ''/health'' ''405'' d]"
proof -
  let ?r = "sample_request ''POST'' ''/health''"
  have ok: "labels_ok (ext_valid_label sample_externals) ?r" "accepts_ascii (ext_valid_label sample_externals)"
    by (simp_all add: labels_ok_def is_ascii_def byte_def sample_path sample_labels)
  obtain w' s' d ls where h: "server_handler no_unicode sample_externals (\<lambda>_. 0) ?r (new_response, sample_server) = (Returned, w', s')"
    and m: "http_metrics s' = http_metrics sample_server @
      [HTTPRequests (req_method ?r) (req_path ?r) (itoa (final_status w')),
       HTTPDuration (req_method ?r) (req_path ?r) (itoa (final_status w')) d]"
    using metrics_report_client_status [of ?r new_response sample_externals "\<lambda>_. 0" sample_server no_unicode] ok
    by (auto simp: own_paths_def new_response_def sample_path)
  have "final_status w' = 405"
    using h by (auto simp: server_handler_def cors_def logging_def rate_limit_middleware_def metrics_middleware_def
        recovery_def mux_def handle_health_def sample_path sample_labels Let_def new_response_def split: if_splits)
  moreover have "itoa 405 = ''405''" by code_simp
  ultimately show ?thesis using h m by (simp add: sample_path sample_server_def)
qed

text \<open>
  C27: A panic that nothing recovers.  When a request that the limiter admits asks for a path
  that is not registered, and the metrics library refuses the path as a label, the chain
  of handlers panics after the request has been answered: \<open>metricsMiddleware\<close> stands
  outside \<open>recovery\<close>.  The request has cost its tokens, and neither the access log nor
  the metrics know of it.
\<close>

theorem invalid_label_escapes_recovery:
  assumes "req_method r \<noteq> ''OPTIONS''"
    and "req_path r \<notin> {''/api/v1/ltp'', ''/health'', ''/ready'', ''/openapi.yaml'', ''/docs'', ''/metrics''}"
    and "fst (limiter_allow (limiter_clock c) (extract_ip r) (limiter s)) = Inr True"
    and "\<And>c' w1 s1. \<exists>w2. ext_other_path ext c' r (w1, s1) = (Returned, w2, s1)"
    and "\<not> ext_valid_label ext (req_path r)"
    and "server_handler u ext c r (w, s) = (out, w', s')"
  shows "(\<exists>p. out = Panicked p) \<and>
    s' = s\<lparr>limiter := snd (limiter_allow (limiter_clock c) (extract_ip r) (limiter s))\<rparr>"
proof -
  obtain rl where rl: "limiter_allow (limiter_clock c) (extract_ip r) (limiter s) = (Inr True, rl)"
    using assms(3) by (metis prod.collapse)
  have other: "\<exists>w2. recovery (mux u ext) c' r (w1, s1) = (Returned, w2, s1)" for c' w1 s1
    using assms(2) assms(4) [of "in_call c' 0" w1 s1] by (auto simp: recovery_def mux_def)
  have "\<exists>w2. metrics_middleware (ext_valid_label ext) (recovery (mux u ext)) c' r (w1, s1) =
      (Panicked ''label value is not valid UTF-8'', w2, s1)" for c' w1 s1
    using other [of "in_call c' 1" "w1\<lparr>captured := 200\<rparr>" s1] assms(5) by (auto simp: metrics_middleware_def Let_def)
  then have limited: "\<exists>w2. rate_limit_middleware (metrics_middleware (ext_valid_label ext) (recovery (mux u ext)))
      (in_call (in_call c 0) 1) r (w1, s) = (Panicked ''label value is not valid UTF-8'', w2, s\<lparr>limiter := rl\<rparr>)" for w1
    using assms(2) rl by (simp add: rate_limit_middleware_def limiter_clock_def Let_def)
  show ?thesis
    using assms(1,6) rl limited [of "set_header ''Access-Control-Allow-Headers'' ''Content-Type''
      (set_header ''Access-Control-Allow-Methods'' ''GET, OPTIONS'' (set_header ''Access-Control-Allow-Origin'' ''*'' w))"]
    by (auto simp: server_handler_def cors_def logging_def Let_def)
qed

definition stray_request :: http_request where
  "stray_request = sample_request ''GET'' (CHR ''/'' # [char_of (255::nat)])"

definition mux_externals :: "unit externals" where
  "mux_externals = sample_externals\<lparr>ext_other_path := \<lambda>c r (w, s). (Returned, http_error ''404 page not found'' 404 w, s)\<rparr>"

theorem invalid_label_escapes_recovery_witness:
  "\<exists>p w'. server_handler no_unicode mux_externals (\<lambda>_. 0) stray_request (new_response, sample_server) = (Panicked p, w',
     sample_server\<lparr>limiter := snd (limiter_allow (limiter_clock (\<lambda>_. 0)) (extract_ip stray_request) sample_limiter)\<rparr>)"
proof -
  obtain out w' s' where h: "server_handler no_unicode mux_externals (\<lambda>_. 0) stray_request (new_response, sample_server) =
      (out, w', s')" by (metis prod_cases3)
  have ok: "fst (limiter_allow (limiter_clock (\<lambda>_. 0)) (extract_ip stray_request) (limiter sample_server)) = Inr True"
    by code_simp
  have path: "req_method stray_request \<noteq> ''OPTIONS''"
    "req_path stray_request \<notin> {''/api/v1/ltp'', ''/health'', ''/ready'', ''/openapi.yaml'', ''/docs'', ''/metrics''}"
    by (simp_all add: stray_request_def sample_path)
  have refused: "\<not> ext_valid_label mux_externals (req_path stray_request)"
    by (simp add: mux_externals_def sample_labels stray_request_def sample_path is_ascii_def byte_def)
  show ?thesis
    using invalid_label_escapes_recovery [OF path ok _ refused h] h
    by (auto simp: mux_externals_def sample_server_def)
qed

text \<open>
  C18: What a client of \<open>/api/v1/ltp\<close> sees of \<open>GetLTP\<close>: 200 with the quotes, 400 with the
  reason when the request was at fault, and 500 when Kraken failed, with a fixed text that
  tells nothing about the error, which is logged.
\<close>

theorem ltp_endpoint_status:
  assumes "svc s = get_ltp u pc api" and "req_method r = ''GET''" and "requested_pairs u r \<noteq> []"
    and "res_sent w = None" and "res_body w = []"
    and "\<And>err. api_answer u pc api (in_call c 0) (requested_pairs u r) (world s) = Some (Inl err) \<Longrightarrow> as_handler_error err = None"
    and "handle_ltp u c r (w, s) = (out, w', s')"
  shows "case fst (get_ltp u pc api (in_call c 0) (requested_pairs u r) (world s)) of
      Inr quotes \<Rightarrow> final_status w' = 200 \<and>
        res_body w' = (if \<forall>q\<in>set quotes. is_finite (quote_amount q) then [JsonQuotes quotes] else []) \<and>
        server_log s' = server_log s
    | Inl e \<Rightarrow>
        (\<exists>msg. e = HandlerError 400 msg \<and> final_status w' = 400 \<and> res_body w' = [JsonError msg] \<and>
          server_log s' = server_log s) \<or>
        (\<exists>err. e = WrapError ''kraken: '' err \<and> final_status w' = 500 \<and>
          res_body w' = [JsonError ''internal error''] \<and> server_log s' = server_log s @ [SvcError e])"
proof -
  let ?g = "get_ltp u pc api (in_call c 0) (requested_pairs u r) (world s)"
  show ?thesis
  proof (cases "fst ?g")
    case (Inr quotes)
    then show ?thesis using assms
      by (auto simp: handle_ltp_def Let_def split_beta encode_quotes_def)
  next
    case (Inl e)
    from get_ltp_failure [OF this] show ?thesis
    proof
      assume "\<exists>msg. e = HandlerError 400 msg"
      then show ?thesis using assms Inl by (auto simp: handle_ltp_def Let_def split_beta)
    next
      assume "\<exists>err. e = WrapError ''kraken: '' err \<and>
        api_answer u pc api (in_call c 0) (requested_pairs u r) (world s) = Some (Inl err)"
      then obtain err where "e = WrapError ''kraken: '' err" "as_handler_error err = None" using assms(6) by blast
      then show ?thesis using assms Inl by (auto simp: handle_ltp_def Let_def split_beta)
    qed
  qed
qed

definition price_server :: "(unit \<times> nat) server" where
  "price_server =
     \<lparr>addr = [], http_srv = sample_http_server, svc = get_ltp no_unicode empty_price_cache one_price_api, health_checker = [], limiter = sample_limiter,
      world = ((), 0), http_metrics = [], server_log = [], rl_gauges = None\<rparr>"

definition price_request :: http_request where
  "price_request = (sample_request ''GET'' ''/api/v1/ltp'')\<lparr>req_url := ''/api/v1/ltp?pair=BTC/USD'', req_query := (\<lambda>k. if k = ''pair'' then [''BTC/USD''] else [])\<rparr>"

theorem ltp_endpoint_status_witness:
  "\<exists>w' s'. handle_ltp no_unicode (\<lambda>_. 0) price_request (new_response, price_server) = (Returned, w', s') \<and>
     final_status w' = 200 \<and> res_body w' = [JsonQuotes [\<lparr>quote_pair = ''BTC/USD'', quote_amount = Fin 50000\<rparr>]]"
proof -
  obtain out w' s' where h: "handle_ltp no_unicode (\<lambda>_. 0) price_request (new_response, price_server) = (out, w', s')"
    by (metis prod_cases3)
  have out: "out = Returned"
    using h by (auto simp: handle_ltp_def Let_def split_beta split: if_splits sum.splits option.splits)
  have pairs: "requested_pairs no_unicode price_request = [''BTC/USD'']"
    by (simp add: requested_pairs_def price_request_def values_get_def)
  have get: "get_ltp no_unicode empty_price_cache one_price_api (in_call (\<lambda>_. 0) 0)
      (requested_pairs no_unicode price_request) (world price_server) =
      (Inr [\<lparr>quote_pair = ''BTC/USD'', quote_amount = Fin 50000\<rparr>], (), 1)"
    by (simp add: pairs price_server_def get_ltp_example)
  have ans: "api_answer no_unicode empty_price_cache one_price_api (in_call (\<lambda>_. 0) 0)
      (requested_pairs no_unicode price_request) (world price_server) \<noteq> Some (Inl err)" for err
    unfolding pairs
    by (auto simp: api_answer_def one_price_api_def split: sum.splits prod.splits if_splits)
  have service: "svc price_server = get_ltp no_unicode empty_price_cache one_price_api"
    by (simp add: price_server_def)
  have meth: "req_method price_request = ''GET''" by (simp add: price_request_def sample_request_def)
  have fresh: "res_sent new_response = None" "res_body new_response = []" by (simp_all add: new_response_def)
  have "requested_pairs no_unicode price_request \<noteq> []" by (simp add: pairs)
  note status = ltp_endpoint_status [OF service meth this fresh _ h, unfolded get, simplified]
  have "final_status w' = 200 \<and> res_body w' = [JsonQuotes [\<lparr>quote_pair = ''BTC/USD'', quote_amount = Fin 50000\<rparr>]]"
    using status ans by simp
  then show ?thesis using h out by blast
qed

end
