(* ===== verification/Backoff.thy ===== *)
theory Backoff
  imports Float64
begin

text \<open>
  \<open>internal/backoff/backoff.go\<close>: retrying with exponential delays.  The delay is
  computed in \<open>float64\<close> as the code does, with \<open>math.Pow\<close> by the algorithm of the
  standard library.  The random numbers are a sequence of values of \<open>rng.Float64()\<close>;
  what each \<open>select\<close> of the retry loop receives is an argument.
\<close>

subsection \<open>math.Pow with a whole exponent\<close>

text \<open>
  \<open>Pow(x, y)\<close> for \<open>y\<close> a natural number below \<open>2^63\<close>: \<open>x\<close> is split by \<open>Frexp\<close> into a
  fraction in \<open>[1/2, 1)\<close> and an exponent, the fraction is raised by repeated squaring
  with its exponent kept apart, and \<open>Ldexp\<close> puts the two together.
\<close>

function pow_loop :: "nat \<Rightarrow> f64 \<Rightarrow> int \<Rightarrow> f64 \<Rightarrow> int \<Rightarrow> f64 \<times> int" where
  "pow_loop i x1 xe a1 ae =
     (if i = 0 then (a1, ae)
      else if xe < - (2 ^ 12) \<or> 2 ^ 12 < xe then (a1, ae + xe)
      else
        (let (a1, ae) = (if i mod 2 = 1 then (a1 * x1, ae + xe) else (a1, ae));
             x1 = x1 * x1;
             xe = 2 * xe;
             (x1, xe) = (if x1 < Fin (1 / 2) then (x1 + x1, xe - 1) else (x1, xe))
         in pow_loop (i div 2) x1 xe a1 ae))"
  by pat_completeness auto
termination by (relation "measure (\<lambda>(i, _). i)") auto

declare pow_loop.simps [simp del]

definition frexp :: "rat \<Rightarrow> rat \<times> int" where
  "frexp x = (x / 2 powi (ilog2 \<bar>x\<bar> + 1), ilog2 \<bar>x\<bar> + 1)"

definition math_pow :: "f64 \<Rightarrow> nat \<Rightarrow> f64" where
  "math_pow x n =
     (if n = 0 \<or> x = Fin 1 then Fin 1
      else if n = 1 then x
      else
        (case x of
           NaN \<Rightarrow> NaN
         | PInf \<Rightarrow> PInf
         | NInf \<Rightarrow> (if n mod 2 = 1 then NInf else PInf)
         | Fin r \<Rightarrow>
             if r = 0 then Fin 0
             else (let (x1, xe) = frexp r; (a1, ae) = pow_loop n (Fin x1) xe (Fin 1) 0 in ldexp a1 ae)))"

subsection \<open>Configuration and delays\<close>

record backoff_config =
  base_delay :: duration
  max_delay :: duration
  max_attempts :: int
  multiplier :: f64
  jitter_factor :: f64

definition default_backoff_config :: backoff_config where
  "default_backoff_config =
     \<lparr>base_delay = 100 * millisecond, max_delay = 30 * second, max_attempts = 5,
      multiplier = to_f64 2, jitter_factor = to_f64 (1 / 10)\<rparr>"

text \<open>\<open>rng k\<close> is the \<open>k\<close>-th number the generator gives, a \<open>float64\<close> in \<open>[0, 1)\<close>; \<open>drawn\<close> counts them.\<close>

record backoff =
  bo_config :: backoff_config
  rng :: "nat \<Rightarrow> f64"
  drawn :: nat

definition new_backoff :: "(nat \<Rightarrow> f64) \<Rightarrow> backoff_config \<Rightarrow> backoff" where
  "new_backoff random cfg = \<lparr>bo_config = cfg, rng = random, drawn = 0\<rparr>"

definition calculate_delay :: "int \<Rightarrow> backoff \<Rightarrow> duration \<times> backoff" where
  "calculate_delay attempt b =
     (let cfg = bo_config b;
          delay = f64_of_int (base_delay cfg) * math_pow (multiplier cfg) (nat (attempt - 1));
          delay = (if f64_of_int (max_delay cfg) < delay then f64_of_int (max_delay cfg) else delay);
          (delay, b) =
            (if Fin 0 < jitter_factor cfg then
               (let jitter = delay * jitter_factor cfg
                in (delay + (rng b (drawn b) * Fin 2 - Fin 1) * jitter, b\<lparr>drawn := Suc (drawn b)\<rparr>))
             else (delay, b));
          delay = (if delay < Fin 0 then f64_of_int (base_delay cfg) else delay)
      in (f64_to_int64 delay, b))"

subsection \<open>The retry loop\<close>

datatype backoff_metric =
    BackoffAttempts string string
  | BackoffDelay string string f64

text \<open>
  \<open>fn\<close> is the retried closure on the state \<open>'s\<close> it captures, \<open>None\<close> its success.
  \<open>ctx_done k\<close> is what the \<open>select\<close> after attempt \<open>k\<close> receives: \<open>Some e\<close> when the context
  is done with error \<open>e\<close>, \<open>None\<close> when the timer fires.  \<open>lastErr\<close> is nil before the
  first attempt, which \<open>%w\<close> prints as \<open>%!w(<nil>)\<close>.
\<close>

definition give_up :: "int \<Rightarrow> go_error option \<Rightarrow> go_error" where
  "give_up n last_err =
     (let text = ''max attempts ('' @ itoa n @ '') reached, last error: '' in
      case last_err of
        None \<Rightarrow> ErrorString (text @ ''%!w(<nil>)'')
      | Some e \<Rightarrow> WrapError text e)"

lemma calculate_delay_config [simp]: "bo_config (snd (calculate_delay attempt b)) = bo_config b"
  by (simp add: calculate_delay_def Let_def)

function retry_loop ::
  "string \<Rightarrow> ('s \<Rightarrow> go_error option \<times> 's) \<Rightarrow> (go_error \<Rightarrow> bool) \<Rightarrow> (int \<Rightarrow> go_error option) \<Rightarrow>
   int \<Rightarrow> go_error option \<Rightarrow> backoff \<Rightarrow> 's \<Rightarrow> backoff_metric list \<Rightarrow>
   go_error option \<times> backoff \<times> 's \<times> backoff_metric list" where
  "retry_loop svc fn should_retry ctx_done attempt last_err b s ms =
     (if attempt \<le> max_attempts (bo_config b) then
        (let ms = ms @ [BackoffAttempts svc (itoa attempt)];
             (err, s) = fn s
         in case err of
              None \<Rightarrow> (None, b, s, ms)
            | Some e \<Rightarrow>
                if \<not> should_retry e then (Some e, b, s, ms)
                else if attempt = max_attempts (bo_config b) then
                  (Some (give_up (max_attempts (bo_config b)) (Some e)), b, s, ms)
                else
                  (let (delay, b') = calculate_delay attempt b;
                       ms = ms @ [BackoffDelay svc (itoa attempt) (duration_seconds delay)]
                   in case ctx_done attempt of
                        Some ctx_err \<Rightarrow> (Some ctx_err, b', s, ms)
                      | None \<Rightarrow> retry_loop svc fn should_retry ctx_done (attempt + 1) (Some e) b' s ms))
      else (Some (give_up (max_attempts (bo_config b)) last_err), b, s, ms))"
  by pat_completeness auto
termination
  by (relation "measure (\<lambda>(_, _, _, _, attempt, _, b, _, _). nat (max_attempts (bo_config b) + 1 - attempt))")
    (auto, metis calculate_delay_config snd_conv order_refl)

declare retry_loop.simps [simp del]

definition retry ::
  "string \<Rightarrow> ('s \<Rightarrow> go_error option \<times> 's) \<Rightarrow> (go_error \<Rightarrow> bool) \<Rightarrow> (int \<Rightarrow> go_error option) \<Rightarrow>
   backoff \<Rightarrow> 's \<Rightarrow> go_error option \<times> backoff \<times> 's \<times> backoff_metric list" where
  "retry svc fn should_retry ctx_done b s = retry_loop svc fn should_retry ctx_done 1 None b s []"

fun is_retryable_http_error :: "go_error \<Rightarrow> bool" where
  "is_retryable_http_error (HTTPError code msg) \<longleftrightarrow> code = 429 \<or> (500 \<le> code \<and> code < 600)"
| "is_retryable_http_error _ \<longleftrightarrow> False"

definition new_http_error :: "int \<Rightarrow> string \<Rightarrow> go_error" where
  "new_http_error code msg = HTTPError code msg"

subsection \<open>Powers of two\<close>

lemma to_f64_scaled:
  assumes "\<bar>m\<bar> \<le> 2 ^ 53" and "- 1074 \<le> e" and "e \<le> 900"
  shows "to_f64 (of_int m * 2 powi e) = Fin (of_int m * 2 powi e)"
proof -
  have r: "rnd (of_int m * 2 powi e) = of_int m * 2 powi e" using assms(1,2) by (rule rnd_exact)
  have "rat_of_int \<bar>m\<bar> \<le> of_int (2 ^ 53)" using assms(1) by (simp only: of_int_le_iff)
  moreover have "(2 :: rat) powi e \<le> 2 powi 900" using assms(3) by (simp only: powi2_le_iff)
  ultimately have "rat_of_int \<bar>m\<bar> * 2 powi e \<le> of_int (2 ^ 53) * 2 powi 900"
    by (rule mult_mono) simp_all
  also have "\<dots> < 2 ^ 1024" by simp
  finally have "\<bar>rat_of_int m * 2 powi e\<bar> < 2 ^ 1024" by (simp only: abs_mult of_int_abs abs_of_pos [OF powi2_pos])
  then show ?thesis using to_f64_Fin [of "of_int m * 2 powi e"] by (simp add: r)
qed

lemma f64_half_power: "0 \<le> k \<Longrightarrow> k < 1000 \<Longrightarrow> Fin (2 powi - k) * Fin (1 / 2) = Fin (2 powi - (k + 1))"
proof -
  assume "0 \<le> k" "k < 1000"
  then have "to_f64 (of_int 1 * 2 powi - (k + 1)) = Fin (of_int 1 * 2 powi - (k + 1))"
    by (intro to_f64_scaled) auto
  moreover have "(2 powi - k * (1 / 2) :: rat) = 2 powi - (k + 1)"
    using power_int_add [of "2 :: rat" "- k" "- 1"] by simp
  ultimately show ?thesis by (simp add: times_f64_def)
qed

lemma f64_quarter: "Fin (1 / 2) * Fin (1 / 2) = Fin (1 / 4)" and f64_quarter2: "Fin (1 / 4) + Fin (1 / 4) = Fin (1 / 2)"
  using to_f64_scaled [of 1 "- 2"] to_f64_scaled [of 1 "- 1"] by (simp_all add: times_f64_def plus_f64_def)

lemma pow_loop_half:
  assumes "0 \<le> k" and "k + int i < 1000" and "1 \<le> xe" and "(xe - 1) * int i < 2 ^ 12"
  shows "\<exists>k'. 0 \<le> k' \<and> pow_loop i (Fin (1 / 2)) xe (Fin (2 powi - k)) ae =
    (Fin (2 powi - k'), ae - k + int i * (xe - 1) + k')"
  using assms
proof (induction i arbitrary: k xe ae rule: less_induct)
  case (less i)
  show ?case
  proof (cases "i = 0")
    case True
    then show ?thesis using less.prems by (intro exI [of _ k]) (simp add: pow_loop.simps [of 0])
  next
    case False
    then have "xe - 1 \<le> (xe - 1) * int i" using less.prems(3) by (simp add: mult_le_cancel_left1)
    then have xe: "\<not> (xe < - (2 ^ 12) \<or> 2 ^ 12 < xe)" using less.prems by simp
    let ?b = "i mod 2" and ?h = "i div 2"
    have i: "int i = 2 * int ?h + int ?b" by presburger
    let ?k = "k + int ?b" and ?ae = "ae + int ?b * xe" and ?xe = "2 * xe - 1"
    have a1: "(if i mod 2 = 1 then Fin (2 powi - k) * Fin (1 / 2) else Fin (2 powi - k)) = Fin (2 powi - ?k)"
      using less.prems f64_half_power [of k] by (auto simp: mod2_eq_if)
    have step: "pow_loop i (Fin (1 / 2)) xe (Fin (2 powi - k)) ae = pow_loop ?h (Fin (1 / 2)) ?xe (Fin (2 powi - ?k)) ?ae"
      using False xe a1 by (subst pow_loop.simps) (auto simp: Let_def f64_quarter f64_quarter2 less_f64_def mod2_eq_if)
    have "0 \<le> ?k" "?k + int ?h < 1000" "1 \<le> ?xe" using less.prems i False by auto
    moreover have "(?xe - 1) * int ?h < 2 ^ 12"
    proof -
      have "(?xe - 1) * int ?h = (xe - 1) * (int i - int ?b)" using i by (simp add: algebra_simps)
      also have "\<dots> \<le> (xe - 1) * int i" using less.prems(3) by (intro mult_left_mono) auto
      finally show ?thesis using less.prems(4) by simp
    qed
    ultimately obtain k' where "0 \<le> k'" "pow_loop ?h (Fin (1 / 2)) ?xe (Fin (2 powi - ?k)) ?ae =
        (Fin (2 powi - k'), ?ae - ?k + int ?h * (?xe - 1) + k')"
      using less.IH [of ?h ?k ?xe ?ae] False by auto
    moreover have "?ae - ?k + int ?h * (?xe - 1) + k' = ae - k + int i * (xe - 1) + k'"
      using i by (simp add: algebra_simps)
    ultimately show ?thesis using step by auto
  qed
qed

lemma math_pow_2:
  assumes "n \<le> 900"
  shows "math_pow (Fin 2) n = Fin (2 ^ n)"
proof (cases "n \<le> 1")
  case True
  then show ?thesis by (cases n) (auto simp: math_pow_def)
next
  case False
  have "ilog2 2 = 1" using ilog2_le_iff [of 2 1] ilog2_le_iff [of 2 0] by simp
  then have fr: "frexp 2 = (1 / 2, 2)" by (simp add: frexp_def)
  obtain k where "pow_loop n (Fin (1 / 2)) 2 (Fin (2 powi - 0)) 0 = (Fin (2 powi - k), 0 - 0 + int n * (2 - 1) + k)"
    using pow_loop_half [of 0 n 2 0] assms by auto
  moreover have "(2 powi - k * 2 powi (int n + k) :: rat) = 2 powi int n"
    by (simp flip: power_int_add)
  moreover have "to_f64 (of_int 1 * 2 powi int n) = Fin (of_int 1 * 2 powi int n)"
    using assms by (intro to_f64_scaled) auto
  ultimately show ?thesis using False by (simp add: math_pow_def fr)
qed

subsection \<open>The delay of one attempt\<close>

lemma rnd_quarter: "\<bar>x\<bar> < 2 ^ 52 \<Longrightarrow> \<bar>rnd x - x\<bar> \<le> 1 / 4"
proof (cases "x = 0")
  case False
  assume "\<bar>x\<bar> < 2 ^ 52"
  then have "ulp_exp x \<le> - 1" using False by (intro ulp_exp_le) simp_all
  then have "(2 :: rat) powi ulp_exp x \<le> 2 powi - 1" by (simp only: powi2_le_iff)
  then show ?thesis using rnd_abs_error [of x] by simp
qed simp

lemma rnd_idem [simp]: "rnd (rnd x) = rnd x"
proof (cases "x = 0")
  case False
  let ?u = "ulp_exp x" and ?m = "round_even (x / 2 powi ulp_exp x)"
  have "\<bar>x\<bar> < 2 powi (ilog2 \<bar>x\<bar> + 1)" using False by (intro ilog2_bounds(2)) simp
  also have "\<dots> \<le> 2 powi (?u + 53)" using False by (simp only: powi2_le_iff ulp_exp_def) simp
  finally have "\<bar>x\<bar> / 2 powi ?u \<le> of_int (2 ^ 53)" by (simp add: power_int_add field_simps)
  then have "- of_int (2 ^ 53) \<le> x / 2 powi ?u \<and> x / 2 powi ?u \<le> of_int (2 ^ 53)"
    by (simp add: abs_if field_simps split: if_splits)
  then have "round_even (of_int (- (2 ^ 53))) \<le> ?m \<and> ?m \<le> round_even (of_int (2 ^ 53))"
    by (intro conjI round_even_mono) auto
  then have "\<bar>?m\<bar> \<le> 2 ^ 53" unfolding round_even_of_int by arith
  then show ?thesis using rnd_exact [of ?m ?u] by (simp add: rnd_def [of x] ulp_exp_def)
qed simp

lemma to_f64_small: "\<bar>x\<bar> \<le> 2 ^ 53 \<Longrightarrow> to_f64 x = Fin (rnd x)"
  using to_f64_Fin_int [of x "2 ^ 53"] by simp

lemma jitter_range:
  fixes r J :: rat
  assumes "0 \<le> r" and "r < 1" and "rnd J = J" and "0 \<le> J" and "J \<le> 2 ^ 53"
  shows "\<exists>p. (Fin r * Fin 2 - Fin 1) * Fin J = Fin p \<and> \<bar>p\<bar> \<le> J"
proof -
  have "0 \<le> rnd (r * 2)" using assms by (intro rnd_nonneg) simp
  moreover have "rnd (r * 2) \<le> rnd 2" using assms by (intro rnd_mono) simp
  ultimately have r2: "0 \<le> rnd (r * 2)" "rnd (r * 2) \<le> 2" by simp_all
  let ?q = "rnd (rnd (r * 2) + - 1)"
  have "rnd (- 1) \<le> ?q" and "?q \<le> rnd 1" using r2 by (intro rnd_mono; simp)+
  then have q: "- 1 \<le> ?q" "?q \<le> 1" by (simp_all add: rnd_minus)
  then have "\<bar>?q * J\<bar> \<le> J" using assms(4) by (simp add: abs_mult mult_left_le_one_le abs_le_iff)
  then have "- J \<le> ?q * J" and "?q * J \<le> J" by linarith+
  then have "rnd (- J) \<le> rnd (?q * J)" and "rnd (?q * J) \<le> rnd J" by (simp_all only: rnd_mono)
  then have p: "\<bar>rnd (?q * J)\<bar> \<le> J" using assms(3) by (simp add: rnd_minus abs_le_iff)
  have "to_f64 (r * 2) = Fin (rnd (r * 2))" using assms by (intro to_f64_small) simp
  moreover have "to_f64 (rnd (r * 2) + - 1) = Fin ?q" using r2 by (intro to_f64_small) simp
  moreover have "to_f64 (?q * J) = Fin (rnd (?q * J))"
    using \<open>\<bar>?q * J\<bar> \<le> J\<close> assms(5) by (intro to_f64_small) linarith
  ultimately show ?thesis using p by (simp add: times_f64_def minus_f64_def)
qed

definition capped_delay :: "backoff_config \<Rightarrow> int \<Rightarrow> duration" where
  "capped_delay cfg attempt = min (base_delay cfg * 2 ^ nat (attempt - 1)) (max_delay cfg)"

definition doubling_config :: "backoff_config \<Rightarrow> bool" where
  "doubling_config cfg \<longleftrightarrow> multiplier cfg = Fin 2 \<and> 0 < base_delay cfg \<and> base_delay cfg \<le> 2 ^ 50 \<and>
     0 \<le> max_delay cfg \<and> max_delay cfg \<le> 2 ^ 50"

lemma capped_f64:
  assumes "doubling_config cfg" and "1 \<le> attempt" and "attempt \<le> 900"
  shows "(let delay = f64_of_int (base_delay cfg) * math_pow (multiplier cfg) (nat (attempt - 1))
      in if f64_of_int (max_delay cfg) < delay then f64_of_int (max_delay cfg) else delay) =
    Fin (of_int (capped_delay cfg attempt))"
    and "0 \<le> capped_delay cfg attempt" and "capped_delay cfg attempt \<le> 2 ^ 50"
proof -
  let ?n = "nat (attempt - 1)" and ?B = "base_delay cfg" and ?M = "max_delay cfg"
  have pow: "math_pow (multiplier cfg) ?n = Fin (2 ^ ?n)"
    using assms math_pow_2 [of ?n] by (simp add: doubling_config_def)
  have "\<bar>?B\<bar> \<le> 2 ^ 53" using assms(1) by (auto simp: doubling_config_def)
  then have "to_f64 (of_int ?B * 2 powi int ?n) = Fin (of_int ?B * 2 powi int ?n)"
    using assms(2,3) by (intro to_f64_scaled) simp_all
  then have "to_f64 (of_int ?B * 2 ^ ?n) = Fin (of_int ?B * 2 ^ ?n)" by (simp only: power_int_of_nat)
  then have "Fin (of_int ?B) * Fin (2 ^ ?n) = Fin (of_int ?B * 2 ^ ?n)"
    by (simp only: times_f64_def f64_mul.simps)
  moreover have "f64_of_int ?B = Fin (of_int ?B)"
    using \<open>\<bar>?B\<bar> \<le> 2 ^ 53\<close> by (rule f64_of_int_exact)
  ultimately have prod: "f64_of_int ?B * math_pow (multiplier cfg) ?n = Fin (of_int (?B * 2 ^ ?n))"
    by (simp only: pow of_int_mult of_int_power of_int_numeral)
  have M: "f64_of_int ?M = Fin (of_int ?M)"
    using assms(1) by (simp add: doubling_config_def f64_of_int_exact)
  show "(let delay = f64_of_int ?B * math_pow (multiplier cfg) ?n
      in if f64_of_int ?M < delay then f64_of_int ?M else delay) = Fin (of_int (capped_delay cfg attempt))"
    unfolding prod M Let_def less_f64_def f64_less.simps of_int_less_iff
    by (simp add: capped_delay_def min_def not_less)
  have "0 \<le> ?B * 2 ^ ?n" using assms(1) by (simp add: doubling_config_def)
  then show "0 \<le> capped_delay cfg attempt" and "capped_delay cfg attempt \<le> 2 ^ 50"
    using assms(1) by (auto simp: capped_delay_def doubling_config_def)
qed

text \<open>
  C34: For a doubling configuration the delay before retry \<open>k\<close> is \<open>base * 2^(k-1)\<close>
  capped at the maximum; with a jitter factor \<open>j\<close> it stays within that fraction of it, up to
  two nanoseconds of rounding, and is never negative.  Without jitter it is exact.
\<close>

theorem delay_within_jitter:
  assumes "doubling_config (bo_config b)" and "1 \<le> attempt" and "attempt \<le> 900"
    and "jitter_factor (bo_config b) = Fin j" and "rnd j = j" and "0 \<le> j" and "j \<le> 1"
    and "rng b (drawn b) = Fin r" and "0 \<le> r" and "r < 1"
  defines "D \<equiv> capped_delay (bo_config b) attempt"
  shows "0 \<le> fst (calculate_delay attempt b) \<and>
    \<bar>of_int (fst (calculate_delay attempt b)) - of_int D\<bar> \<le> of_int D * j + 2 \<and>
    (j = 0 \<longrightarrow> fst (calculate_delay attempt b) = D)"
proof -
  let ?cfg = "bo_config b" and ?d = "rat_of_int D"
  note cap = capped_f64 [OF assms(1-3), folded D_def]
  have d: "0 \<le> ?d" "?d \<le> 2 ^ 50"
    using cap(2,3) of_int_le_iff [where ?'a = rat, of D "2 ^ 50"] by simp_all
  have exact: "rnd ?d = ?d" using cap(2,3) by simp
  have whole: "f64_to_int64 (Fin ?d) = D" using cap(2,3) by (simp add: trunc_rat_def in_i64_def)
  show ?thesis
  proof (cases "j = 0")
    case True
    then have "fst (calculate_delay attempt b) = f64_to_int64 (Fin ?d)"
      using cap(1) assms(4) d by (simp add: calculate_delay_def Let_def less_f64_def)
    then show ?thesis using whole cap(2) True by simp
  next
    case False
    let ?J = "rnd (?d * j)"
    have dj: "0 \<le> ?d * j" "?d * j \<le> ?d" using d assms(6,7) by (simp_all add: mult_left_le)
    then have J: "0 \<le> ?J" "?J \<le> ?d" using rnd_mono [of "?d * j" ?d] exact by (simp_all add: rnd_nonneg)
    have Jf: "Fin ?d * Fin j = Fin ?J"
      using dj d to_f64_small [of "?d * j"] by (simp add: times_f64_def)
    obtain p where p: "(Fin r * Fin 2 - Fin 1) * Fin ?J = Fin p" "\<bar>p\<bar> \<le> ?J"
      using jitter_range [OF assms(9,10), of ?J] J d by auto
    have sum: "Fin ?d + Fin p = Fin (rnd (?d + p))"
      using p(2) J d to_f64_small [of "?d + p"] by (simp add: plus_f64_def)
    have nn: "0 \<le> rnd (?d + p)" using p(2) J by (intro rnd_nonneg) linarith
    have delay: "fst (calculate_delay attempt b) = f64_to_int64 (Fin (rnd (?d + p)))"
      using cap(1) assms(4,6,8) False Jf p(1) sum nn
      by (simp add: calculate_delay_def Let_def less_f64_def)
    have "\<bar>?J - ?d * j\<bar> \<le> 1 / 4" using dj d by (intro rnd_quarter) simp
    moreover have "\<bar>rnd (?d + p) - (?d + p)\<bar> \<le> 1 / 4" using p(2) J d by (intro rnd_quarter) simp
    ultimately have near: "\<bar>rnd (?d + p) - ?d\<bar> \<le> ?d * j + 1 / 2" using p(2) by linarith
    have floor: "of_int \<lfloor>rnd (?d + p)\<rfloor> \<le> rnd (?d + p)" "rnd (?d + p) < of_int \<lfloor>rnd (?d + p)\<rfloor> + 1"
      by linarith+
    have "rnd (?d + p) \<le> 2 * 2 ^ 50 + 1" using near dj d by linarith
    also have "\<dots> < 2 ^ 63" by simp
    finally have le: "rnd (?d + p) < 2 ^ 63" .
    then have "\<lfloor>rnd (?d + p)\<rfloor> < 2 ^ 63" by (simp add: floor_less_iff)
    then have "fst (calculate_delay attempt b) = \<lfloor>rnd (?d + p)\<rfloor>"
      using delay nn by (simp add: trunc_rat_def in_i64_def le_floor_iff order_trans [of _ 0])
    then show ?thesis using near floor nn False by (simp add: le_floor_iff) linarith
  qed
qed

lemma default_backoff_doubling: "doubling_config default_backoff_config"
  by (simp add: doubling_config_def default_backoff_config_def duration_defs to_f64_Fin)

lemma default_jitter: "jitter_factor default_backoff_config = Fin (rnd (1 / 10))"
  by (simp add: default_backoff_config_def to_f64_small)

lemma tenth_bounds: "0 \<le> rnd (1 / 10)" "rnd (1 / 10) \<le> 1"
  using rnd_mono [of "1 / 10" 1] by (simp_all add: rnd_nonneg)

theorem delay_within_jitter_witness:
  "\<bar>of_int (fst (calculate_delay 3 (new_backoff (\<lambda>_. Fin (3 / 4)) default_backoff_config))) - 400000000\<bar>
     \<le> 400000000 * rnd (1 / 10) + 2"
proof -
  let ?b = "new_backoff (\<lambda>_. Fin (3 / 4)) default_backoff_config"
  have "capped_delay (bo_config ?b) 3 = 400000000"
    by (simp add: new_backoff_def capped_delay_def default_backoff_config_def duration_defs)
  then show ?thesis
    using delay_within_jitter [of ?b 3 "rnd (1 / 10)" "3 / 4"] default_backoff_doubling
      default_jitter tenth_bounds
    by (simp add: new_backoff_def)
qed

text \<open>
  The jitter is added after the cap, so a delay can exceed \<open>MaxDelay\<close>: with the
  default configuration and the random number \<open>0.75\<close>, attempt 10 waits 31.5 seconds
  although the maximum is 30 seconds.
\<close>

theorem jitter_exceeds_max_delay:
  "fst (calculate_delay 10 (new_backoff (\<lambda>_. Fin (3 / 4)) default_backoff_config)) = 31500 * millisecond
   \<and> max_delay default_backoff_config = 30000 * millisecond"
proof -
  let ?b = "new_backoff (\<lambda>_. Fin (3 / 4)) default_backoff_config" and ?cfg = default_backoff_config
  have d: "capped_delay ?cfg 10 = 30000000000"
    by (simp add: capped_delay_def default_backoff_config_def duration_defs)
  have tenth: "rnd (1 / 10) = 7205759403792794 / 2 ^ 56"
    using rnd_scaled [of "1 / 10" 56 7205759403792794] by simp
  have "rnd (30000000000 * (7205759403792794 / 2 ^ 56)) = 6291456000000000 / 2 ^ 21"
    using rnd_scaled [of "30000000000 * (7205759403792794 / 2 ^ 56)" 21 6291456000000000] by simp
  then have J: "Fin 30000000000 * Fin (rnd (1 / 10)) = Fin 3000000000"
    using to_f64_small [of "30000000000 * (7205759403792794 / 2 ^ 56)"]
    by (simp add: times_f64_def tenth)
  have half: "Fin (3 / 4) * Fin 2 - Fin 1 = Fin (1 / 2)"
    using to_f64_scaled [of 3 "- 1"] to_f64_scaled [of 1 "- 1"]
    by (simp add: times_f64_def minus_f64_def)
  have "Fin (1 / 2) * Fin 3000000000 = Fin 1500000000" and
    "Fin 30000000000 + Fin 1500000000 = Fin 31500000000"
    using f64_of_int_exact [of 1500000000] f64_of_int_exact [of 31500000000]
    by (simp_all add: times_f64_def plus_f64_def f64_of_int_def)
  moreover have "0 < rnd (1 / 10)" by (simp add: tenth)
  ultimately have "fst (calculate_delay 10 ?b) = 31500000000"
    using capped_f64(1) [OF default_backoff_doubling, of 10] d J half default_jitter
    by (simp add: calculate_delay_def new_backoff_def Let_def less_f64_def trunc_rat_def in_i64_def)
  then show ?thesis by (simp add: default_backoff_config_def duration_defs)
qed

subsection \<open>What a retry does\<close>

text \<open>The outcomes of calling a closure \<open>n\<close> times, and the attempts a run of the loop logs.\<close>

fun call_n :: "('s \<Rightarrow> 'r \<times> 's) \<Rightarrow> nat \<Rightarrow> 's \<Rightarrow> 'r list \<times> 's" where
  "call_n fn 0 s = ([], s)"
| "call_n fn (Suc n) s = (let (r, s) = fn s; (rs, s) = call_n fn n s in (r # rs, s))"

fun attempts_of :: "backoff_metric list \<Rightarrow> string list" where
  "attempts_of [] = []"
| "attempts_of (BackoffAttempts svc k # ms) = k # attempts_of ms"
| "attempts_of (BackoffDelay svc k d # ms) = attempts_of ms"

lemma attempts_of_append [simp]: "attempts_of (ms @ ms') = attempts_of ms @ attempts_of ms'"
  by (induction ms rule: attempts_of.induct) auto

lemma length_call_n: "length (fst (call_n fn n s)) = n"
  by (induction n arbitrary: s) (auto simp: split_beta Let_def)

text \<open>How a retry that made \<open>n\<close> calls, the last one with outcome \<open>err\<close>, ends with \<open>r\<close>.\<close>

definition retry_ends ::
  "(go_error \<Rightarrow> bool) \<Rightarrow> (int \<Rightarrow> go_error option) \<Rightarrow> int \<Rightarrow> int \<Rightarrow> go_error option \<Rightarrow> go_error option \<Rightarrow> bool" where
  "retry_ends should_retry ctx_done limit n err r \<longleftrightarrow>
     (case err of
        None \<Rightarrow> r = None
      | Some e \<Rightarrow>
          if \<not> should_retry e then r = Some e
          else if n = limit then r = Some (give_up limit (Some e))
          else r = ctx_done n \<and> r \<noteq> None)"

definition retried :: "(go_error \<Rightarrow> bool) \<Rightarrow> (int \<Rightarrow> go_error option) \<Rightarrow> int \<Rightarrow> go_error option \<Rightarrow> bool" where
  "retried should_retry ctx_done n err \<longleftrightarrow>
     (\<exists>e. err = Some e \<and> should_retry e) \<and> ctx_done n = None"

text \<open>What a closure costs at most once per call, a retry costs at most once per attempt.\<close>

lemma retry_loop_cost:
  fixes cost :: "'s \<Rightarrow> nat"
  assumes "\<And>s. cost (snd (fn s)) \<le> cost s + n"
    and "retry_loop svc fn should_retry ctx_done a last_err b s ms = (r, b', s', ms')"
  shows "cost s' \<le> cost s + n * nat (max_attempts (bo_config b) + 1 - a) \<and> bo_config b' = bo_config b"
  using assms(2)
proof (induction "nat (max_attempts (bo_config b) + 1 - a)" arbitrary: a last_err b s ms)
  case 0
  then show ?case by (simp add: retry_loop.simps [of _ _ _ _ a])
next
  case (Suc left)
  let ?m = "max_attempts (bo_config b)"
  obtain err s1 where fn: "fn s = (err, s1)" by fastforce
  obtain d b1 where cd: "calculate_delay a b = (d, b1)" by fastforce
  have b1: "bo_config b1 = bo_config b" using calculate_delay_config [of a b] by (simp add: cd)
  have c: "cost s1 \<le> cost s + n" using assms(1) [of s] by (simp add: fn)
  have am: "a \<le> ?m" "nat (?m + 1 - a) = Suc left" and rest: "left = nat (?m + 1 - (a + 1))" using Suc.hyps(2) by auto
  consider (stop) "s' = s1" "bo_config b' = bo_config b"
    | (more) ms1 e where "retry_loop svc fn should_retry ctx_done (a + 1) (Some e) b1 s1 ms1 = (r, b', s', ms')"
    using Suc.prems am(1) b1 that
    by (auto simp: retry_loop.simps [of _ _ _ _ a] fn cd Let_def split: option.splits if_splits)
  then show ?case
  proof cases
    case stop
    then show ?thesis using c am(2) by simp
  next
    case more
    then have "cost s' \<le> cost s1 + n * left \<and> bo_config b' = bo_config b"
      using Suc.hyps(1) [where b = b1 and a = "a + 1" and s = s1] rest b1 by metis
    then show ?thesis using c am(2) by simp
  qed
qed

text \<open>What holds of the closure's state and of every metric a run may log.\<close>

lemma retry_loop_metrics:
  assumes "\<And>s. Inv s \<Longrightarrow> Inv (snd (fn s))"
    and "\<And>i. a \<le> i \<Longrightarrow> i \<le> max_attempts (bo_config b) \<Longrightarrow> P (BackoffAttempts svc (itoa i))"
    and "\<And>i d. a \<le> i \<Longrightarrow> i < max_attempts (bo_config b) \<Longrightarrow> P (BackoffDelay svc (itoa i) d)"
    and "Inv s \<and> list_all P ms"
    and "retry_loop svc fn should_retry ctx_done a last_err b s ms = (r, b', s', ms')"
  shows "list_all P ms' \<and> Inv s' \<and> bo_config b' = bo_config b"
  using assms(2-)
proof (induction "nat (max_attempts (bo_config b) + 1 - a)" arbitrary: a last_err b s ms)
  case 0
  then show ?case by (auto simp: retry_loop.simps [of _ _ _ _ a])
next
  case (Suc n)
  let ?m = "max_attempts (bo_config b)"
  obtain err s1 where fn: "fn s = (err, s1)" by fastforce
  obtain d b1 where cd: "calculate_delay a b = (d, b1)" by fastforce
  have b1: "bo_config b1 = bo_config b" using calculate_delay_config [of a b] by (simp add: cd)
  have i1: "Inv s1" using assms(1) [of s] Suc.prems(3) by (simp add: fn)
  have am: "a \<le> ?m" and rest: "n = nat (?m + 1 - (a + 1))" using Suc.hyps(2) by auto
  have logged: "P (BackoffAttempts svc (itoa a))" "a < ?m \<Longrightarrow> P (BackoffDelay svc (itoa a) d')" for d'
    using Suc.prems(1,2) am by auto
  let ?ms = "ms @ [BackoffAttempts svc (itoa a), BackoffDelay svc (itoa a) (duration_seconds d)]"
  consider (stop) "s' = s1" "bo_config b' = bo_config b" "list_all P ms'"
    | (more) e where "a < ?m" "retry_loop svc fn should_retry ctx_done (a + 1) (Some e) b1 s1 ?ms = (r, b', s', ms')"
    using Suc.prems(3,4) am b1 logged that
    by (auto simp: retry_loop.simps [of _ _ _ _ a] fn cd Let_def split: option.splits if_splits)
  then show ?case
  proof cases
    case stop
    then show ?thesis using i1 by simp
  next
    case more
    have "list_all P ms' \<and> Inv s' \<and> bo_config b' = bo_config b1"
    proof (rule Suc.hyps(1) [of b1 "a + 1" s1 ?ms "Some e"])
      show "n = nat (max_attempts (bo_config b1) + 1 - (a + 1))" using rest by (simp add: b1)
      show "Inv s1 \<and> list_all P ?ms" using i1 Suc.prems(3) logged more(1) by simp
    qed (use more(2) Suc.prems(1,2) b1 in auto)
    then show ?thesis by (simp add: b1)
  qed
qed

lemma retry_loop_outcome:
  assumes "a \<le> max_attempts (bo_config b)"
    and "retry_loop svc fn should_retry ctx_done a last_err b s ms = (r, b', s', ms')"
  shows "\<exists>n es. a + int n \<le> max_attempts (bo_config b) \<and> call_n fn (Suc n) s = (es, s') \<and>
    (\<forall>i<n. retried should_retry ctx_done (a + int i) (es ! i)) \<and>
    attempts_of ms' = attempts_of ms @ map (\<lambda>i. itoa (a + int i)) [0..<Suc n] \<and>
    retry_ends should_retry ctx_done (max_attempts (bo_config b)) (a + int n) (es ! n) r"
  using assms
proof (induction "nat (max_attempts (bo_config b) - a)" arbitrary: a last_err b s ms rule: less_induct)
  case less
  let ?m = "max_attempts (bo_config b)"
  obtain err s1 where fn: "fn s = (err, s1)" by fastforce
  let ?ms = "ms @ [BackoffAttempts svc (itoa a)]"
  show ?case
  proof (cases "retried should_retry ctx_done a err \<and> a < ?m")
    case False
    then have "s' = s1 \<and> attempts_of ms' = attempts_of ?ms \<and> retry_ends should_retry ctx_done ?m a err r"
      using less.prems fn
      by (subst (asm) retry_loop.simps)
        (auto simp: retried_def retry_ends_def Let_def split_beta split: option.splits if_splits
          dest: sym [of "Some _" "ctx_done a"])
    then show ?thesis using less.prems(1) fn
      by (intro exI [of _ 0] exI [of _ "[err]"]) (simp add: Let_def)
  next
    case True
    then obtain e where e: "err = Some e" "should_retry e" "ctx_done a = None" by (auto simp: retried_def)
    define b1 where "b1 = snd (calculate_delay a b)"
    define ms1 where "ms1 = ?ms @ [BackoffDelay svc (itoa a) (duration_seconds (fst (calculate_delay a b)))]"
    have m1: "max_attempts (bo_config b1) = ?m" by (simp add: b1_def)
    have "retry_loop svc fn should_retry ctx_done (a + 1) (Some e) b1 s1 ms1 = (r, b', s', ms')"
      using less.prems(2) fn e True
      by (subst (asm) retry_loop.simps) (simp add: Let_def split_beta b1_def ms1_def)
    then obtain n es where IH: "a + 1 + int n \<le> ?m" "call_n fn (Suc n) s1 = (es, s')"
      "\<forall>i<n. retried should_retry ctx_done (a + 1 + int i) (es ! i)"
      "attempts_of ms' = attempts_of ms1 @ map (\<lambda>i. itoa (a + 1 + int i)) [0..<Suc n]"
      "retry_ends should_retry ctx_done ?m (a + 1 + int n) (es ! n) r"
      using less.hyps [of b1 "a + 1" "Some e" s1 ms1] True m1 by auto
    have "call_n fn (Suc (Suc n)) s = (err # es, s')" using fn IH(2) by (simp add: Let_def)
    moreover have "\<forall>i<Suc n. retried should_retry ctx_done (a + int i) ((err # es) ! i)"
      using IH(3) True by (auto simp: nth_Cons' less_Suc_eq_0_disj algebra_simps)
    moreover have "map (\<lambda>i. itoa (a + int i)) [0..<Suc (Suc n)] =
        itoa a # map (\<lambda>i. itoa (a + 1 + int i)) [0..<Suc n]"
      by (subst upt_conv_Cons) (simp_all add: map_Suc_upt [symmetric] comp_def algebra_simps del: upt_Suc)
    ultimately show ?thesis
      using IH(1,4,5) by (intro exI [of _ "Suc n"] exI [of _ "err # es"]) (simp add: ms1_def algebra_simps)
  qed
qed

text \<open>
  C15: \<open>Retry\<close> terminates after at most \<open>MaxAttempts\<close> calls.  It goes on exactly after a
  retryable error with the context alive, and it ends with success, with the first error
  that is not retryable, with the context's error, or with the last error wrapped; the
  attempts it records are those it made.
\<close>

theorem retry_outcome:
  assumes "1 \<le> max_attempts (bo_config b)"
    and "retry svc fn should_retry ctx_done b s = (r, b', s', ms)"
  shows "\<exists>n es. 1 + int n \<le> max_attempts (bo_config b) \<and> call_n fn (Suc n) s = (es, s') \<and>
    (\<forall>i<n. retried should_retry ctx_done (1 + int i) (es ! i)) \<and>
    attempts_of ms = map (\<lambda>i. itoa (1 + int i)) [0..<Suc n] \<and>
    retry_ends should_retry ctx_done (max_attempts (bo_config b)) (1 + int n) (es ! n) r"
  using retry_loop_outcome [OF assms(1), of svc fn should_retry ctx_done None s "[]" r b' s' ms] assms(2)
  by (simp add: retry_def)

theorem retry_outcome_witness:
  "\<exists>n es. 1 + int n \<le> 1 \<and>
     call_n (\<lambda>s::nat. (Some (HTTPError 503 ''busy''), Suc s)) (Suc n) 0 = (es, 1) \<and>
     retry_ends is_retryable_http_error (\<lambda>_. None) 1 (1 + int n) (es ! n)
       (Some (give_up 1 (Some (HTTPError 503 ''busy''))))"
proof -
  let ?b = "new_backoff (\<lambda>_. Fin 0) (default_backoff_config\<lparr>max_attempts := 1\<rparr>)"
  let ?fn = "\<lambda>s::nat. (Some (HTTPError 503 ''busy''), Suc s)"
  have st: "retry ''kraken'' ?fn is_retryable_http_error (\<lambda>_. None) ?b 0 =
      (Some (give_up 1 (Some (HTTPError 503 ''busy''))), ?b, 1, [BackoffAttempts ''kraken'' (itoa 1)])"
    by (simp add: retry_def retry_loop.simps new_backoff_def Let_def)
  have one: "1 \<le> max_attempts (bo_config ?b)" by (simp add: new_backoff_def)
  show ?thesis using retry_outcome [OF one st] by (simp add: new_backoff_def)
qed

text \<open>With no attempts allowed, the closure is not called and the error wraps a nil error.\<close>

lemma retry_no_attempts:
  "max_attempts (bo_config b) \<le> 0 \<Longrightarrow> retry svc fn should_retry ctx_done b s =
     (Some (give_up (max_attempts (bo_config b)) None), b, s, [])"
  by (simp add: retry_def retry_loop.simps)

end
