(* ===== verification/Go_Json.thy ===== *)
theory Go_Json
  imports Go_Strings
begin

text \<open>
  Reading JSON as \<open>encoding/json\<close> does it: the lexical grammar of RFC 8259, the
  repair of invalid UTF-8 and of unpaired surrogates by U+FFFD, the limit on nesting,
  and a decoder that stops after the first value.  A text is a string of bytes.  The
  last part is a printer, used to state what the reader does with well-formed texts.
\<close>

declare One_nat_def [simp del]

datatype json =
    JNull
  | JBool bool
  | JNumber string
  | JString string
  | JArray "json list"
  | JObject "(string \<times> json) list"

subsection \<open>Digits and code points\<close>

definition is_digit :: "char \<Rightarrow> bool" where
  "is_digit c \<longleftrightarrow> 48 \<le> byte c \<and> byte c \<le> 57"

definition hex_value :: "char \<Rightarrow> nat option" where
  "hex_value c =
     (let n = byte c in
      if 48 \<le> n \<and> n \<le> 57 then Some (n - 48)
      else if 97 \<le> n \<and> n \<le> 102 then Some (n - 87)
      else if 65 \<le> n \<and> n \<le> 70 then Some (n - 55)
      else None)"

definition utf8_encode :: "nat \<Rightarrow> string" where
  "utf8_encode r =
     (if r < 128 then [char_of r]
      else if r < 2048 then [char_of (192 + r div 64), char_of (128 + r mod 64)]
      else if r < 65536 then
        [char_of (224 + r div 4096), char_of (128 + r div 64 mod 64), char_of (128 + r mod 64)]
      else
        [char_of (240 + r div 262144), char_of (128 + r div 4096 mod 64),
         char_of (128 + r div 64 mod 64), char_of (128 + r mod 64)])"

definition rune_error :: nat where "rune_error = 65533"

definition in_bytes :: "nat \<Rightarrow> nat \<Rightarrow> char \<Rightarrow> bool" where
  "in_bytes a b c \<longleftrightarrow> a \<le> byte c \<and> byte c \<le> b"

abbreviation cont :: "char \<Rightarrow> bool" where
  "cont \<equiv> in_bytes 128 191"

text \<open>The bytes of the rune at the head of a string of valid UTF-8, 0 when it is not valid there.\<close>

fun rune_len :: "string \<Rightarrow> nat" where
  "rune_len [] = 0"
| "rune_len (a # s) =
     (if byte a < 128 then 1
      else if in_bytes 194 223 a then (case s of b # _ \<Rightarrow> if cont b then 2 else 0 | _ \<Rightarrow> 0)
      else if in_bytes 224 239 a then
        (case s of
           b # c # _ \<Rightarrow>
             if in_bytes (if byte a = 224 then 160 else 128) (if byte a = 237 then 159 else 191) b \<and> cont c
             then 3 else 0
         | _ \<Rightarrow> 0)
      else if in_bytes 240 244 a then
        (case s of
           b # c # d # _ \<Rightarrow>
             if in_bytes (if byte a = 240 then 144 else 128) (if byte a = 244 then 143 else 191) b \<and> cont c \<and> cont d
             then 4 else 0
         | _ \<Rightarrow> 0)
      else 0)"

lemma rune_len_le: "rune_len s \<le> length s"
  by (cases s) (auto split: list.splits)

subsection \<open>Strings\<close>

fun hex4 :: "string \<Rightarrow> (nat \<times> string) option" where
  "hex4 (a # b # c # d # s) =
     (case (hex_value a, hex_value b, hex_value c, hex_value d) of
        (Some i, Some j, Some k, Some l) \<Rightarrow> Some (4096 * i + 256 * j + 16 * k + l, s)
      | _ \<Rightarrow> None)"
| "hex4 _ = None"

lemma hex4_length: "hex4 s = Some (r, t) \<Longrightarrow> length t + 4 = length s"
  by (cases s rule: hex4.cases) (auto split: option.splits)

text \<open>
  After the four digits \<open>r\<close> of a \<open>\u\<close> escape: a surrogate takes a second escape with it
  when both make a pair, and stands for U+FFFD otherwise.
\<close>

definition unicode_escape :: "nat \<Rightarrow> string \<Rightarrow> nat \<times> string" where
  "unicode_escape r s =
     (if r < 55296 \<or> 57343 < r then (r, s)
      else
        (case s of
           a # b # t \<Rightarrow>
             if a = CHR 0x5C \<and> b = CHR ''u'' then
               (case hex4 t of
                  Some (q, t') \<Rightarrow>
                    if r < 56320 \<and> 56320 \<le> q \<and> q \<le> 57343 then
                      (65536 + 1024 * (r - 55296) + (q - 56320), t')
                    else (rune_error, s)
                | None \<Rightarrow> (rune_error, s))
             else (rune_error, s)
         | _ \<Rightarrow> (rune_error, s)))"

lemma unicode_escape_length: "length (snd (unicode_escape r s)) \<le> length s"
  by (auto simp: unicode_escape_def dest: hex4_length split: list.splits option.splits)

definition simple_escape :: "char \<Rightarrow> char option" where
  "simple_escape c =
     (if c \<in> {CHR 0x22, CHR 0x5C, CHR ''/''} then Some c
      else if c = CHR ''b'' then Some (char_of (8 :: nat))
      else if c = CHR ''f'' then Some (char_of (12 :: nat))
      else if c = CHR ''n'' then Some (char_of (10 :: nat))
      else if c = CHR ''r'' then Some (char_of (13 :: nat))
      else if c = CHR ''t'' then Some (char_of (9 :: nat))
      else None)"

text \<open>One character of a string, as it is decoded, and the rest of the text.\<close>

definition scan_char :: "char \<Rightarrow> string \<Rightarrow> (string \<times> string) option" where
  "scan_char c s =
     (if byte c < 32 then None
      else if c = CHR 0x5C then
        (case s of
           [] \<Rightarrow> None
         | e # t \<Rightarrow>
             if e = CHR ''u'' then
               map_option (\<lambda>(r, t'). let (q, t'') = unicode_escape r t' in (utf8_encode q, t'')) (hex4 t)
             else map_option (\<lambda>d. ([d], t)) (simple_escape e))
      else if rune_len (c # s) = 0 then Some (utf8_encode rune_error, s)
      else Some (take (rune_len (c # s)) (c # s), drop (rune_len (c # s)) (c # s)))"

lemma scan_char_length:
  assumes "scan_char c s = Some (x, t)"
  shows "length t < length (c # s)"
proof (cases "c = CHR 0x5C")
  case True
  then obtain e u where s: "s = e # u" using assms by (auto simp: scan_char_def split: if_splits list.splits)
  show ?thesis
  proof (cases "e = CHR ''u''")
    case True
    then obtain r t' where h: "hex4 u = Some (r, t')" and t: "t = snd (unicode_escape r t')"
      using assms \<open>c = CHR 0x5C\<close> by (auto simp: scan_char_def s Let_def split_beta split: if_splits)
    have "length t \<le> length t'" using unicode_escape_length by (simp add: t)
    then show ?thesis using hex4_length [OF h] by (simp add: s)
  qed (use assms \<open>c = CHR 0x5C\<close> s in \<open>auto simp: scan_char_def split: if_splits\<close>)
next
  case False
  then show ?thesis using assms rune_len_le [of "c # s"] by (auto simp: scan_char_def split: if_splits)
qed

text \<open>The contents of a string up to its closing quote, and the rest of the text.\<close>

function scan_string :: "string \<Rightarrow> string \<Rightarrow> (string \<times> string) option" where
  "scan_string acc [] = None"
| "scan_string acc (c # s) =
     (if c = CHR 0x22 then Some (acc, s)
      else (case scan_char c s of None \<Rightarrow> None | Some (x, t) \<Rightarrow> scan_string (acc @ x) t))"
  by pat_completeness auto
termination
  by (relation "measure (\<lambda>(acc, s). length s)") (auto dest: scan_char_length)

declare scan_string.simps [simp del]

lemma scan_string_length: "scan_string acc s = Some (x, t) \<Longrightarrow> length t < length s"
proof (induction acc s rule: scan_string.induct)
  case (1 acc)
  then show ?case by (simp add: scan_string.simps)
next
  case (2 acc c s)
  from "2.prems" show ?case
    by (subst (asm) scan_string.simps)
      (force split: if_splits option.splits dest: "2.IH" scan_char_length)
qed

subsection \<open>Numbers and tokens\<close>

definition span_digits :: "string \<Rightarrow> string \<times> string" where
  "span_digits s = (takeWhile is_digit s, dropWhile is_digit s)"

definition scan_sign :: "char set \<Rightarrow> string \<Rightarrow> string \<times> string" where
  "scan_sign cs s = (case s of c # t \<Rightarrow> if c \<in> cs then ([c], t) else ([], s) | [] \<Rightarrow> ([], s))"

definition scan_fraction :: "string \<Rightarrow> (string \<times> string) option" where
  "scan_fraction s =
     (case s of
        c # t \<Rightarrow>
          if c = CHR ''.'' then
            (let (d, r) = span_digits t in if d = [] then None else Some (c # d, r))
          else Some ([], s)
      | [] \<Rightarrow> Some ([], s))"

definition scan_exponent :: "string \<Rightarrow> (string \<times> string) option" where
  "scan_exponent s =
     (case s of
        c # t \<Rightarrow>
          if c = CHR ''e'' \<or> c = CHR ''E'' then
            (let (g, t) = scan_sign {CHR ''+'', CHR ''-''} t; (d, r) = span_digits t
             in if d = [] then None else Some (c # g @ d, r))
          else Some ([], s)
      | [] \<Rightarrow> Some ([], s))"

text \<open>A zero is not followed by more digits: they are the start of another token.\<close>

definition scan_number :: "string \<Rightarrow> (string \<times> string) option" where
  "scan_number s =
     (let (g, t) = scan_sign {CHR ''-''} s; (d, r) = span_digits t;
          (d, r) = (if take 1 d = ''0'' then (''0'', drop 1 t) else (d, r))
      in if d = [] then None
         else
           (case scan_fraction r of
              None \<Rightarrow> None
            | Some (f, r) \<Rightarrow>
                (case scan_exponent r of None \<Rightarrow> None | Some (e, r) \<Rightarrow> Some (g @ d @ f @ e, r))))"

datatype token =
    TOpenObj | TCloseObj | TOpenArr | TCloseArr | TColon | TComma
  | TStr string | TNum string | TTrue | TFalse | TNull | TBad

definition json_space :: "char \<Rightarrow> bool" where
  "json_space c \<longleftrightarrow> byte c \<in> {9, 10, 13, 32}"

definition punctuation :: "char \<Rightarrow> token option" where
  "punctuation c =
     map_of [(CHR ''{'', TOpenObj), (CHR ''}'', TCloseObj), (CHR ''['', TOpenArr), (CHR '']'', TCloseArr),
             (CHR '':'', TColon), (CHR '','', TComma)] c"

text \<open>The token at the head of a text that does not start with a space.\<close>

definition lex_token :: "char \<Rightarrow> string \<Rightarrow> (token \<times> string) option" where
  "lex_token c s =
     (case punctuation c of
        Some t \<Rightarrow> Some (t, s)
      | None \<Rightarrow>
          if c = CHR 0x22 then map_option (\<lambda>(x, r). (TStr x, r)) (scan_string [] s)
          else if has_prefix (c # s) ''true'' then Some (TTrue, drop 3 s)
          else if has_prefix (c # s) ''false'' then Some (TFalse, drop 4 s)
          else if has_prefix (c # s) ''null'' then Some (TNull, drop 3 s)
          else
            (case scan_number (c # s) of
               Some (x, r) \<Rightarrow> if length r \<le> length s then Some (TNum x, r) else None
             | None \<Rightarrow> None))"

text \<open>The tokens of a text; at the first place where there is none, \<open>TBad\<close> ends the list.\<close>

function json_lex :: "string \<Rightarrow> token list" where
  "json_lex [] = []"
| "json_lex (c # s) =
     (if json_space c then json_lex s
      else (case lex_token c s of None \<Rightarrow> [TBad] | Some (t, r) \<Rightarrow> t # json_lex r))"
  by pat_completeness auto
termination
  by (relation "measure length")
    (auto simp: lex_token_def less_Suc_eq_le split: option.splits if_splits dest: scan_string_length)

declare json_lex.simps [simp del]

subsection \<open>Values\<close>

text \<open>
  What surrounds the value being read: the elements of an array before it, or the
  members of an object before it and its own key.
\<close>

datatype frame = InArray "json list" | InObject "(string \<times> json) list" string

text \<open>
  \<open>WantValue b\<close>: a value follows, or the end of an empty array if \<open>b\<close>;
  \<open>WantKey b ms\<close>: a key follows, or the end of an empty object if \<open>b\<close>; \<open>HaveValue v\<close>:
  a value was read.
\<close>

datatype goal = WantValue bool | WantKey bool "(string \<times> json) list" | WantColon "(string \<times> json) list" string
  | HaveValue json

definition max_nesting :: nat where "max_nesting = 10000"

fun json_step :: "token \<Rightarrow> goal \<Rightarrow> frame list \<Rightarrow> (goal \<times> frame list) option" where
  "json_step t (WantValue b) K =
     (case t of
        TNull \<Rightarrow> Some (HaveValue JNull, K)
      | TTrue \<Rightarrow> Some (HaveValue (JBool True), K)
      | TFalse \<Rightarrow> Some (HaveValue (JBool False), K)
      | TNum x \<Rightarrow> Some (HaveValue (JNumber x), K)
      | TStr x \<Rightarrow> Some (HaveValue (JString x), K)
      | TOpenArr \<Rightarrow> if length K < max_nesting then Some (WantValue True, InArray [] # K) else None
      | TOpenObj \<Rightarrow> if length K < max_nesting then Some (WantKey True [], K) else None
      | TCloseArr \<Rightarrow>
          (case K of
             InArray vs # K' \<Rightarrow> if b then Some (HaveValue (JArray vs), K') else None
           | _ \<Rightarrow> None)
      | _ \<Rightarrow> None)"
| "json_step t (WantKey b ms) K =
     (case t of
        TStr k \<Rightarrow> Some (WantColon ms k, K)
      | TCloseObj \<Rightarrow> if b then Some (HaveValue (JObject ms), K) else None
      | _ \<Rightarrow> None)"
| "json_step t (WantColon ms k) K =
     (if t = TColon then Some (WantValue False, InObject ms k # K) else None)"
| "json_step t (HaveValue v) K =
     (case K of
        InArray vs # K' \<Rightarrow>
          (if t = TComma then Some (WantValue False, InArray (vs @ [v]) # K')
           else if t = TCloseArr then Some (HaveValue (JArray (vs @ [v])), K')
           else None)
      | InObject ms k # K' \<Rightarrow>
          (if t = TComma then Some (WantKey False (ms @ [(k, v)]), K')
           else if t = TCloseObj then Some (HaveValue (JObject (ms @ [(k, v)])), K')
           else None)
      | [] \<Rightarrow> None)"

text \<open>Reading ends with the first complete value; what follows it is not looked at.\<close>

fun json_parse :: "token list \<Rightarrow> goal \<Rightarrow> frame list \<Rightarrow> json option" where
  "json_parse ts (HaveValue v) [] = Some v"
| "json_parse [] g K = None"
| "json_parse (t # ts) g K =
     (case json_step t g K of None \<Rightarrow> None | Some (g, K) \<Rightarrow> json_parse ts g K)"

definition json_decode :: "string \<Rightarrow> json option" where
  "json_decode s = json_parse (json_lex s) (WantValue False) []"

subsection \<open>Well-formed texts\<close>

text \<open>
  A printer without spaces, the tokens of what it prints, and the values it prints
  faithfully: strings of printable ASCII that need no escape, and numbers the scanner
  accepts.
\<close>

definition plain :: "string \<Rightarrow> bool" where
  "plain s \<longleftrightarrow> (\<forall>c\<in>set s. 32 \<le> byte c \<and> byte c < 127 \<and> c \<noteq> CHR 0x22 \<and> c \<noteq> CHR 0x5C)"

definition quoted :: "string \<Rightarrow> string" where
  "quoted s = CHR 0x22 # s @ [CHR 0x22]"

fun json_text :: "json \<Rightarrow> string" where
  "json_text JNull = ''null''"
| "json_text (JBool b) = (if b then ''true'' else ''false'')"
| "json_text (JNumber x) = x"
| "json_text (JString s) = quoted s"
| "json_text (JArray vs) = ''['' @ str_join '','' (map json_text vs) @ '']''"
| "json_text (JObject ms) =
     ''{'' @ str_join '','' (map (\<lambda>(k, v). quoted k @ '':'' @ json_text v) ms) @ ''}''"

fun joined :: "token list list \<Rightarrow> token list" where
  "joined [] = []"
| "joined [t] = t"
| "joined (t # u # us) = t @ TComma # joined (u # us)"

fun json_tokens :: "json \<Rightarrow> token list" where
  "json_tokens JNull = [TNull]"
| "json_tokens (JBool b) = [if b then TTrue else TFalse]"
| "json_tokens (JNumber x) = [TNum x]"
| "json_tokens (JString s) = [TStr s]"
| "json_tokens (JArray vs) = TOpenArr # joined (map json_tokens vs) @ [TCloseArr]"
| "json_tokens (JObject ms) =
     TOpenObj # joined (map (\<lambda>(k, v). [TStr k, TColon] @ json_tokens v) ms) @ [TCloseObj]"

fun json_plain :: "json \<Rightarrow> bool" where
  "json_plain (JNumber x) \<longleftrightarrow> x \<noteq> [] \<and> (is_digit (hd x) \<or> hd x = CHR ''-'') \<and> scan_number x = Some (x, [])"
| "json_plain (JString s) \<longleftrightarrow> plain s"
| "json_plain (JArray vs) \<longleftrightarrow> (\<forall>v\<in>set vs. json_plain v)"
| "json_plain (JObject ms) \<longleftrightarrow> (\<forall>(k, v)\<in>set ms. plain k \<and> json_plain v)"
| "json_plain _ \<longleftrightarrow> True"

fun json_depth :: "json \<Rightarrow> nat" where
  "json_depth (JArray vs) = Suc (foldr max (map json_depth vs) 0)"
| "json_depth (JObject ms) = Suc (foldr max (map (\<lambda>(k, v). json_depth v) ms) 0)"
| "json_depth _ = 0"

lemma foldr_max_le: "(foldr max xs 0 \<le> (n :: nat)) \<longleftrightarrow> (\<forall>x\<in>set xs. x \<le> n)"
  by (induction xs) auto

text \<open>Reading the tokens of \<open>v\<close>, wherever they stand, gives \<open>v\<close>.\<close>

definition reads :: "json \<Rightarrow> bool" where
  "reads v \<longleftrightarrow> (\<forall>b K ts. json_depth v + length K \<le> max_nesting \<longrightarrow>
     json_parse (json_tokens v @ ts) (WantValue b) K = json_parse ts (HaveValue v) K)"

lemma readsD: "reads v \<Longrightarrow> json_depth v + length K \<le> max_nesting \<Longrightarrow>
    json_parse (json_tokens v @ ts) (WantValue b) K = json_parse ts (HaveValue v) K"
  by (simp add: reads_def)

lemma parse_elements:
  assumes "\<forall>v\<in>set vs. reads v \<and> Suc (json_depth v + length K) \<le> max_nesting" and "vs \<noteq> []"
  shows "json_parse (joined (map json_tokens vs) @ TCloseArr # ts) (WantValue b) (InArray ws # K) =
    json_parse ts (HaveValue (JArray (ws @ vs))) K"
  using assms
proof (induction vs arbitrary: b ws rule: induct_list012)
  case (2 v)
  then show ?case by (simp add: readsD)
next
  case (3 v u us)
  have "json_parse (joined (map json_tokens (u # us)) @ TCloseArr # ts) (WantValue False) (InArray (ws @ [v]) # K) =
      json_parse ts (HaveValue (JArray ((ws @ [v]) @ u # us))) K"
    using "3.prems" by (intro "3.IH"(2)) auto
  then show ?case using "3.prems" by (simp add: readsD)
qed simp

lemma parse_members:
  assumes "\<forall>m\<in>set ms. reads (snd m) \<and> Suc (json_depth (snd m) + length K) \<le> max_nesting" and "ms \<noteq> []"
  shows "json_parse (joined (map (\<lambda>m. TStr (fst m) # TColon # json_tokens (snd m)) ms) @ TCloseObj # ts)
      (WantKey b ns) K = json_parse ts (HaveValue (JObject (ns @ ms))) K"
  using assms
proof (induction ms arbitrary: b ns rule: induct_list012)
  case (2 m)
  then show ?case by (simp add: readsD)
next
  case (3 m m' ms)
  have "json_parse (joined (map (\<lambda>m. TStr (fst m) # TColon # json_tokens (snd m)) (m' # ms)) @ TCloseObj # ts)
      (WantKey False (ns @ [m])) K = json_parse ts (HaveValue (JObject ((ns @ [m]) @ m' # ms))) K"
    using "3.prems" by (intro "3.IH"(2)) auto
  then show ?case using "3.prems" by (simp add: readsD)
qed simp

lemma reads_all: "reads v"
proof (induction v)
  case (JArray vs)
  show ?case
    unfolding reads_def
  proof (intro allI impI)
    fix b ts and K :: "frame list"
    assume d: "json_depth (JArray vs) + length K \<le> max_nesting"
    then have "\<forall>v\<in>set vs. reads v \<and> Suc (json_depth v + length K) \<le> max_nesting"
      using JArray foldr_max_le [of "map json_depth vs" "max_nesting - Suc (length K)"] by auto
    then show "json_parse (json_tokens (JArray vs) @ ts) (WantValue b) K = json_parse ts (HaveValue (JArray vs)) K"
      using parse_elements [of vs K ts True "[]"] d by (cases "vs = []") simp_all
  qed
next
  case (JObject ms)
  show ?case
    unfolding reads_def
  proof (intro allI impI)
    fix b ts and K :: "frame list"
    assume d: "json_depth (JObject ms) + length K \<le> max_nesting"
    then have "\<forall>m\<in>set ms. reads (snd m) \<and> Suc (json_depth (snd m) + length K) \<le> max_nesting"
      using JObject foldr_max_le [of "map (\<lambda>(k, v). json_depth v) ms" "max_nesting - Suc (length K)"]
      by (auto simp: snds.simps)
    then show "json_parse (json_tokens (JObject ms) @ ts) (WantValue b) K = json_parse ts (HaveValue (JObject ms)) K"
      using parse_members [of ms K ts True "[]"] d by (cases "ms = []") (simp_all add: case_prod_unfold)
  qed
qed (simp_all add: reads_def)

lemma scan_plain: "plain s \<Longrightarrow> scan_string acc (s @ CHR 0x22 # r) = Some (acc @ s, r)"
proof (induction s arbitrary: acc)
  case (Cons c s)
  then have "scan_char c (s @ CHR 0x22 # r) = Some ([c], s @ CHR 0x22 # r)"
    by (simp add: scan_char_def plain_def One_nat_def)
  then show ?case using Cons.prems Cons.IH [of "acc @ [c]"] by (simp add: scan_string.simps plain_def)
qed (simp add: scan_string.simps)

lemma json_lex_punctuation:
  "json_lex (CHR ''{'' # s) = TOpenObj # json_lex s" "json_lex (CHR ''}'' # s) = TCloseObj # json_lex s"
  "json_lex (CHR ''['' # s) = TOpenArr # json_lex s" "json_lex (CHR '']'' # s) = TCloseArr # json_lex s"
  "json_lex (CHR '':'' # s) = TColon # json_lex s" "json_lex (CHR '','' # s) = TComma # json_lex s"
  by (simp_all add: json_lex.simps json_space_def byte_def lex_token_def punctuation_def)

lemma json_lex_quoted: "plain k \<Longrightarrow> json_lex (quoted k @ r) = TStr k # json_lex r"
  by (simp add: quoted_def json_lex.simps json_space_def byte_def lex_token_def punctuation_def scan_plain)

lemma json_lex_words:
  "json_lex (''true'' @ r) = TTrue # json_lex r" "json_lex (''false'' @ r) = TFalse # json_lex r"
  "json_lex (''null'' @ r) = TNull # json_lex r"
  by (simp_all add: json_lex.simps json_space_def byte_def lex_token_def punctuation_def has_prefix_def)

text \<open>What follows a value in a text that was printed.\<close>

definition delimited :: "string \<Rightarrow> bool" where
  "delimited r \<longleftrightarrow> r = [] \<or> hd r \<in> {CHR '','', CHR '']'', CHR ''}''}"

lemma delimited_simps [simp]: "delimited []" "delimited (CHR '','' # r)" "delimited (CHR '']'' # r)" "delimited (CHR ''}'' # r)"
  by (simp_all add: delimited_def)

lemma delimited_digit: "delimited r \<Longrightarrow> r = [] \<or> \<not> is_digit (hd r)"
  by (auto simp: delimited_def is_digit_def byte_def)

lemma span_digits_append:
  assumes "delimited r"
  shows "span_digits (s @ r) = (fst (span_digits s), snd (span_digits s) @ r)"
proof (cases "\<forall>c\<in>set s. is_digit c")
  case True
  then have "s = takeWhile is_digit s" by (metis takeWhile_eq_all_conv)
  then show ?thesis using delimited_digit [OF assms] True
    by (cases r) (auto simp: span_digits_def)
next
  case False
  then show ?thesis by (auto simp: span_digits_def)
qed

lemma scan_sign_append: "delimited r \<Longrightarrow> cs \<subseteq> {CHR ''+'', CHR ''-''} \<Longrightarrow>
    scan_sign cs (s @ r) = (fst (scan_sign cs s), snd (scan_sign cs s) @ r)"
  by (cases s; cases r) (auto simp: scan_sign_def delimited_def)

lemma scan_fraction_append: "delimited r \<Longrightarrow> scan_fraction (s @ r) = map_option (\<lambda>(f, t). (f, t @ r)) (scan_fraction s)"
  by (cases s; cases r) (auto simp: scan_fraction_def delimited_def span_digits_append Let_def split_beta)

lemma scan_exponent_append: "delimited r \<Longrightarrow> scan_exponent (s @ r) = map_option (\<lambda>(f, t). (f, t @ r)) (scan_exponent s)"
  by (cases s; cases r)
    (auto simp: scan_exponent_def delimited_def span_digits_append scan_sign_append Let_def split_beta)

lemma scan_number_append:
  assumes "delimited r" and "scan_number s = Some (s, [])"
  shows "scan_number (s @ r) = Some (s, r)"
proof -
  have cs: "{CHR ''-''} \<subseteq> {CHR ''+'', CHR ''-''}" by simp
  note app = scan_sign_append [OF assms(1) cs] span_digits_append [OF assms(1)] scan_fraction_append [OF assms(1)]
    scan_exponent_append [OF assms(1)]
  define t where "t = snd (scan_sign {CHR ''-''} s)"
  have zero: "take 1 (fst (span_digits t)) = ''0'' \<Longrightarrow> drop 1 (t @ r) = drop 1 t @ r"
    by (cases t) (simp_all add: span_digits_def One_nat_def)
  show ?thesis using assms(2) zero
    unfolding scan_number_def app t_def [symmetric]
    by (auto simp: Let_def split_beta app t_def [symmetric] simp del: drop_append split: if_splits option.splits)
qed

lemma number_head: "x \<noteq> [] \<Longrightarrow> is_digit (hd x) \<or> hd x = CHR ''-'' \<Longrightarrow>
    punctuation (hd x) = None \<and> hd x \<noteq> CHR 0x22 \<and> \<not> json_space (hd x) \<and> hd x \<notin> {CHR ''t'', CHR ''f'', CHR ''n''}"
  by (auto simp: is_digit_def byte_def punctuation_def json_space_def)

lemma json_lex_number:
  assumes "json_plain (JNumber x)" and "delimited r"
  shows "json_lex (x @ r) = TNum x # json_lex r"
proof -
  obtain c t where x: "x = c # t" using assms(1) by (cases x) auto
  have "scan_number (c # t @ r) = Some (x, r)" using scan_number_append [OF assms(2), of x] assms(1) x by simp
  then show ?thesis using number_head [of x] assms(1) x
    by (simp add: json_lex.simps lex_token_def has_prefix_def)
qed

text \<open>Each printed value is a run of its tokens, whatever delimiter follows.\<close>

definition lexes :: "json \<Rightarrow> bool" where
  "lexes v \<longleftrightarrow> (\<forall>r. delimited r \<longrightarrow> json_lex (json_text v @ r) = json_tokens v @ json_lex r)"

lemma lexesD: "lexes v \<Longrightarrow> delimited r \<Longrightarrow> json_lex (json_text v @ r) = json_tokens v @ json_lex r"
  by (simp add: lexes_def)

lemma lex_elements:
  assumes "\<forall>v\<in>set vs. lexes v" and "delimited r"
  shows "json_lex (str_join '','' (map json_text vs) @ r) = joined (map json_tokens vs) @ json_lex r"
  using assms(1)
  by (induction vs rule: induct_list012) (simp_all add: lexesD assms(2) json_lex_punctuation)

lemma lex_members:
  assumes "\<forall>m\<in>set ms. plain (fst m) \<and> lexes (snd m)" and "delimited r"
  shows "json_lex (str_join '','' (map (\<lambda>m. quoted (fst m) @ '':'' @ json_text (snd m)) ms) @ r) =
    joined (map (\<lambda>m. [TStr (fst m), TColon] @ json_tokens (snd m)) ms) @ json_lex r"
  using assms(1)
  by (induction ms rule: induct_list012)
    (simp_all add: lexesD assms(2) json_lex_punctuation json_lex_quoted)

lemma lexes_plain: "json_plain v \<Longrightarrow> lexes v"
proof (induction v)
  case (JNumber x)
  then show ?case using json_lex_number by (simp add: lexes_def)
next
  case (JArray vs)
  then show ?case
    using lex_elements [of vs] by (auto simp: lexes_def json_lex_punctuation)
next
  case (JObject ms)
  then have "\<forall>m\<in>set ms. plain (fst m) \<and> lexes (snd m)" by (force simp: snds.simps)
  then show ?case
    using lex_members [of ms] by (auto simp: lexes_def json_lex_punctuation case_prod_unfold)
qed (auto simp: lexes_def json_lex_words [simplified] json_lex_quoted)

text \<open>A printed value reads back as itself, whatever comes after it in the stream.\<close>

lemma json_decode_text:
  assumes "json_plain v" and "json_depth v \<le> max_nesting" and "delimited r"
  shows "json_decode (json_text v @ r) = Some v"
proof -
  have "json_parse ts (HaveValue v) [] = Some v" for ts by (cases ts) simp_all
  then show ?thesis
    using readsD [OF reads_all, of v "[]" "json_lex r" False] assms lexesD [OF lexes_plain [OF assms(1)], of r]
    by (simp add: json_decode_def)
qed

end
