(* ===== verification/Go_Numbers.thy ===== *)
theory Go_Numbers
  imports Go_Json Float64
begin

text \<open>
  Reading numbers: \<open>strconv.Atoi\<close>, \<open>ParseInt\<close> (base 10), \<open>ParseBool\<close> and \<open>ParseFloat\<close>,
  \<open>time.ParseDuration\<close>, and what \<open>fmt.Sscan\<close> does with a \<open>*float64\<close>.  The program only
  tests for their errors, so an error is \<open>None\<close>.
\<close>

declare One_nat_def [simp del]

subsection \<open>Integers and booleans\<close>

definition digit_val :: "char \<Rightarrow> int" where
  "digit_val c = int (byte c) - 48"

definition decimal :: "string \<Rightarrow> int" where
  "decimal ds = foldl (\<lambda>n c. 10 * n + digit_val c) 0 ds"

definition parse_int :: "string \<Rightarrow> int option" where
  "parse_int s =
     (let (g, ds) = scan_sign {CHR ''+'', CHR ''-''} s;
          n = (if g = ''-'' then - decimal ds else decimal ds)
      in if ds \<noteq> [] \<and> list_all is_digit ds \<and> in_i64 n then Some n else None)"

definition parse_bool :: "string \<Rightarrow> bool option" where
  "parse_bool s =
     (if s \<in> {''1'', ''t'', ''T'', ''TRUE'', ''true'', ''True''} then Some True
      else if s \<in> {''0'', ''f'', ''F'', ''FALSE'', ''false'', ''False''} then Some False
      else None)"

subsection \<open>Floating point\<close>

definition lower_byte :: "char \<Rightarrow> char" where
  "lower_byte c = (if 65 \<le> byte c \<and> byte c \<le> 90 then char_of (byte c + 32) else c)"

definition based_digit :: "bool \<Rightarrow> char \<Rightarrow> nat option" where
  "based_digit hex c = (if hex \<or> is_digit c then hex_value c else None)"

text \<open>The mantissa, the number of its digits behind the point, and whether it has a digit.\<close>

fun read_mantissa :: "bool \<Rightarrow> bool \<Rightarrow> nat \<Rightarrow> nat \<Rightarrow> bool \<Rightarrow> string \<Rightarrow> nat \<times> nat \<times> bool \<times> string" where
  "read_mantissa hex dot m f saw [] = (m, f, saw, [])"
| "read_mantissa hex dot m f saw (c # s) =
     (if c = CHR ''_'' then read_mantissa hex dot m f saw s
      else if c = CHR ''.'' \<and> \<not> dot then read_mantissa hex True m f saw s
      else
        (case based_digit hex c of
           Some d \<Rightarrow>
             read_mantissa hex dot ((if hex then 16 else 10) * m + d) (if dot then Suc f else f) True s
         | None \<Rightarrow> (m, f, saw, c # s)))"

fun read_exponent :: "int \<Rightarrow> string \<Rightarrow> int \<times> string" where
  "read_exponent e [] = (e, [])"
| "read_exponent e (c # s) =
     (if c = CHR ''_'' then read_exponent e s
      else if is_digit c then read_exponent (if e < 10000 then 10 * e + digit_val c else e) s
      else (e, c # s))"

text \<open>An underscore stands between digits, or between the base prefix and a digit.\<close>

fun underscores_ok :: "bool \<Rightarrow> char \<Rightarrow> string \<Rightarrow> bool" where
  "underscores_ok hex saw [] \<longleftrightarrow> saw \<noteq> CHR ''_''"
| "underscores_ok hex saw (c # s) \<longleftrightarrow>
     (if based_digit hex c \<noteq> None then underscores_ok hex CHR ''0'' s
      else if c = CHR ''_'' then saw = CHR ''0'' \<and> underscores_ok hex CHR ''_'' s
      else saw \<noteq> CHR ''_'' \<and> underscores_ok hex CHR ''!'' s)"

definition hex_prefix :: "string \<Rightarrow> bool" where
  "hex_prefix s \<longleftrightarrow> 2 < length s \<and> take 2 (map lower_byte s) = ''0x''"

definition read_float :: "string \<Rightarrow> rat option" where
  "read_float s =
     (let (g, t) = scan_sign {CHR ''+'', CHR ''-''} s;
          hex = hex_prefix t;
          body = (if hex then drop 2 t else t);
          (m, f, saw, r) = read_mantissa hex False 0 0 False body;
          sgn = (if g = ''-'' then - 1 else 1);
          value = (\<lambda>e. sgn * of_nat m *
            (if hex then 2 powi (e - 4 * int f) else 10 powi (e - int f)));
          well = underscores_ok hex (if hex then CHR ''0'' else CHR ''^'') body
      in if \<not> saw then None
         else if r \<noteq> [] \<and> lower_byte (hd r) = (if hex then CHR ''p'' else CHR ''e'') then
           (let (h, u) = scan_sign {CHR ''+'', CHR ''-''} (tl r) in
            if u = [] \<or> \<not> is_digit (hd u) then None
            else
              (let (e, r) = read_exponent 0 u
               in if r = [] \<and> well then Some (value (if h = ''-'' then - e else e)) else None))
         else if r = [] \<and> \<not> hex \<and> well then Some (value 0)
         else None)"

text \<open>A finite literal that rounds to an infinity is out of range, an error.\<close>

definition parse_float :: "string \<Rightarrow> f64 option" where
  "parse_float s =
     (let (g, t) = scan_sign {CHR ''+'', CHR ''-''} s in
      if map lower_byte s = ''nan'' then Some NaN
      else if map lower_byte t = ''inf'' \<or> map lower_byte t = ''infinity'' then
        Some (if g = ''-'' then NInf else PInf)
      else
        (case read_float s of
           None \<Rightarrow> None
         | Some x \<Rightarrow> (case to_f64 x of Fin y \<Rightarrow> Some (Fin y) | _ \<Rightarrow> None)))"

subsection \<open>fmt.Sscan\<close>

text \<open>The number of bytes of the white space character at the head of a string, 0 when there is none.\<close>

definition scan_space :: "string \<Rightarrow> nat" where
  "scan_space s =
     (let bs = map byte (take 3 s) in
      if bs = [] then 0
      else if hd bs \<in> {9, 10, 11, 12, 13, 32} then 1
      else if take 2 bs \<in> {[194, 133], [194, 160]} then 2
      else if bs \<in> {[225, 154, 128], [226, 128, 168], [226, 128, 169], [226, 128, 175], [226, 129, 159],
                    [227, 128, 128]} then 3
      else if length bs = 3 \<and> take 2 bs = [226, 128] \<and> 128 \<le> bs ! 2 \<and> bs ! 2 \<le> 138 then 3
      else 0)"

function skip_space :: "string \<Rightarrow> string" where
  "skip_space s = (if scan_space s = 0 then s else skip_space (drop (scan_space s) s))"
  by pat_completeness auto
termination
  by (relation "measure length") (auto simp: scan_space_def Let_def split: if_splits)

declare skip_space.simps [simp del]

text \<open>The token taken so far and the input left.\<close>

type_synonym scan = "string \<times> string"

fun accept :: "char set \<Rightarrow> scan \<Rightarrow> bool \<times> scan" where
  "accept cs (buf, []) = (False, buf, [])"
| "accept cs (buf, c # s) = (if c \<in> cs then (True, buf @ [c], s) else (False, buf, c # s))"

definition accept_all :: "char set \<Rightarrow> scan \<Rightarrow> scan" where
  "accept_all cs st = (case st of (buf, s) \<Rightarrow> (buf @ takeWhile (\<lambda>c. c \<in> cs) s, dropWhile (\<lambda>c. c \<in> cs) s))"

text \<open>Three letters in a row, given up at the first that is missing; what was taken stays taken.\<close>

definition accept3 :: "char set \<Rightarrow> char set \<Rightarrow> char set \<Rightarrow> scan \<Rightarrow> bool \<times> scan" where
  "accept3 as bs cs st =
     (let (a, st) = accept as st in
      if \<not> a then (False, st)
      else (let (b, st) = accept bs st in if \<not> b then (False, st) else accept cs st))"

definition float_token :: "string \<Rightarrow> string" where
  "float_token s =
     (let (nan, st) = accept3 (set ''nN'') (set ''aA'') (set ''nN'') ([], s) in
      if nan then fst st
      else
        (let (_, st) = accept (set ''+-'') st;
             (inf, st) = accept3 (set ''iI'') (set ''nN'') (set ''fF'') st
         in if inf then fst st
            else
              (let (zero, st) = accept {CHR ''0''} st;
                   (hex, st) = (if zero then accept (set ''xX'') st else (False, st));
                   digits = (if hex then set ''0123456789aAbBcCdDeEfF_'' else set ''0123456789_'');
                   st = accept_all digits st;
                   (point, st) = accept {CHR ''.''} st;
                   st = (if point then accept_all digits st else st);
                   (ex, st) = accept (if hex then set ''pP'' else set ''eEpP'') st
               in if \<not> ex then fst st
                  else (let (_, st) = accept (set ''+-'') st in fst (accept_all (set ''0123456789_'') st)))))"

text \<open>The scanner's own mix of a decimal mantissa with a binary exponent, \<open>1.5p3\<close>, is not \<open>ParseFloat\<close>'s.\<close>

definition convert_float :: "string \<Rightarrow> f64 option" where
  "convert_float s =
     (case index_byte CHR ''p'' s of
        Some p \<Rightarrow>
          if CHR ''x'' \<in> set s \<or> CHR ''X'' \<in> set s then parse_float s
          else
            (case (parse_float (take p s), parse_int (drop (p + 1) s)) of
               (Some f, Some m) \<Rightarrow> Some (ldexp f m)
             | _ \<Rightarrow> None)
      | None \<Rightarrow> parse_float s)"

definition sscan_float :: "string \<Rightarrow> f64 option" where
  "sscan_float s = convert_float (float_token (skip_space s))"

subsection \<open>time.ParseDuration\<close>

text \<open>\<open>leadingInt\<close>: \<open>None\<close> once the value passes 2^63.\<close>

fun leading_int :: "int \<Rightarrow> string \<Rightarrow> (int \<times> string) option" where
  "leading_int x [] = Some (x, [])"
| "leading_int x (c # s) =
     (if is_digit c then
        (if 2 ^ 63 div 10 < x \<or> 2 ^ 63 < 10 * x + digit_val c then None
         else leading_int (10 * x + digit_val c) s)
      else Some (x, c # s))"

text \<open>\<open>leadingFraction\<close>: digits beyond the range of the value are read and ignored.\<close>

fun leading_fraction :: "bool \<Rightarrow> int \<Rightarrow> f64 \<Rightarrow> string \<Rightarrow> int \<times> f64 \<times> string" where
  "leading_fraction full x scale [] = (x, scale, [])"
| "leading_fraction full x scale (c # s) =
     (if is_digit c then
        (if full \<or> (2 ^ 63 - 1) div 10 < x \<or> 2 ^ 63 < 10 * x + digit_val c then
           leading_fraction True x scale s
         else leading_fraction False (10 * x + digit_val c) (scale * Fin 10) s)
      else (x, scale, c # s))"

definition duration_unit :: "string \<Rightarrow> int option" where
  "duration_unit =
     map_of [(''ns'', 1), (''us'', 1000), ([CHR 0xC2, CHR 0xB5, CHR ''s''], 1000),
             ([CHR 0xCE, CHR 0xBC, CHR ''s''], 1000), (''ms'', 1000000), (''s'', 1000000000),
             (''m'', 60 * 1000000000), (''h'', 3600 * 1000000000)]"

definition unit_char :: "char \<Rightarrow> bool" where
  "unit_char c \<longleftrightarrow> c \<noteq> CHR ''.'' \<and> \<not> is_digit c"

text \<open>One number with its unit, in nanoseconds, and what follows it.\<close>

definition duration_part :: "string \<Rightarrow> (int \<times> string) option" where
  "duration_part s =
     (if \<not> (s \<noteq> [] \<and> (hd s = CHR ''.'' \<or> is_digit (hd s))) then None
      else
        (case leading_int 0 s of
           None \<Rightarrow> None
         | Some (v, s1) \<Rightarrow>
             (let pre = (length s1 \<noteq> length s);
                  (f, scale, s2, post) =
                    (if s1 \<noteq> [] \<and> hd s1 = CHR ''.'' then
                       (let (f, scale, r) = leading_fraction False 0 (Fin 1) (tl s1)
                        in (f, scale, r, length r \<noteq> length (tl s1)))
                     else (0, Fin 1, s1, False));
                  u = takeWhile unit_char s2
              in if \<not> pre \<and> \<not> post \<or> u = [] then None
                 else
                   (case duration_unit u of
                      None \<Rightarrow> None
                    | Some unit \<Rightarrow>
                        if 2 ^ 63 div unit < v then None
                        else
                          (let v = v * unit;
                               v = (if 0 < f then
                                      v + f64_to_int64 (f64_of_int f * f64_div (f64_of_int unit) scale)
                                    else v)
                           in if 2 ^ 63 < v then None else Some (v, dropWhile unit_char s2))))))"

lemma leading_int_length: "leading_int x s = Some (v, r) \<Longrightarrow> length r \<le> length s"
  by (induction x s rule: leading_int.induct) (auto split: if_splits)

lemma leading_fraction_length: "leading_fraction full x scale s = (f, g, r) \<Longrightarrow> length r \<le> length s"
  by (induction full x scale s rule: leading_fraction.induct) (auto split: if_splits)

lemma duration_part_length: "duration_part s = Some (v, r) \<Longrightarrow> length r < length s"
proof -
  assume part: "duration_part s = Some (v, r)"
  then obtain v' s1 where l: "leading_int 0 s = Some (v', s1)"
    by (auto simp: duration_part_def split: option.splits if_splits)
  define s2 where "s2 = (if s1 \<noteq> [] \<and> hd s1 = CHR ''.'' then
      snd (snd (leading_fraction False 0 (Fin 1) (tl s1))) else s1)"
  have r: "r = dropWhile unit_char s2" and u: "takeWhile unit_char s2 \<noteq> []"
    using part l by (auto simp: duration_part_def s2_def Let_def split_beta split: option.splits if_splits)
  have "length (snd (snd (leading_fraction False 0 (Fin 1) (tl s1)))) \<le> length (tl s1)"
    by (metis leading_fraction_length prod.collapse)
  then have "length s2 \<le> length s1" by (auto simp: s2_def)
  moreover have "length (takeWhile unit_char s2) + length r = length s2"
    by (metis length_append r takeWhile_dropWhile_id)
  ultimately show ?thesis
    using u leading_int_length [OF l] by (cases "takeWhile unit_char s2") auto
qed

function duration_parts :: "int \<Rightarrow> string \<Rightarrow> int option" where
  "duration_parts d s =
     (if s = [] then Some d
      else
        (case duration_part s of
           None \<Rightarrow> None
         | Some (v, r) \<Rightarrow>
             (let d = (d + v) mod 2 ^ 64 in if 2 ^ 63 < d then None else duration_parts d r)))"
  by pat_completeness auto
termination
  by (relation "measure (\<lambda>(d, s). length s)") (auto dest: duration_part_length)

declare duration_parts.simps [simp del]

definition parse_duration :: "string \<Rightarrow> duration option" where
  "parse_duration s =
     (let (g, t) = scan_sign {CHR ''+'', CHR ''-''} s in
      if t = ''0'' then Some 0
      else if t = [] then None
      else
        (case duration_parts 0 t of
           None \<Rightarrow> None
         | Some d \<Rightarrow>
             if g = ''-'' then Some (wrap64 (- d))
             else if 2 ^ 63 - 1 < d then None
             else Some d))"

subsection \<open>Ranges, and plain decimals\<close>

lemma parse_int_range: "parse_int s = Some n \<Longrightarrow> in_i64 n"
  by (auto simp: parse_int_def Let_def split_beta split: if_splits)

lemma duration_parts_range: "duration_parts d s = Some n \<Longrightarrow> 0 \<le> d \<Longrightarrow> d \<le> 2 ^ 63 \<Longrightarrow> 0 \<le> n \<and> n \<le> 2 ^ 63"
proof (induction d s rule: duration_parts.induct)
  case (1 d s)
  from "1.prems" show ?case
    by (subst (asm) duration_parts.simps) (auto simp: Let_def split: if_splits option.splits intro!: "1.IH" dest!: "1.IH")
qed

lemma parse_duration_range: "parse_duration s = Some d \<Longrightarrow> in_i64 d"
  using duration_parts_range [of 0 "snd (scan_sign {CHR ''+'', CHR ''-''} s)"]
  by (auto simp: parse_duration_def Let_def split_beta split: if_splits option.splits) (auto simp: in_i64_def)

definition digits :: "string \<Rightarrow> bool" where
  "digits ds \<longleftrightarrow> list_all is_digit ds"

lemma digits_simps [simp]: "digits []" "digits (c # ds) \<longleftrightarrow> is_digit c \<and> digits ds" "digits (a @ b) \<longleftrightarrow> digits a \<and> digits b"
  by (simp_all add: digits_def)

lemma decimal_snoc: "decimal (ds @ [c]) = 10 * decimal ds + digit_val c"
  by (simp add: decimal_def)

lemma decimal_nonneg: "digits ds \<Longrightarrow> 0 \<le> decimal ds"
  by (induction ds rule: rev_induct) (auto simp: decimal_snoc digit_val_def is_digit_def decimal_def)

lemma decimal_foldl: "foldl (\<lambda>n c. 10 * n + digit_val c) m ds = 10 ^ length ds * m + decimal ds"
proof (induction ds arbitrary: m)
  case (Cons c ds)
  have "decimal (c # ds) = 10 ^ length ds * digit_val c + decimal ds"
    by (simp add: decimal_def Cons [of "digit_val c"])
  then show ?case by (simp add: Cons [of "10 * m + digit_val c"]) (simp add: algebra_simps)
qed (simp add: decimal_def)

lemma is_digit_iff: "is_digit c \<longleftrightarrow> c \<in> set ''0123456789''"
proof -
  have "is_digit c \<longleftrightarrow> byte c \<in> {48 ..< 58}" by (auto simp: is_digit_def)
  also have "\<dots> \<longleftrightarrow> byte c \<in> {48, 49, 50, 51, 52, 53, 54, 55, 56, 57}" by (simp add: atLeastLessThan_nat_numeral) blast
  also have "\<dots> \<longleftrightarrow> c \<in> set ''0123456789''"
    by (auto simp flip: byte_inject simp: byte_def)
  finally show ?thesis .
qed

lemma hex_value_digit: "is_digit c \<Longrightarrow> hex_value c = Some (nat (digit_val c))"
  by (simp add: hex_value_def is_digit_def digit_val_def nat_diff_distrib)

lemma read_mantissa_digits:
  "digits ds \<Longrightarrow> read_mantissa False dot m f saw (ds @ r) =
     read_mantissa False dot (10 ^ length ds * m + nat (decimal ds)) (if dot then f + length ds else f) (saw \<or> ds \<noteq> []) r"
proof (induction ds arbitrary: m f saw)
  case (Cons c ds)
  have c: "c \<noteq> CHR ''_''" "c \<noteq> CHR ''.''" "based_digit False c = Some (nat (digit_val c))"
    using Cons.prems by (auto simp: is_digit_def byte_def based_digit_def hex_value_digit)
  have nn: "0 \<le> decimal ds" "0 \<le> digit_val c" using Cons.prems decimal_nonneg by (auto simp: digit_val_def is_digit_def)
  have "decimal (c # ds) = 10 ^ length ds * digit_val c + decimal ds"
    using decimal_foldl [of "digit_val c" ds] by (simp add: decimal_def)
  then have "nat (decimal (c # ds)) = 10 ^ length ds * nat (digit_val c) + nat (decimal ds)"
    using nn by (simp add: nat_add_distrib nat_mult_distrib nat_power_eq)
  then show ?case using Cons c by (auto simp: algebra_simps)
qed (simp add: decimal_def)

lemma underscores_digits: "digits ds \<Longrightarrow> ds \<noteq> [] \<Longrightarrow> underscores_ok False saw (ds @ r) = underscores_ok False CHR ''0'' r"
proof (induction ds arbitrary: saw)
  case (Cons c ds)
  then show ?case by (cases "ds = []") (simp_all add: based_digit_def hex_value_digit)
qed simp

lemma read_float_decimal:
  assumes "digits a" and "digits b" and "a \<noteq> []"
  shows "read_float (a @ CHR ''.'' # b) = Some (of_int (decimal (a @ b)) / 10 ^ length b)"
proof -
  have sg: "scan_sign {CHR ''+'', CHR ''-''} (a @ CHR ''.'' # b) = ([], a @ CHR ''.'' # b)"
    using assms by (cases a) (auto simp: scan_sign_def is_digit_def byte_def)
  have hex: "\<not> hex_prefix (a @ CHR ''.'' # b)"
    using assms by (cases a; cases "tl a") (auto simp: hex_prefix_def lower_byte_def is_digit_def numeral_2_eq_2 byte_def)
  have m: "read_mantissa False False 0 0 False (a @ CHR ''.'' # b) = (nat (decimal (a @ b)), length b, True, [])"
  proof -
    have "decimal (a @ b) = 10 ^ length b * decimal a + decimal b"
      using decimal_foldl [of "decimal a" b] by (simp add: decimal_def)
    then have "nat (decimal (a @ b)) = 10 ^ length b * nat (decimal a) + nat (decimal b)"
      using decimal_nonneg [OF assms(1)] decimal_nonneg [OF assms(2)]
      by (simp add: nat_add_distrib nat_mult_distrib nat_power_eq)
    then show ?thesis
      using read_mantissa_digits [OF assms(1), of False 0 0 False "CHR ''.'' # b"]
        read_mantissa_digits [OF assms(2), of True "nat (decimal a)" 0 True "[]"] assms(3) by simp
  qed
  have dot: "based_digit False CHR ''.'' = None" by (simp add: based_digit_def is_digit_def byte_def)
  have und: "underscores_ok False CHR ''^'' (a @ CHR ''.'' # b)"
    using underscores_digits [OF assms(1,3)] underscores_digits [OF assms(2), of "CHR ''!''" "[]"]
    by (cases "b = []") (simp_all add: dot)
  have "(of_nat (nat (decimal (a @ b))) :: rat) = of_int (decimal (a @ b))"
    using decimal_nonneg [of "a @ b"] assms by simp
  then show ?thesis
    by (simp add: read_float_def Let_def sg hex m und power_int_minus divide_inverse)
qed

lemma accept_all_digits:
  assumes "digits ds" and "r = [] \<or> hd r \<notin> set ''0123456789_''"
  shows "accept_all (set ''0123456789_'') (buf, ds @ r) = (buf @ ds, r)"
proof -
  have "\<forall>c\<in>set ds. c \<in> set ''0123456789_''"
    using assms(1) by (auto simp: digits_def list_all_iff is_digit_iff)
  then show ?thesis using assms(2) by (cases r) (auto simp: accept_all_def takeWhile_append dropWhile_append)
qed

lemma float_token_decimal:
  assumes "digits a" and "digits b" and "a \<noteq> []"
  shows "float_token (a @ CHR ''.'' # b) = a @ CHR ''.'' # b"
proof -
  obtain c a' where a: "a = c # a'" using assms(3) by (cases a) auto
  have c: "c \<notin> set ''nN''" "c \<notin> set ''iI''" "c \<notin> set ''+-''"
    using assms(1) a by (auto simp: is_digit_iff)
  have x: "accept (set ''xX'') (buf, a' @ CHR ''.'' # b) = (False, buf, a' @ CHR ''.'' # b)" for buf
    using assms(1) a by (cases a') (auto simp: is_digit_iff)
  note all_b = accept_all_digits [OF assms(2), of "[]", simplified]
  have rest: "accept_all (set ''0123456789_'') (buf, ds @ CHR ''.'' # b) = (buf @ ds, CHR ''.'' # b)"
    if "digits ds" for buf ds using accept_all_digits [OF that, of "CHR ''.'' # b" buf] by simp
  show ?thesis
  proof (cases "c = CHR ''0''")
    case True
    then show ?thesis
      using rest [of a' "''0''"] assms(1) x by (simp add: float_token_def accept3_def a all_b)
  next
    case False
    then show ?thesis using rest [of a "[]"] assms(1) c by (simp add: float_token_def accept3_def a all_b)
  qed
qed

lemma index_byte_None: "c \<notin> set s \<Longrightarrow> index_byte c s = None"
  by (induction s) auto

lemma scan_space_digit:
  assumes "is_digit c"
  shows "scan_space (c # s) = 0"
proof -
  obtain bs where bs: "map byte (take 3 (c # s)) = byte c # bs" by (simp add: take_Cons')
  have "byte c \<notin> {9, 10, 11, 12, 13, 32, 194, 225, 226, 227}" using assms by (auto simp: is_digit_def)
  then show ?thesis unfolding scan_space_def bs Let_def by (simp add: take_Cons')
qed

text \<open>A plain decimal is read as the float64 nearest to it.\<close>

lemma sscan_decimal:
  assumes "digits a" and "digits b" and "a \<noteq> []"
    and "to_f64 (of_int (decimal (a @ b)) / 10 ^ length b) = Fin y"
  shows "sscan_float (a @ CHR ''.'' # b) = Some (Fin y)"
proof -
  obtain c a' where a: "a = c # a'" using assms(3) by (cases a) auto
  have c: "48 \<le> byte c" "byte c \<le> 57" using assms(1) a by (auto simp: is_digit_def)
  have space: "skip_space (a @ CHR ''.'' # b) = a @ CHR ''.'' # b"
    using c by (subst skip_space.simps) (use assms(1) in \<open>simp add: a scan_space_digit\<close>)
  have "\<not> is_digit CHR ''p''" by (simp add: is_digit_def byte_def)
  then have no_p: "CHR ''p'' \<notin> set (a @ CHR ''.'' # b)"
    using assms(1,2) unfolding digits_def list_all_iff by auto
  have sg: "scan_sign {CHR ''+'', CHR ''-''} (a @ CHR ''.'' # b) = ([], a @ CHR ''.'' # b)"
    using c by (simp add: a scan_sign_def) (rule conjI notI; simp add: byte_def)+
  have low: "lower_byte c = c" using c by (simp add: lower_byte_def)
  have names: "hd (map lower_byte (a @ CHR ''.'' # b)) \<notin> {CHR ''n'', CHR ''i''}"
    using c by (auto simp: a low byte_def)
  have "map lower_byte (a @ CHR ''.'' # b) \<noteq> ''nan''" "map lower_byte (a @ CHR ''.'' # b) \<noteq> ''inf''"
    "map lower_byte (a @ CHR ''.'' # b) \<noteq> ''infinity''" using names by force+
  note names = this
  have "parse_float (a @ CHR ''.'' # b) = Some (Fin y)"
    using names assms(4) read_float_decimal [OF assms(1-3)] by (simp add: parse_float_def sg)
  then show ?thesis
    by (simp add: sscan_float_def space float_token_decimal [OF assms(1-3)] convert_float_def index_byte_None [OF no_p])
qed
end
