(* ===== verification/Kraken_Client.thy ===== *)
theory Kraken_Client
  imports Backoff Go_Numbers Ltp_Service
begin

text \<open>
  \<open>internal/kraken\<close>: the client of Kraken's public ticker.  The network is a parameter:
  what \<open>http.NewRequestWithContext\<close> and \<open>http.Client.Do\<close> answer, and the texts of the
  errors of the JSON decoder.  The request that is sent, the decoding of the reply, the
  reading of the prices and the retries are the code's.
\<close>

declare One_nat_def [simp del]

subsection \<open>Ticker replies\<close>

record ticker_entry =
  te_c :: "string list"

record ticker_response =
  tr_error :: "string list"
  tr_result :: "(string, ticker_entry) gomap"

text \<open>
  \<open>json.Unmarshal\<close> into these types.  Each function gives whether some value has the
  wrong type, which makes the whole call fail, and what is stored.  A slice of strings
  that is decoded twice (a key that occurs twice) keeps its old elements behind its
  length, and a null among the elements leaves the old one: the pair is the length and
  the elements behind the slice.
\<close>

type_synonym str_slice = "nat \<times> string list"

definition slice_elems :: "str_slice \<Rightarrow> string list" where
  "slice_elems sl = take (fst sl) (snd sl)"

fun decode_string :: "json \<Rightarrow> string \<Rightarrow> bool \<times> string" where
  "decode_string (JString s) old = (False, s)"
| "decode_string JNull old = (False, old)"
| "decode_string _ old = (True, old)"

fun decode_elems :: "json list \<Rightarrow> string list \<Rightarrow> bool \<times> string list" where
  "decode_elems [] old = (False, [])"
| "decode_elems (v # vs) old =
     (let (bad, x) = decode_string v (if old = [] then [] else hd old);
          (bads, xs) = decode_elems vs (tl old)
      in (bad \<or> bads, x # xs))"

fun decode_strings :: "json \<Rightarrow> str_slice \<Rightarrow> bool \<times> str_slice" where
  "decode_strings JNull sl = (False, 0, [])"
| "decode_strings (JArray vs) sl =
     (if vs = [] then (False, 0, [])
      else (let (bad, xs) = decode_elems vs (snd sl) in (bad, length xs, xs @ drop (length xs) (snd sl))))"
| "decode_strings _ sl = (True, sl)"

text \<open>
  A key names a field when both have the same case folding: ASCII letters in either
  case, the long s (U+017F) for an s and the Kelvin sign (U+212A) for a k.
\<close>

fun fold_name :: "string \<Rightarrow> string" where
  "fold_name [] = []"
| "fold_name (a # s) =
     (if map byte (take 2 (a # s)) = [197, 191] then CHR ''S'' # fold_name (drop 1 s)
      else if map byte (take 3 (a # s)) = [226, 132, 170] then CHR ''K'' # fold_name (drop 2 s)
      else upper_byte a # fold_name s)"

definition names_field :: "string \<Rightarrow> string \<Rightarrow> bool" where
  "names_field key field \<longleftrightarrow> fold_name key = fold_name field"

fun decode_entry_members :: "(string \<times> json) list \<Rightarrow> bool \<times> str_slice \<Rightarrow> bool \<times> str_slice" where
  "decode_entry_members [] st = st"
| "decode_entry_members ((key, v) # ms) (bad, sl) =
     decode_entry_members ms
       (if names_field key ''c'' then (let (b, sl) = decode_strings v sl in (bad \<or> b, sl)) else (bad, sl))"

fun decode_entry :: "json \<Rightarrow> bool \<times> ticker_entry" where
  "decode_entry JNull = (False, \<lparr>te_c = []\<rparr>)"
| "decode_entry (JObject ms) =
     (let (bad, sl) = decode_entry_members ms (False, 0, []) in (bad, \<lparr>te_c = slice_elems sl\<rparr>))"
| "decode_entry _ = (True, \<lparr>te_c = []\<rparr>)"

fun decode_entries ::
  "(string \<times> json) list \<Rightarrow> bool \<times> (string, ticker_entry) gomap \<Rightarrow> bool \<times> (string, ticker_entry) gomap" where
  "decode_entries [] st = st"
| "decode_entries ((key, v) # ms) (bad, m) =
     (let (b, e) = decode_entry v in decode_entries ms (bad \<or> b, gm_put key e m))"

fun decode_result :: "json \<Rightarrow> (string, ticker_entry) gomap \<Rightarrow> bool \<times> (string, ticker_entry) gomap" where
  "decode_result JNull m = (False, [])"
| "decode_result (JObject ms) m = decode_entries ms (False, m)"
| "decode_result _ m = (True, m)"

fun decode_ticker_members ::
  "(string \<times> json) list \<Rightarrow> bool \<times> str_slice \<times> (string, ticker_entry) gomap \<Rightarrow>
   bool \<times> str_slice \<times> (string, ticker_entry) gomap" where
  "decode_ticker_members [] st = st"
| "decode_ticker_members ((key, v) # ms) (bad, sl, m) =
     decode_ticker_members ms
       (if names_field key ''error'' then (let (b, sl) = decode_strings v sl in (bad \<or> b, sl, m))
        else if names_field key ''result'' then (let (b, m) = decode_result v m in (bad \<or> b, sl, m))
        else (bad, sl, m))"

fun decode_ticker :: "json \<Rightarrow> bool \<times> ticker_response" where
  "decode_ticker JNull = (False, \<lparr>tr_error = [], tr_result = []\<rparr>)"
| "decode_ticker (JObject ms) =
     (let (bad, sl, m) = decode_ticker_members ms (False, (0, []), [])
      in (bad, \<lparr>tr_error = slice_elems sl, tr_result = m\<rparr>))"
| "decode_ticker _ = (True, \<lparr>tr_error = [], tr_result = []\<rparr>)"

subsection \<open>The client\<close>

text \<open>
  A reply: the status, the bytes the body yields, and the error after them when the
  connection broke (\<open>None\<close> is the regular end).
\<close>

record http_reply =
  reply_status :: int
  reply_body :: string
  reply_broken :: bool

text \<open>
  \<open>'c\<close> are contexts and \<open>'h\<close> the state of the network.  \<open>wait_ends\<close> says what ends the
  wait after an attempt of a \<open>Retry\<close> that runs on a clock: the context's error, or the
  timer (\<open>None\<close>).
\<close>

record ('c, 'h) transport =
  request_error :: "string \<Rightarrow> go_error option"
  http_do :: "'c \<Rightarrow> clock \<Rightarrow> duration \<Rightarrow> string \<Rightarrow> 'h \<Rightarrow> (go_error + http_reply) \<times> 'h"
  decode_error :: "http_reply \<Rightarrow> go_error"
  wait_ends :: "'c \<Rightarrow> clock \<Rightarrow> int \<Rightarrow> go_error option"

datatype kraken_metric = KrakenRequests string | KrakenDuration string f64

record http_client =
  hc_timeout :: duration

record 'h client =
  base_url :: string
  http :: http_client
  cl_backoff :: backoff
  net :: 'h
  kraken_metrics :: "kraken_metric list"
  backoff_metrics :: "backoff_metric list"

definition new_http_client :: "duration \<Rightarrow> http_client" where
  "new_http_client timeout = \<lparr>hc_timeout = timeout\<rparr>"

definition new_client :: "(nat \<Rightarrow> f64) \<Rightarrow> string \<Rightarrow> http_client option \<Rightarrow> 'h \<Rightarrow> 'h client" where
  "new_client random url client h =
     \<lparr>base_url = trim_right_func (\<lambda>c. c = CHR ''/'') url,
      http = (case client of None \<Rightarrow> new_http_client (3 * second) | Some hc \<Rightarrow> hc),
      cl_backoff = new_backoff random default_backoff_config, net = h, kraken_metrics = [], backoff_metrics = []\<rparr>"

text \<open>\<open>url.QueryEscape\<close>, and \<open>url.Values.Encode\<close> of a single parameter.\<close>

definition unreserved :: "char \<Rightarrow> bool" where
  "unreserved c \<longleftrightarrow> is_digit c \<or> in_bytes 65 90 c \<or> in_bytes 97 122 c \<or> c \<in> set ''-_.~''"

definition upper_hex :: "nat \<Rightarrow> char" where
  "upper_hex n = (if n < 10 then char_of (48 + n) else char_of (55 + n))"

definition escape_byte :: "char \<Rightarrow> string" where
  "escape_byte c =
     (if unreserved c then [c]
      else if c = CHR '' '' then [CHR ''+'']
      else [CHR ''%'', upper_hex (byte c div 16), upper_hex (byte c mod 16)])"

definition query_escape :: "string \<Rightarrow> string" where
  "query_escape s = concat (map escape_byte s)"

definition ticker_url :: "string \<Rightarrow> string list \<Rightarrow> string" where
  "ticker_url base symbols =
     base @ ''/0/public/Ticker?'' @ ''pair'' @ ''='' @ query_escape (str_join '','' symbols)"

text \<open>Reading a reply that ends early fails unless the value was complete.\<close>

definition decode_reply :: "('c, 'h) transport \<Rightarrow> http_reply \<Rightarrow> go_error + ticker_response" where
  "decode_reply tr reply =
     (case json_decode (reply_body reply) of
        None \<Rightarrow> Inl (decode_error tr reply)
      | Some v \<Rightarrow>
          (let (bad, r) = decode_ticker v
           in if bad \<or> (reply_broken reply \<and> v = JNull) then Inl (decode_error tr reply) else Inr r))"

fun read_prices :: "(string \<times> ticker_entry) list \<Rightarrow> (string, f64) gomap \<Rightarrow> (string, f64) gomap" where
  "read_prices [] out = out"
| "read_prices ((symb, entry) # es) out =
     read_prices es
       (case te_c entry of
          [] \<Rightarrow> out
        | p # _ \<Rightarrow> (case sscan_float p of Some price \<Rightarrow> gm_put symb price out | None \<Rightarrow> out))"

definition make_request ::
  "('c, 'h) transport \<Rightarrow> 'c \<Rightarrow> clock \<Rightarrow> string list \<Rightarrow> 'h client \<Rightarrow>
   (go_error + (string, f64) gomap) \<times> 'h client" where
  "make_request tr ctx c symbols cl =
     (let endpoint = ticker_url (base_url cl) symbols in
      case request_error tr endpoint of
        Some err \<Rightarrow> (Inl err, cl)
      | None \<Rightarrow>
          (let (res, h) = http_do tr ctx (in_call c 0) (hc_timeout (http cl)) endpoint (net cl);
               cl = cl\<lparr>net := h\<rparr>
           in case res of
                Inl err \<Rightarrow> (Inl err, cl)
              | Inr reply \<Rightarrow>
                  if reply_status reply \<noteq> 200 then
                    (Inl (new_http_error (reply_status reply) (take 1024 (reply_body reply))), cl)
                  else
                    (case decode_reply tr reply of
                       Inl err \<Rightarrow> (Inl err, cl)
                     | Inr resp \<Rightarrow>
                         if tr_error resp \<noteq> [] then (Inl (ErrorString (str_join ''; '' (tr_error resp))), cl)
                         else (Inr (read_prices (tr_result resp) []), cl))))"

text \<open>
  The closure that is retried: it leaves its result in \<open>result\<close>, nil after an error;
  the \<open>k\<close>-th call of it has the \<open>k\<close>-th position of the retry.
\<close>

type_synonym 'h attempt = "(string, f64) gomap \<times> nat \<times> 'h client"

definition attempt_request ::
  "('c, 'h) transport \<Rightarrow> 'c \<Rightarrow> clock \<Rightarrow> string list \<Rightarrow> 'h attempt \<Rightarrow> go_error option \<times> 'h attempt" where
  "attempt_request tr ctx c symbols st =
     (let (_, k, cl) = st; (res, cl) = make_request tr ctx (in_call c k) symbols cl
      in case res of
           Inl err \<Rightarrow> (Some err, [], Suc k, cl)
         | Inr prices \<Rightarrow> (None, prices, Suc k, cl))"

definition observe_request :: "string \<Rightarrow> duration \<Rightarrow> 'h client \<Rightarrow> 'h client" where
  "observe_request status d cl =
     cl\<lparr>kraken_metrics := kraken_metrics cl @ [KrakenRequests status, KrakenDuration status (duration_seconds d)]\<rparr>"

definition get_ticker_prices :: "('c, 'h) transport \<Rightarrow> 'c \<Rightarrow> 'h client kraken_api" where
  "get_ticker_prices tr ctx c symbols cl =
     (let start = now_at c 0 in
      if symbols = [] then
        (Inl (ErrorString ''no symbols provided''),
         observe_request ''error'' (time_sub (now_at c 2) start) cl)
      else
        (let (err, b, (result, _, cl), ms) =
               retry ''kraken'' (attempt_request tr ctx (in_call c 1) symbols) is_retryable_http_error
                 (wait_ends tr ctx (in_call c 1)) (cl_backoff cl) ([], 0, cl);
             cl = cl\<lparr>cl_backoff := b, backoff_metrics := backoff_metrics cl @ ms\<rparr>;
             took = time_sub (now_at c 2) start
         in case err of
              Some e \<Rightarrow> (Inl e, observe_request ''error'' took cl)
            | None \<Rightarrow> (Inr result, observe_request ''success'' took cl)))"

subsection \<open>The request\<close>

text \<open>What the receiver of a query reads: \<open>url.QueryUnescape\<close>.\<close>

fun query_unescape :: "string \<Rightarrow> string option" where
  "query_unescape [] = Some []"
| "query_unescape (c # s) =
     (if c = CHR ''%'' then
        (case s of
           a # b # t \<Rightarrow>
             (case (hex_value a, hex_value b) of
                (Some i, Some j) \<Rightarrow> map_option (\<lambda>r. char_of (16 * i + j) # r) (query_unescape t)
              | _ \<Rightarrow> None)
         | _ \<Rightarrow> None)
      else map_option (\<lambda>r. (if c = CHR ''+'' then CHR '' '' else c) # r) (query_unescape s))"

lemma hex_value_upper: "n < 16 \<Longrightarrow> hex_value (upper_hex n) = Some n"
  by (auto simp: hex_value_def upper_hex_def byte_def)

lemma unreserved_plain: "unreserved c \<Longrightarrow> c \<noteq> CHR ''%'' \<and> c \<noteq> CHR ''+''"
  by (auto simp: unreserved_def is_digit_def in_bytes_def byte_def)

lemma byte_less: "byte c < 256"
  by (simp add: byte_def)

lemma unescape_escape_byte: "query_unescape (escape_byte c @ r) = map_option ((#) c) (query_unescape r)"
proof (cases "unreserved c")
  case True
  then show ?thesis using unreserved_plain [OF True] by (simp add: escape_byte_def)
next
  case False
  have "char_of (16 * (byte c div 16) + byte c mod 16) = c" by (simp add: byte_def)
  moreover have "byte c div 16 < 16" using byte_less [of c] by (simp add: less_mult_imp_div_less)
  ultimately show ?thesis using False
    by (simp add: escape_byte_def hex_value_upper)
qed

lemma query_unescape_escape: "query_unescape (query_escape s) = Some s"
  by (induction s) (simp_all add: query_escape_def unescape_escape_byte)

text \<open>
  C39: The query of a request decodes to the symbols of the call joined by commas, in their
  order and whatever bytes they contain; reading it as Kraken does, split at the commas,
  gives the symbols back exactly when there is one and none of them contains a comma.
\<close>

theorem ticker_query_roundtrip:
  "\<exists>q. ticker_url base symbols = base @ ''/0/public/Ticker?pair='' @ q \<and>
    query_unescape q = Some (str_join [CHR '',''] symbols) \<and>
    (split_on CHR '','' (str_join [CHR '',''] symbols) = symbols \<longleftrightarrow>
      symbols \<noteq> [] \<and> list_all (\<lambda>s. CHR '','' \<notin> set s) symbols)"
proof -
  have "split_on CHR '','' (str_join [CHR '',''] symbols) = symbols \<longleftrightarrow>
      symbols \<noteq> [] \<and> list_all (\<lambda>s. CHR '','' \<notin> set s) symbols" (is "?same \<longleftrightarrow> _")
  proof
    assume same: ?same
    have "symbols \<noteq> []"
    proof
      assume "symbols = []"
      then show False using same by simp
    qed
    moreover have "CHR '','' \<notin> set s" if "s \<in> set symbols" for s
      by (rule split_on_parts [where s = "str_join [CHR '',''] symbols"]) (simp only: same that)
    ultimately show "symbols \<noteq> [] \<and> list_all (\<lambda>s. CHR '','' \<notin> set s) symbols"
      by (simp add: list_all_iff)
  next
    assume "symbols \<noteq> [] \<and> list_all (\<lambda>s. CHR '','' \<notin> set s) symbols"
    then show ?same by (simp add: split_join list_all_iff)
  qed
  moreover have "str_join '','' symbols = str_join [CHR '',''] symbols" by simp
  ultimately show ?thesis by (simp add: ticker_url_def query_unescape_escape)
qed

theorem ticker_query_roundtrip_witness:
  "ticker_url ''https://api.kraken.com'' [''XBTUSD'', ''XBTEUR''] =
     ''https://api.kraken.com/0/public/Ticker?pair=XBTUSD%2CXBTEUR'' \<and>
   (\<exists>q. ''https://api.kraken.com/0/public/Ticker?pair=XBTUSD%2CXBTEUR'' =
       ''https://api.kraken.com'' @ ''/0/public/Ticker?pair='' @ q \<and>
     map_option (split_on CHR '','') (query_unescape q) = Some [''XBTUSD'', ''XBTEUR''])"
proof -
  have url: "ticker_url ''https://api.kraken.com'' [''XBTUSD'', ''XBTEUR''] =
      ''https://api.kraken.com/0/public/Ticker?pair=XBTUSD%2CXBTEUR''"
    by code_simp
  then show ?thesis
    using ticker_query_roundtrip [of "''https://api.kraken.com''" "[''XBTUSD'', ''XBTEUR'']"] by auto
qed

text \<open>
  The other case can be reached: the value of \<open>pair\<close> is not split, a pair with a comma is
  normalized and mapped to a symbol, and Kraken reads that symbol as two.
\<close>

theorem comma_pair_reads_as_two:
  "\<exists>symb q. to_kraken_symbol no_unicode ''ETH,BTC/USD'' = Inr symb \<and>
    ticker_url base [symb] = base @ ''/0/public/Ticker?pair='' @ q \<and>
    map_option (split_on CHR '','') (query_unescape q) = Some [''ETH'', ''BTCZUSD'']"
proof -
  have "to_kraken_symbol no_unicode ''ETH,BTC/USD'' = Inr ''ETH,BTCZUSD''" by code_simp
  moreover have "split_on CHR '','' ''ETH,BTCZUSD'' = [''ETH'', ''BTCZUSD'']" by code_simp
  ultimately show ?thesis by (auto simp: ticker_url_def query_unescape_escape)
qed

subsection \<open>Replies\<close>

text \<open>
  A well-formed reply: each symbol with the strings of its field \<open>c\<close>, between other
  fields of its entry.
\<close>

type_synonym entry_spec = "(string \<times> json) list \<times> string list \<times> (string \<times> json) list"

fun entry_json :: "entry_spec \<Rightarrow> json" where
  "entry_json (pre, cs, post) = JObject (pre @ (''c'', JArray (map JString cs)) # post)"

definition ticker_json :: "string list \<Rightarrow> (string \<times> entry_spec) list \<Rightarrow> json" where
  "ticker_json errs entries =
     JObject [(''error'', JArray (map JString errs)),
              (''result'', JObject (map (\<lambda>(symb, e). (symb, entry_json e)) entries))]"

fun other_fields :: "entry_spec \<Rightarrow> bool" where
  "other_fields (pre, cs, post) \<longleftrightarrow> (\<forall>m\<in>set (pre @ post). \<not> names_field (fst m) ''c'')"

text \<open>The price of a symbol in the reply: the first string of its field \<open>c\<close>, if it reads as a number.\<close>

definition reply_price :: "(string \<times> entry_spec) list \<Rightarrow> string \<Rightarrow> f64 option" where
  "reply_price entries symb =
     (case map_of entries symb of
        Some (pre, p # ps, post) \<Rightarrow> sscan_float p
      | _ \<Rightarrow> None)"

lemma decode_elems_strings: "decode_elems (map JString cs) old = (False, cs)"
  by (induction cs arbitrary: old) simp_all

lemma decode_strings_strings: "decode_strings (JArray (map JString cs)) (0, []) = (False, length cs, cs)"
  by (simp add: decode_elems_strings)

lemma decode_entry_members_append:
  "decode_entry_members (xs @ ys) st = decode_entry_members ys (decode_entry_members xs st)"
  by (induction xs st rule: decode_entry_members.induct) simp_all

lemma decode_entry_members_other:
  "\<forall>m\<in>set ms. \<not> names_field (fst m) ''c'' \<Longrightarrow> decode_entry_members ms st = st"
  by (induction ms st rule: decode_entry_members.induct) simp_all

lemma decode_entry_json: "other_fields (pre, cs, post) \<Longrightarrow> decode_entry (entry_json (pre, cs, post)) = (False, \<lparr>te_c = cs\<rparr>)"
  by (simp add: decode_entry_members_append decode_entry_members_other decode_elems_strings names_field_def slice_elems_def
      del: decode_strings.simps) (simp add: decode_strings_strings [simplified] decode_entry_members_other)

lemma decode_entries_json:
  assumes "\<forall>(symb, e)\<in>set entries. other_fields e" and "distinct (map fst entries)" and "gm_ok m"
  shows "\<exists>m'. decode_entries (map (\<lambda>(symb, e). (symb, entry_json e)) entries) (False, m) = (False, m') \<and> gm_ok m' \<and>
    (\<forall>symb. gm_get m' symb = (case map_of entries symb of Some (pre, cs, post) \<Rightarrow> Some \<lparr>te_c = cs\<rparr> | None \<Rightarrow> gm_get m symb))"
  using assms
proof (induction entries arbitrary: m)
  case (Cons x entries)
  obtain symb pre cs post where x: "x = (symb, pre, cs, post)" by (metis prod_cases4)
  have "map_of entries symb = None" using Cons.prems x by (simp add: map_of_eq_None_iff)
  moreover obtain m' where "decode_entries (map (\<lambda>(symb, e). (symb, entry_json e)) entries) (False, gm_put symb \<lparr>te_c = cs\<rparr> m) =
      (False, m')" "gm_ok m'"
    "\<forall>s. gm_get m' s = (case map_of entries s of Some (pre, cs, post) \<Rightarrow> Some \<lparr>te_c = cs\<rparr> | None \<Rightarrow> gm_get (gm_put symb \<lparr>te_c = cs\<rparr> m) s)"
    using Cons.IH [of "gm_put symb \<lparr>te_c = cs\<rparr> m"] Cons.prems by (auto simp: gomap_simps)
  ultimately show ?case
    using Cons.prems x decode_entry_json [of pre cs post] by (auto simp: gomap_simps simp del: entry_json.simps split: option.splits)
qed simp

lemma read_prices_get:
  "distinct (map fst es) \<Longrightarrow> gm_get (read_prices es out) symb =
     (case map_of es symb of
        Some e \<Rightarrow>
          (case te_c e of p # _ \<Rightarrow> (case sscan_float p of Some x \<Rightarrow> Some x | None \<Rightarrow> gm_get out symb) | [] \<Rightarrow> gm_get out symb)
      | None \<Rightarrow> gm_get out symb)"
proof (induction es out rule: read_prices.induct)
  case (2 s e es out)
  then have "map_of es s = None" by (simp add: map_of_eq_None_iff)
  then show ?case using 2 by (auto simp: gomap_simps split: list.splits option.splits)
qed simp

lemma decode_ticker_json:
  assumes "\<forall>(symb, e)\<in>set entries. other_fields e" and "distinct (map fst entries)"
  shows "\<exists>m. decode_ticker (ticker_json errs entries) = (False, \<lparr>tr_error = errs, tr_result = m\<rparr>) \<and> gm_ok m \<and>
    (\<forall>symb. gm_get (read_prices m []) symb = reply_price entries symb)"
proof -
  obtain m where m: "decode_entries (map (\<lambda>(symb, e). (symb, entry_json e)) entries) (False, []) = (False, m)" "gm_ok m"
    "\<forall>symb. gm_get m symb = (case map_of entries symb of Some (pre, cs, post) \<Rightarrow> Some \<lparr>te_c = cs\<rparr> | None \<Rightarrow> None)"
    using decode_entries_json [OF assms, of "[]"] by (auto simp: gomap_simps cong: option.case_cong)
  have "gm_get (read_prices m []) symb = reply_price entries symb" for symb
    using m(2,3) by (subst read_prices_get)
      (auto simp: gm_ok_def gm_get_def reply_price_def split: option.splits list.splits)
  moreover have "names_field ''error'' ''error''" "names_field ''result'' ''result''"
    "\<not> names_field ''result'' ''error''" by (simp_all add: names_field_def upper_byte_def byte_def)
  ultimately show ?thesis using m(1,2)
    by (simp add: ticker_json_def decode_elems_strings slice_elems_def)
qed

text \<open>
  C16: A reply of status 200 with a well-formed ticker object gives Kraken's errors when
  there are any, and otherwise the last trade price of each symbol whose price reads as a
  number; other fields of the reply do not matter.
\<close>

theorem make_request_reads_reply:
  assumes "request_error tr (ticker_url (base_url cl) symbols) = None"
    and "http_do tr ctx (in_call c 0) (hc_timeout (http cl)) (ticker_url (base_url cl) symbols) (net cl) = (Inr reply, h)"
    and "reply_status reply = 200" and "reply_body reply = json_text (ticker_json errs entries)"
    and "json_plain (ticker_json errs entries)" and "json_depth (ticker_json errs entries) \<le> max_nesting"
    and "\<forall>(symb, e)\<in>set entries. other_fields e" and "distinct (map fst entries)"
  shows "\<exists>r. make_request tr ctx c symbols cl = (r, cl\<lparr>net := h\<rparr>) \<and>
    (errs \<noteq> [] \<longrightarrow> r = Inl (ErrorString (str_join ''; '' errs))) \<and>
    (errs = [] \<longrightarrow> (\<exists>prices. r = Inr prices \<and> (\<forall>symb. gm_get prices symb = reply_price entries symb)))"
proof -
  obtain m where m: "decode_ticker (ticker_json errs entries) = (False, \<lparr>tr_error = errs, tr_result = m\<rparr>)"
    "\<forall>symb. gm_get (read_prices m []) symb = reply_price entries symb"
    using decode_ticker_json [OF assms(7,8)] by blast
  have "json_decode (reply_body reply) = Some (ticker_json errs entries)"
    using json_decode_text [OF assms(5,6), of "[]"] assms(4) by simp
  then have "decode_reply tr reply = Inr \<lparr>tr_error = errs, tr_result = m\<rparr>"
    using m(1) by (simp add: decode_reply_def ticker_json_def)
  then show ?thesis using m(2) assms(1-3) by (simp add: make_request_def Let_def)
qed

definition sample_reply :: http_reply where
  "sample_reply =
     \<lparr>reply_status = 200,
      reply_body = json_text (ticker_json []
        [(''XBTUSD'', [(''a'', JArray [JNumber ''1''])], [''50000.5'', ''0.1''], [])]),
      reply_broken = False\<rparr>"

definition sample_transport :: "(unit, http_reply list) transport" where
  "sample_transport =
     \<lparr>request_error = (\<lambda>_. None),
      http_do = (\<lambda>ctx c timeout url h. (case h of r # rs \<Rightarrow> (Inr r, rs) | [] \<Rightarrow> (Inl DeadlineExceeded, []))),
      decode_error = (\<lambda>_. ErrorString ''invalid character''), wait_ends = (\<lambda>_ _ _. None)\<rparr>"

definition sample_client :: "http_reply list \<Rightarrow> http_reply list client" where
  "sample_client h = new_client (\<lambda>_. Fin 0) ''https://api.kraken.com/'' None h"

lemma sample_price: "sscan_float ''50000.5'' = Some (Fin (500005 / 10))"
proof -
  have "to_f64 (of_int (decimal (''50000'' @ ''5'')) / 10 ^ length ''5'') = Fin (500005 / 10)"
    using to_f64_scaled [of 100001 "- 1"] by (simp add: decimal_def digit_val_def byte_def power_int_minus)
  then show ?thesis using sscan_decimal [of "''50000''" "''5''" "500005 / 10"]
    by (simp add: is_digit_def byte_def)
qed

theorem make_request_reads_reply_witness:
  "\<exists>prices. make_request sample_transport () (\<lambda>_. 0) [''XBTUSD''] (sample_client [sample_reply]) =
      (Inr prices, sample_client []) \<and> gm_get prices ''XBTUSD'' = Some (Fin (500005 / 10))"
proof -
  let ?e = "[(''XBTUSD'', [(''a'', JArray [JNumber ''1''])], [''50000.5'', ''0.1''], [])] :: (string \<times> entry_spec) list"
  have plain: "json_plain (ticker_json [] ?e)" and depth: "json_depth (ticker_json [] ?e) \<le> max_nesting"
    by code_simp+
  have other: "\<forall>(symb, e)\<in>set ?e. other_fields e" by code_simp
  have net: "(sample_client [sample_reply])\<lparr>net := []\<rparr> = sample_client []" by (simp add: sample_client_def new_client_def)
  have price: "reply_price ?e ''XBTUSD'' = Some (Fin (500005 / 10))" by (simp add: reply_price_def sample_price)
  show ?thesis
    using make_request_reads_reply [of sample_transport "sample_client [sample_reply]" "[''XBTUSD'']" "()" "\<lambda>_. 0"
        sample_reply "[]" "[]" ?e, OF _ _ _ _ plain depth other] price
    by (auto simp: sample_transport_def sample_client_def new_client_def sample_reply_def net)
qed

subsection \<open>Retries\<close>

text \<open>The outcomes of \<open>n\<close> requests in a row, the first one at position \<open>k\<close> of the retry.\<close>

fun request_run ::
  "('c, 'h) transport \<Rightarrow> 'c \<Rightarrow> clock \<Rightarrow> string list \<Rightarrow> nat \<Rightarrow> nat \<Rightarrow> 'h client \<Rightarrow>
   (go_error + (string, f64) gomap) list \<times> 'h client" where
  "request_run tr ctx c symbols k 0 cl = ([], cl)"
| "request_run tr ctx c symbols k (Suc n) cl =
     (let (r, cl) = make_request tr ctx (in_call c k) symbols cl;
          (rs, cl) = request_run tr ctx c symbols (Suc k) n cl
      in (r # rs, cl))"

fun failure_of :: "go_error + 'a \<Rightarrow> go_error option" where
  "failure_of (Inl e) = Some e"
| "failure_of (Inr x) = None"

fun prices_of :: "go_error + (string, f64) gomap \<Rightarrow> (string, f64) gomap" where
  "prices_of (Inl e) = []"
| "prices_of (Inr m) = m"

lemma attempt_request_eq: "attempt_request tr ctx c symbols (m, k, cl) =
    (let (r, cl) = make_request tr ctx (in_call c k) symbols cl in (failure_of r, prices_of r, Suc k, cl))"
  by (simp add: attempt_request_def split_beta Let_def split: sum.split)

lemma call_n_requests:
  "call_n (attempt_request tr ctx c symbols) (Suc n) (m, k, cl) =
     (let (rs, cl) = request_run tr ctx c symbols k (Suc n) cl
      in (map failure_of rs, prices_of (last rs), k + Suc n, cl))"
proof (induction n arbitrary: m k cl)
  case 0
  then show ?case by (simp add: attempt_request_eq split_beta Let_def)
next
  case (Suc n)
  obtain r cl1 where r: "make_request tr ctx (in_call c k) symbols cl = (r, cl1)" by fastforce
  have "call_n (attempt_request tr ctx c symbols) (Suc (Suc n)) (m, k, cl) =
      (let (es, st) = call_n (attempt_request tr ctx c symbols) (Suc n) (prices_of r, Suc k, cl1) in (failure_of r # es, st))"
    by (simp only: call_n.simps(2) [of _ "Suc n"] attempt_request_eq r Let_def prod.case)
  also have "\<dots> = (let (rs, cl) = request_run tr ctx c symbols (Suc k) (Suc n) cl1
      in (failure_of r # map failure_of rs, prices_of (last rs), Suc k + Suc n, cl))"
    by (simp add: Suc.IH split_beta Let_def del: call_n.simps request_run.simps)
  also have "\<dots> = (let (rs, cl) = request_run tr ctx c symbols k (Suc (Suc n)) cl
      in (map failure_of rs, prices_of (last rs), k + Suc (Suc n), cl))"
    by (simp add: r split_beta Let_def)
  finally show ?case .
qed

lemma length_request_run: "length (fst (request_run tr ctx c symbols k n cl)) = n"
  by (induction n arbitrary: k cl) (simp_all add: split_beta Let_def)

text \<open>
  C13: A call with symbols sends at least one and at most \<open>MaxAttempts\<close> requests.  Every
  request but the last one was answered with status 429 or 5xx; the call succeeds exactly
  when the last one does, with its prices, and is counted once under its outcome.
\<close>

theorem ticker_prices_outcome:
  assumes "symbols \<noteq> []" and "1 \<le> max_attempts (bo_config (cl_backoff cl))"
    and "get_ticker_prices tr ctx c symbols cl = (r, cl')"
  shows "\<exists>n rs cl1. int (Suc n) \<le> max_attempts (bo_config (cl_backoff cl)) \<and>
    request_run tr ctx (in_call c 1) symbols 0 (Suc n) cl = (rs, cl1) \<and> net cl' = net cl1 \<and>
    (\<forall>i<n. \<exists>code msg. rs ! i = Inl (HTTPError code msg) \<and> (code = 429 \<or> 500 \<le> code \<and> code < 600)) \<and>
    (case rs ! n of Inr prices \<Rightarrow> r = Inr prices | Inl e \<Rightarrow> \<exists>e'. r = Inl e') \<and>
    (\<exists>d. kraken_metrics cl' = kraken_metrics cl1 @
       (let status = (case r of Inr _ \<Rightarrow> ''success'' | Inl _ \<Rightarrow> ''error'')
        in [KrakenRequests status, KrakenDuration status d]))"
proof -
  let ?fn = "attempt_request tr ctx (in_call c 1) symbols"
  obtain err b m k cl1 ms where loop: "retry_loop ''kraken'' ?fn is_retryable_http_error (wait_ends tr ctx (in_call c 1))
      1 None (cl_backoff cl) ([], 0, cl) [] = (err, b, (m, k, cl1), ms)" by (metis prod_cases3 prod_cases4)
  obtain n es where o: "1 + int n \<le> max_attempts (bo_config (cl_backoff cl))"
    "call_n ?fn (Suc n) ([], 0, cl) = (es, (m, k, cl1))"
    "\<forall>i<n. retried is_retryable_http_error (wait_ends tr ctx (in_call c 1)) (1 + int i) (es ! i)"
    "retry_ends is_retryable_http_error (wait_ends tr ctx (in_call c 1)) (max_attempts (bo_config (cl_backoff cl)))
       (1 + int n) (es ! n) err"
    using retry_loop_outcome [OF assms(2) loop] by blast
  obtain rs where run: "request_run tr ctx (in_call c 1) symbols 0 (Suc n) cl = (rs, cl1)"
    and es: "es = map failure_of rs" and m: "m = prices_of (last rs)"
    using o(2) unfolding call_n_requests
    by (cases "request_run tr ctx (in_call c 1) symbols 0 (Suc n) cl") (simp add: Let_def del: request_run.simps)
  have len: "length rs = Suc n"
    using length_request_run [of tr ctx "in_call c 1" symbols 0 "Suc n" cl] by (simp only: run fst_conv)
  have lst: "last rs = rs ! n" using len by (metis last_conv_nth diff_Suc_1 length_0_conv nat.distinct(1))
  have early: "\<forall>i<n. \<exists>code msg. rs ! i = Inl (HTTPError code msg) \<and> (code = 429 \<or> 500 \<le> code \<and> code < 600)"
  proof (intro allI impI)
    fix i assume "i < n"
    then obtain e where "failure_of (rs ! i) = Some e" "is_retryable_http_error e"
      using o(3) len by (auto simp: es retried_def)
    then show "\<exists>code msg. rs ! i = Inl (HTTPError code msg) \<and> (code = 429 \<or> 500 \<le> code \<and> code < 600)"
      by (cases "rs ! i"; cases e) auto
  qed
  have ends: "(case rs ! n of Inr prices \<Rightarrow> err = None \<and> m = prices | Inl e \<Rightarrow> err \<noteq> None)"
    using o(4) len by (cases "rs ! n") (auto simp: es m lst retry_ends_def split: if_splits)
  have res: "r = (case err of Some e \<Rightarrow> Inl e | None \<Rightarrow> Inr m)" "net cl' = net cl1"
    "\<exists>d. kraken_metrics cl' = kraken_metrics cl1 @
       (let status = (case err of None \<Rightarrow> ''success'' | Some _ \<Rightarrow> ''error'') in [KrakenRequests status, KrakenDuration status d])"
    using assms(1,3) loop
    by (auto simp: get_ticker_prices_def retry_def observe_request_def Let_def split: option.splits)
  show ?thesis
    using o(1) run early ends res
    by (intro exI [of _ n] exI [of _ rs] exI [of _ cl1]) (auto split: sum.splits option.splits simp del: request_run.simps)
qed

definition busy_reply :: http_reply where
  "busy_reply = \<lparr>reply_status = 503, reply_body = ''busy'', reply_broken = False\<rparr>"

theorem ticker_prices_outcome_witness:
  "\<exists>r cl' n rs cl1.
     get_ticker_prices sample_transport () (\<lambda>_. 0) [''XBTUSD''] (sample_client [busy_reply, sample_reply]) = (r, cl') \<and>
     int (Suc n) \<le> 5 \<and>
     request_run sample_transport () (\<lambda>_. 0) [''XBTUSD''] 0 (Suc n) (sample_client [busy_reply, sample_reply]) = (rs, cl1) \<and>
     net cl' = net cl1 \<and> (case rs ! n of Inr prices \<Rightarrow> r = Inr prices | Inl e \<Rightarrow> \<exists>e'. r = Inl e')"
proof -
  let ?cl = "sample_client [busy_reply, sample_reply]"
  obtain r cl' where g: "get_ticker_prices sample_transport () (\<lambda>_. 0) [''XBTUSD''] ?cl = (r, cl')" by fastforce
  have five: "max_attempts (bo_config (cl_backoff ?cl)) = 5"
    by (simp add: sample_client_def new_client_def new_backoff_def default_backoff_config_def)
  then have one: "1 \<le> max_attempts (bo_config (cl_backoff ?cl))" by simp
  have ne: "[''XBTUSD''] \<noteq> []" by simp
  show ?thesis using ticker_prices_outcome [OF ne one g] g unfolding five in_call_const by blast
qed

text \<open>A request that succeeds at once.\<close>

lemma get_prices_first:
  assumes "make_request tr ctx (in_call (in_call c 1) 0) symbols cl = (Inr prices, cl1)"
    and "symbols \<noteq> []" and "1 \<le> max_attempts (bo_config (cl_backoff cl))"
  shows "fst (get_ticker_prices tr ctx c symbols cl) = Inr prices"
  using assms
  by (simp add: get_ticker_prices_def retry_def retry_loop.simps [of _ _ _ _ 1] attempt_request_def Let_def)

end
