(* ===== verification/Memory_Cache.thy ===== *)
theory Memory_Cache
  imports Value_Store "HOL-Library.Multiset"
begin

text \<open>
  \<open>internal/cache/memory.go\<close>: the in-memory cache.  Entries are values here: the program
  shares \<open>*CacheEntry\<close> pointers only between the caller of \<open>SetWithMetadata\<close> and the
  store, and only \<open>Expire\<close> writes through one.  \<open>range\<close> visits a Go map in an order the
  language leaves open: where the order can show, it is the argument \<open>order\<close>, a
  permutation of the entries.
\<close>

declare One_nat_def [simp del]

subsection \<open>State\<close>

record cache_stats =
  hits :: int
  misses :: int
  evictions :: int
  refreshes :: int

record memory_cache =
  mc_config :: cache_config
  mc_data :: "(string, cache_entry) gomap"
  mc_stats :: cache_stats

definition new_in_memory_cache :: "cache_config \<Rightarrow> memory_cache" where
  "new_in_memory_cache cfg =
     \<lparr>mc_config = cfg, mc_data = [],
      mc_stats = \<lparr>hits = 0, misses = 0, evictions = 0, refreshes = 0\<rparr>\<rparr>"

definition record_hit :: "memory_cache \<Rightarrow> memory_cache" where
  "record_hit m = m\<lparr>mc_stats := (mc_stats m)\<lparr>hits := wrap64 (hits (mc_stats m) + 1)\<rparr>\<rparr>"

definition record_miss :: "memory_cache \<Rightarrow> memory_cache" where
  "record_miss m = m\<lparr>mc_stats := (mc_stats m)\<lparr>misses := wrap64 (misses (mc_stats m) + 1)\<rparr>\<rparr>"

definition record_evictions :: "int \<Rightarrow> memory_cache \<Rightarrow> memory_cache" where
  "record_evictions n m = m\<lparr>mc_stats := (mc_stats m)\<lparr>evictions := wrap64 (evictions (mc_stats m) + n)\<rparr>\<rparr>"

definition record_refresh :: "memory_cache \<Rightarrow> memory_cache" where
  "record_refresh m = m\<lparr>mc_stats := (mc_stats m)\<lparr>refreshes := wrap64 (refreshes (mc_stats m) + 1)\<rparr>\<rparr>"

definition hit_rate :: "cache_stats \<Rightarrow> f64" where
  "hit_rate s =
     (let total = wrap64 (hits s + misses s)
      in if total = 0 then Fin 0 else f64_div (f64_of_int (hits s)) (f64_of_int total))"

subsection \<open>Reading\<close>

text \<open>
  \<open>Get\<close> takes the lock twice, to look the key up and to delete an expired entry, and
  reads the clock in between: \<open>mem_get_finish\<close> is what it does after the lookup.
\<close>

definition mem_delete :: "string \<Rightarrow> memory_cache \<Rightarrow> memory_cache" where
  "mem_delete key m = m\<lparr>mc_data := gm_del key (mc_data m)\<rparr>"

definition mem_get_finish ::
  "clock \<Rightarrow> string \<Rightarrow> cache_entry option \<Rightarrow> memory_cache \<Rightarrow> go_any option \<times> memory_cache" where
  "mem_get_finish c key found m =
     (case found of
        None \<Rightarrow> (None, record_miss m)
      | Some entry \<Rightarrow>
          if is_expired (now_at c 0) entry then (None, record_miss (mem_delete key m))
          else (Some (entry_value entry), record_hit m))"

definition mem_get :: "clock \<Rightarrow> string \<Rightarrow> memory_cache \<Rightarrow> go_any option \<times> memory_cache" where
  "mem_get c key m = mem_get_finish c key (gm_get (mc_data m) key) m"

text \<open>\<open>GetWithMetadata\<close> takes the locks in the same way.\<close>

definition mem_get_with_metadata_finish ::
  "clock \<Rightarrow> string \<Rightarrow> cache_entry option \<Rightarrow> memory_cache \<Rightarrow> cache_entry option \<times> memory_cache" where
  "mem_get_with_metadata_finish c key found m =
     (case found of
        None \<Rightarrow> (None, record_miss m)
      | Some entry \<Rightarrow>
          if is_expired (now_at c 0) entry then (None, record_miss (mem_delete key m))
          else (Some entry, record_hit m))"

definition mem_get_with_metadata :: "clock \<Rightarrow> string \<Rightarrow> memory_cache \<Rightarrow> cache_entry option \<times> memory_cache" where
  "mem_get_with_metadata c key m = mem_get_with_metadata_finish c key (gm_get (mc_data m) key) m"

fun mem_get_multiple_loop ::
  "clock \<Rightarrow> nat \<Rightarrow> string list \<Rightarrow> (string, cache_entry) gomap \<Rightarrow> (string, go_any) gomap \<Rightarrow> (string, go_any) gomap" where
  "mem_get_multiple_loop c i [] m result = result"
| "mem_get_multiple_loop c i (key # keys) m result =
     mem_get_multiple_loop c (i + 1) keys m
       (case gm_get m key of
          Some entry \<Rightarrow> if is_expired (now_at c i) entry then result else gm_put key (entry_value entry) result
        | None \<Rightarrow> result)"

definition mem_get_multiple :: "clock \<Rightarrow> string list \<Rightarrow> memory_cache \<Rightarrow> (string, go_any) gomap" where
  "mem_get_multiple c keys m =
     (if keys = [] then [] else mem_get_multiple_loop c 0 keys (mc_data m) [])"

subsection \<open>Eviction\<close>

type_synonym range_order = "(string \<times> cache_entry) list \<Rightarrow> (string \<times> cache_entry) list"

text \<open>
  The entries are collected in the order of the range and sorted by creation time.
  \<open>sort.Slice\<close> need not be stable, but any result it may give is that of a stable sort
  after some other order of the range.
\<close>

definition evict_lru :: "range_order \<Rightarrow> memory_cache \<Rightarrow> memory_cache" where
  "evict_lru order m =
     (if mc_data m = [] then m
      else
        (let entries = sort_key (\<lambda>(key, entry). created_at entry) (order (mc_data m));
             evict_count = length entries div 10;
             evict_count = (if evict_count = 0 then 1 else evict_count)
         in record_evictions (int evict_count)
              (m\<lparr>mc_data := fold gm_del (map fst (take evict_count entries)) (mc_data m)\<rparr>)))"

definition evict_if_full :: "range_order \<Rightarrow> int \<Rightarrow> memory_cache \<Rightarrow> memory_cache" where
  "evict_if_full order n m = (if n \<ge> max_size (mc_config m) then evict_lru order m else m)"

fun expired_keys :: "clock \<Rightarrow> nat \<Rightarrow> (string \<times> cache_entry) list \<Rightarrow> string list" where
  "expired_keys c i [] = []"
| "expired_keys c i ((key, entry) # es) =
     (if is_expired (now_at c i) entry then key # expired_keys c (i + 1) es
      else expired_keys c (i + 1) es)"

definition mem_evict_expired :: "range_order \<Rightarrow> clock \<Rightarrow> memory_cache \<Rightarrow> int \<times> memory_cache" where
  "mem_evict_expired order c m =
     (let ks = expired_keys c 0 (order (mc_data m))
      in (int (length ks), record_evictions (int (length ks)) (m\<lparr>mc_data := fold gm_del ks (mc_data m)\<rparr>)))"

subsection \<open>Writing\<close>

definition mem_put :: "string \<Rightarrow> cache_entry \<Rightarrow> memory_cache \<Rightarrow> memory_cache" where
  "mem_put key entry m = m\<lparr>mc_data := gm_put key entry (mc_data m)\<rparr>"

definition clamp_ttl :: "cache_config \<Rightarrow> duration \<Rightarrow> duration" where
  "clamp_ttl cfg ttl =
     (let ttl = (if ttl \<le> 0 then default_ttl cfg else ttl)
      in if ttl > max_ttl cfg then max_ttl cfg else ttl)"

definition mem_set :: "range_order \<Rightarrow> clock \<Rightarrow> string \<Rightarrow> go_any \<Rightarrow> duration \<Rightarrow> memory_cache \<Rightarrow> memory_cache" where
  "mem_set order c key v ttl m =
     (let ttl = clamp_ttl (mc_config m) ttl;
          entry = \<lparr>entry_value = v, expires_at = now_at c 0 + ttl, created_at = now_at c 1\<rparr>
      in mem_put key entry (evict_if_full order (int (length (mc_data m))) m))"

definition mem_clear :: "memory_cache \<Rightarrow> memory_cache" where
  "mem_clear m = m\<lparr>mc_data := []\<rparr>"

fun mem_set_multiple_loop :: "clock \<Rightarrow> nat \<Rightarrow> (string, go_any) gomap \<Rightarrow> duration \<Rightarrow> memory_cache \<Rightarrow> memory_cache" where
  "mem_set_multiple_loop c i [] ttl m = m"
| "mem_set_multiple_loop c i ((key, v) # items) ttl m =
     mem_set_multiple_loop c (i + 2) items ttl
       (mem_put key \<lparr>entry_value = v, expires_at = now_at c i + ttl, created_at = now_at c (i + 1)\<rparr> m)"

definition mem_set_multiple :: "range_order \<Rightarrow> clock \<Rightarrow> (string, go_any) gomap \<Rightarrow> duration \<Rightarrow> memory_cache \<Rightarrow> memory_cache" where
  "mem_set_multiple order c items ttl m =
     (if items = [] then m
      else mem_set_multiple_loop c 0 items ttl
             (evict_if_full order (int (length (mc_data m) + length items)) m))"

definition mem_set_with_metadata :: "range_order \<Rightarrow> string \<Rightarrow> cache_entry \<Rightarrow> memory_cache \<Rightarrow> memory_cache" where
  "mem_set_with_metadata order key entry m =
     mem_put key entry (evict_if_full order (int (length (mc_data m))) m)"

definition mem_expire :: "clock \<Rightarrow> string \<Rightarrow> duration \<Rightarrow> memory_cache \<Rightarrow> memory_cache" where
  "mem_expire c key ttl m =
     (case gm_get (mc_data m) key of
        Some entry \<Rightarrow> mem_put key (entry\<lparr>expires_at := now_at c 0 + ttl\<rparr>) m
      | None \<Rightarrow> m)"

definition mem_ttl :: "clock \<Rightarrow> string \<Rightarrow> memory_cache \<Rightarrow> go_error + duration" where
  "mem_ttl c key m =
     (case gm_get (mc_data m) key of
        Some entry \<Rightarrow> if is_expired (now_at c 0) entry then Inr 0 else Inr (entry_ttl (now_at c 1) entry)
      | None \<Rightarrow> Inl (ErrorString ''key not found''))"

definition mem_size :: "memory_cache \<Rightarrow> int" where
  "mem_size m = int (length (mc_data m))"

text \<open>\<open>float64(ttl) / float64(totalTTL)\<close>: NaN for an entry of no lifetime, which compares false.\<close>

fun expiring_keys_loop :: "clock \<Rightarrow> nat \<Rightarrow> f64 \<Rightarrow> (string \<times> cache_entry) list \<Rightarrow> string list" where
  "expiring_keys_loop c i threshold [] = []"
| "expiring_keys_loop c i threshold ((key, entry) # es) =
     (let rest = expiring_keys_loop c (i + 2) threshold es in
      if is_expired (now_at c i) entry then rest
      else
        (let ttl = entry_ttl (now_at c (i + 1)) entry;
             total_ttl = time_sub (expires_at entry) (created_at entry);
             remaining_ratio = f64_div (f64_of_int ttl) (f64_of_int total_ttl)
         in if remaining_ratio \<le> threshold then key # rest else rest))"

definition get_expiring_keys :: "range_order \<Rightarrow> clock \<Rightarrow> f64 \<Rightarrow> memory_cache \<Rightarrow> string list" where
  "get_expiring_keys order c threshold m = expiring_keys_loop c 0 threshold (order (mc_data m))"

text \<open>The methods as an implementation of the interface; none of them fails.\<close>

definition memory_ops :: "range_order \<Rightarrow> memory_cache cache_ops" where
  "memory_ops order =
     \<lparr>op_get = (\<lambda>c k m. let (v, m) = mem_get c k m in (Inr v, m)),
      op_set = (\<lambda>c k v ttl m. (None, mem_set order c k v ttl m)),
      op_delete = (\<lambda>c k m. (None, mem_delete k m)),
      op_clear = (\<lambda>c m. (None, mem_clear m)),
      op_get_multiple = (\<lambda>c ks m. (Inr (mem_get_multiple c ks m), m)),
      op_set_multiple = (\<lambda>c items ttl m. (None, mem_set_multiple order c items ttl m)),
      op_get_with_metadata = (\<lambda>c k m. let (e, m) = mem_get_with_metadata c k m in (Inr e, m)),
      op_set_with_metadata = (\<lambda>c k e m. (None, mem_set_with_metadata order k e m)),
      op_expire = (\<lambda>c k ttl m. (None, mem_expire c k ttl m)),
      op_ttl = (\<lambda>c k m. (mem_ttl c k m, m)),
      op_evict_expired = (\<lambda>c m. let (n, m) = mem_evict_expired order c m in ((n, None), m)),
      op_size = (\<lambda>c m. (Inr (mem_size m), m)),
      op_ping = (\<lambda>c m. (None, m)),
      op_close = (\<lambda>c m. (None, m))\<rparr>"

subsection \<open>Lookups after each operation\<close>

lemma record_fields [simp]:
  "mc_data (record_hit m) = mc_data m" "mc_config (record_hit m) = mc_config m"
  "mc_data (record_miss m) = mc_data m" "mc_config (record_miss m) = mc_config m"
  "mc_data (record_evictions n m) = mc_data m" "mc_config (record_evictions n m) = mc_config m"
  "mc_data (record_refresh m) = mc_data m" "mc_config (record_refresh m) = mc_config m"
  by (simp_all add: record_hit_def record_miss_def record_evictions_def record_refresh_def)

text \<open>The invariant of the state: the map has one entry per key, and the configuration is fixed.\<close>

definition mem_ok :: "cache_config \<Rightarrow> memory_cache \<Rightarrow> bool" where
  "mem_ok cfg m \<longleftrightarrow> mc_config m = cfg \<and> gm_ok (mc_data m)"

abbreviation held :: "memory_cache \<Rightarrow> string \<Rightarrow> cache_entry option" where
  "held m \<equiv> gm_get (mc_data m)"

lemma mem_okD: "mem_ok cfg m \<Longrightarrow> gm_ok (mc_data m)" "mem_ok cfg m \<Longrightarrow> mc_config m = cfg"
  by (simp_all add: mem_ok_def)

lemma mem_delete_held: "mem_ok cfg m \<Longrightarrow> held (mem_delete k m) k' = (if k' = k then None else held m k')"
  by (simp add: mem_delete_def mem_ok_def gomap_simps)

lemma mem_put_held: "held (mem_put k e m) k' = (if k' = k then Some e else held m k')"
  by (simp add: mem_put_def gomap_simps)

lemma mem_get_data:
  "mc_data (snd (mem_get c k m)) =
     (case held m k of
        Some e \<Rightarrow> if is_expired (now_at c 0) e then gm_del k (mc_data m) else mc_data m
      | None \<Rightarrow> mc_data m)"
  by (simp add: mem_get_def mem_get_finish_def mem_delete_def split: option.split)

lemma mem_get_with_metadata_snd: "snd (mem_get_with_metadata c k m) = snd (mem_get c k m)"
  by (simp add: mem_get_def mem_get_finish_def mem_get_with_metadata_def mem_get_with_metadata_finish_def split: option.split)

lemma mem_get_hit: "fst (mem_get c k m) = Some v \<longleftrightarrow>
    (\<exists>e. held m k = Some e \<and> entry_value e = v \<and> now_at c 0 \<le> expires_at e)"
  by (auto simp: mem_get_def mem_get_finish_def is_expired_def not_less split: option.split)

lemma mem_get_with_metadata_hit: "fst (mem_get_with_metadata c k m) = Some e \<longleftrightarrow>
    held m k = Some e \<and> now_at c 0 \<le> expires_at e"
  by (auto simp: mem_get_with_metadata_def mem_get_with_metadata_finish_def is_expired_def not_less split: option.split)

lemma evict_lru_data:
  "mc_data (evict_lru order m) =
     fold gm_del (map fst (take (max 1 (length (order (mc_data m)) div 10))
       (sort_key (\<lambda>(key, entry). created_at entry) (order (mc_data m))))) (mc_data m)"
  if "mc_data m \<noteq> []"
proof -
  have "(if n div 10 = 0 then 1 else n div 10) = max 1 (n div 10)" for n :: nat by simp
  then show ?thesis using that by (simp add: evict_lru_def Let_def split_beta)
qed

lemma evict_lru_held:
  assumes "gm_ok (mc_data m)"
  shows "gm_ok (mc_data (evict_lru order m))"
    and "held (evict_lru order m) k = Some e \<Longrightarrow> held m k = Some e"
proof -
  have "gm_ok (mc_data (evict_lru order m)) \<and> (held (evict_lru order m) k = Some e \<longrightarrow> held m k = Some e)"
  proof (cases "mc_data m = []")
    case True
    then show ?thesis using assms by (simp add: evict_lru_def)
  next
    case False
    then show ?thesis using assms by (simp add: evict_lru_data gomap_simps)
  qed
  then show "gm_ok (mc_data (evict_lru order m))"
    and "held (evict_lru order m) k = Some e \<Longrightarrow> held m k = Some e" by simp_all
qed

lemma evict_lru_config [simp]: "mc_config (evict_lru order m) = mc_config m"
  by (simp add: evict_lru_def Let_def)

lemma evict_if_full_ok: "mem_ok cfg m \<Longrightarrow> mem_ok cfg (evict_if_full order n m)"
  by (auto simp: evict_if_full_def mem_ok_def evict_lru_held)

lemma evict_if_full_held: "mem_ok cfg m \<Longrightarrow> held (evict_if_full order n m) k = Some e \<Longrightarrow> held m k = Some e"
  by (auto simp: evict_if_full_def mem_ok_def evict_lru_held(2) split: if_splits)

lemma mem_put_ok: "mem_ok cfg m \<Longrightarrow> mem_ok cfg (mem_put k e m)"
  by (simp add: mem_ok_def mem_put_def gomap_simps)

lemma mem_delete_ok: "mem_ok cfg m \<Longrightarrow> mem_ok cfg (mem_delete k m)"
  by (simp add: mem_ok_def mem_delete_def gomap_simps)

lemma mem_clear_ok: "mem_ok cfg m \<Longrightarrow> mem_ok cfg (mem_clear m)"
  by (simp add: mem_ok_def mem_clear_def gomap_simps)

lemma mem_get_ok: "mem_ok cfg m \<Longrightarrow> mem_ok cfg (snd (mem_get c k m))"
  by (auto simp: mem_ok_def mem_get_def mem_get_finish_def mem_delete_def gomap_simps split: option.split)

lemma mem_set_ok: "mem_ok cfg m \<Longrightarrow> mem_ok cfg (mem_set order c k v ttl m)"
  by (simp add: mem_set_def Let_def mem_put_ok evict_if_full_ok)

lemma mem_set_held: "mem_ok cfg m \<Longrightarrow> held (mem_set order c k v ttl m) k' = Some e \<Longrightarrow>
    (if k' = k
     then e = \<lparr>entry_value = v, expires_at = now_at c 0 + clamp_ttl cfg ttl, created_at = now_at c 1\<rparr>
     else held m k' = Some e)"
  by (auto simp: mem_set_def Let_def mem_put_held mem_ok_def split: if_splits
      dest: evict_if_full_held [unfolded mem_ok_def, rotated])

lemma mem_set_self: "mem_ok cfg m \<Longrightarrow> held (mem_set order c k v ttl m) k =
    Some \<lparr>entry_value = v, expires_at = now_at c 0 + clamp_ttl cfg ttl, created_at = now_at c 1\<rparr>"
  by (simp add: mem_set_def Let_def mem_put_held mem_ok_def)

lemma mem_evict_expired_held:
  assumes "mem_ok cfg m"
  shows "mem_ok cfg (snd (mem_evict_expired order c m))"
    and "held (snd (mem_evict_expired order c m)) k = Some e \<Longrightarrow> held m k = Some e"
  using assms by (auto simp: mem_evict_expired_def Let_def mem_ok_def gomap_simps split: if_splits)

lemma mem_get_held: "mem_ok cfg m \<Longrightarrow> held (snd (mem_get c k m)) k' = Some e \<Longrightarrow> held m k' = Some e"
  by (auto simp: mem_get_data mem_ok_def gomap_simps split: option.splits if_splits)

subsection \<open>The contract\<close>

definition mem_serves :: "memory_cache \<Rightarrow> served" where
  "mem_serves m k = {(v, d). \<exists>e. held m k = Some e \<and> v = entry_value e \<and> d = expires_at e}"

definition mem_life :: "duration \<Rightarrow> cache_config \<Rightarrow> duration \<Rightarrow> duration" where
  "mem_life slack cfg ttl = slack + clamp_ttl cfg ttl"

lemma mem_serves_less: "(\<And>k e. held m' k = Some e \<Longrightarrow> held m k = Some e) \<Longrightarrow> serves_less (mem_serves m') (mem_serves m)"
  by (rule serves_less_subset) (auto simp: mem_serves_def)

interpretation mem: value_store "memory_ops order" "mem_ok cfg" mem_serves "mem_life slack cfg" slack
  for order :: range_order and cfg :: cache_config and slack :: duration
proof (unfold_locales, goal_cases)
  case (1 s c k)
  then show ?case by (simp add: memory_ops_def split_beta mem_get_ok)
next
  case (2 s c k v)
  then have hit: "fst (mem_get c k s) = Some v" by (simp add: memory_ops_def split_beta)
  have "c [] \<le> now_at c 0" using clock_within_mono [OF 2(2)] by (simp add: now_at_def)
  with hit show ?case unfolding mem_get_hit by (force simp: mem_serves_def)
next
  case (3 s c k)
  then show ?case
    by (auto simp: memory_ops_def split_beta intro!: mem_serves_less dest: mem_get_held)
next
  case (4 s c k v ttl)
  then show ?case by (simp add: memory_ops_def mem_set_ok)
next
  case (5 s c k v ttl)
  have t: "now_at c 0 \<le> c [] + slack" using clock_within_le [OF 5(2)] by (simp add: now_at_def)
  have "\<exists>d'. (v', d') \<in> serve_also k v (c [] + mem_life slack cfg ttl) (mem_serves s) k' \<and> d \<le> d'"
    if "(v', d) \<in> mem_serves (mem_set order c k v ttl s) k'" for k' v' d
    using that mem_set_held [OF 5(1), of order c k v ttl k'] t
    by (auto simp: mem_serves_def serve_also_def mem_life_def split: if_splits)
  then show ?case by (auto simp: memory_ops_def serves_less_def)
next
  case (6 s c k)
  then show ?case by (simp add: memory_ops_def mem_delete_ok)
next
  case (7 s c k)
  then show ?case
    by (auto simp: memory_ops_def mem_delete_held intro!: mem_serves_less split: if_splits)
next
  case (8 s c)
  then show ?case by (simp add: memory_ops_def mem_clear_ok)
next
  case (9 s c)
  then show ?case
    by (auto simp: memory_ops_def mem_clear_def gomap_simps intro!: mem_serves_less)
next
  case (10 s c)
  then show ?case by (simp add: memory_ops_def split_beta mem_evict_expired_held)
next
  case (11 s c)
  then show ?case
    by (auto simp: memory_ops_def split_beta intro!: mem_serves_less dest: mem_evict_expired_held(2))
qed

subsection \<open>Sequences of operations, and the map they implement\<close>

datatype mem_op =
    MGet clock string
  | MSet clock string go_any duration
  | MDelete string
  | MClear
  | MGetMultiple clock "string list"
  | MSetMultiple clock "(string, go_any) gomap" duration
  | MGetWithMetadata clock string
  | MSetWithMetadata string cache_entry
  | MExpire clock string duration
  | MEvictExpired clock

fun mem_step :: "range_order \<Rightarrow> mem_op \<Rightarrow> memory_cache \<Rightarrow> memory_cache" where
  "mem_step order (MGet c k) m = snd (mem_get c k m)"
| "mem_step order (MSet c k v ttl) m = mem_set order c k v ttl m"
| "mem_step order (MDelete k) m = mem_delete k m"
| "mem_step order MClear m = mem_clear m"
| "mem_step order (MGetMultiple c ks) m = m"
| "mem_step order (MSetMultiple c items ttl) m = mem_set_multiple order c items ttl m"
| "mem_step order (MGetWithMetadata c k) m = snd (mem_get_with_metadata c k m)"
| "mem_step order (MSetWithMetadata k e) m = mem_set_with_metadata order k e m"
| "mem_step order (MExpire c k ttl) m = mem_expire c k ttl m"
| "mem_step order (MEvictExpired c) m = snd (mem_evict_expired order c m)"

fun mem_run :: "range_order \<Rightarrow> mem_op list \<Rightarrow> memory_cache \<Rightarrow> memory_cache" where
  "mem_run order [] m = m"
| "mem_run order (x # xs) m = mem_run order xs (mem_step order x m)"

text \<open>
  The abstract cache: a map that forgets nothing.  Only the operations that write
  change it.
\<close>

type_synonym ideal = "string \<Rightarrow> cache_entry option"

fun ideal_set_many :: "clock \<Rightarrow> nat \<Rightarrow> (string, go_any) gomap \<Rightarrow> duration \<Rightarrow> ideal \<Rightarrow> ideal" where
  "ideal_set_many c i [] ttl M = M"
| "ideal_set_many c i ((k, v) # items) ttl M =
     ideal_set_many c (i + 2) items ttl
       (M(k \<mapsto> \<lparr>entry_value = v, expires_at = now_at c i + ttl, created_at = now_at c (i + 1)\<rparr>))"

fun ideal_step :: "cache_config \<Rightarrow> mem_op \<Rightarrow> ideal \<Rightarrow> ideal" where
  "ideal_step cfg (MSet c k v ttl) M =
     M(k \<mapsto> \<lparr>entry_value = v, expires_at = now_at c 0 + clamp_ttl cfg ttl, created_at = now_at c 1\<rparr>)"
| "ideal_step cfg (MDelete k) M = M(k := None)"
| "ideal_step cfg MClear M = Map.empty"
| "ideal_step cfg (MSetMultiple c items ttl) M = ideal_set_many c 0 items ttl M"
| "ideal_step cfg (MSetWithMetadata k e) M = M(k \<mapsto> e)"
| "ideal_step cfg (MExpire c k ttl) M =
     M(k := map_option (\<lambda>e. e\<lparr>expires_at := now_at c 0 + ttl\<rparr>) (M k))"
| "ideal_step cfg _ M = M"

fun ideal_run :: "cache_config \<Rightarrow> mem_op list \<Rightarrow> ideal \<Rightarrow> ideal" where
  "ideal_run cfg [] M = M"
| "ideal_run cfg (x # xs) M = ideal_run cfg xs (ideal_step cfg x M)"

definition implements :: "memory_cache \<Rightarrow> ideal \<Rightarrow> bool" where
  "implements m M \<longleftrightarrow> (\<forall>k e. held m k = Some e \<longrightarrow> M k = Some e)"

lemma set_many_ok: "mem_ok cfg m \<Longrightarrow> mem_ok cfg (mem_set_multiple_loop c i items ttl m)"
  by (induction c i items ttl m rule: mem_set_multiple_loop.induct) (auto intro: mem_put_ok)

lemma put_implements: "implements m M \<Longrightarrow> implements (mem_put k e m) (M(k \<mapsto> e))"
  by (simp add: implements_def mem_put_held)

lemma set_many_implements:
  "implements m M \<Longrightarrow> implements (mem_set_multiple_loop c i items ttl m) (ideal_set_many c i items ttl M)"
proof (induction c i items ttl M arbitrary: m rule: ideal_set_many.induct)
  case (2 c i k v items ttl M)
  show ?case unfolding mem_set_multiple_loop.simps ideal_set_many.simps
    by (rule 2(1) [OF put_implements [OF 2(2)]])
qed simp

lemma mem_step_ok: "mem_ok cfg m \<Longrightarrow> mem_ok cfg (mem_step order x m)"
  by (cases x)
    (auto simp: mem_get_with_metadata_snd mem_set_multiple_def mem_set_with_metadata_def mem_expire_def
      intro: mem_get_ok mem_set_ok mem_delete_ok mem_clear_ok mem_put_ok mem_evict_expired_held(1)
        evict_if_full_ok set_many_ok split: option.split)

lemma evict_implements: "mem_ok cfg m \<Longrightarrow> implements m M \<Longrightarrow> implements (evict_if_full order n m) M"
  by (auto simp: implements_def dest: evict_if_full_held)

lemma mem_step_implements:
  assumes "mem_ok cfg m" and "implements m M"
  shows "implements (mem_step order x m) (ideal_step cfg x M)"
proof (cases x)
  case (MSet c k v ttl)
  then show ?thesis
    using assms(2) mem_set_held [OF assms(1), of order c k v ttl]
    by (auto simp: implements_def split: if_splits)
next
  case (MSetMultiple c items ttl)
  then show ?thesis
    using assms by (cases "items = []") (auto simp: mem_set_multiple_def intro!: set_many_implements evict_implements)
next
  case (MSetWithMetadata k e)
  then show ?thesis
    using assms evict_implements [OF assms]
    by (auto simp: mem_set_with_metadata_def implements_def mem_put_held)
next
  case (MGetMultiple c ks)
  then show ?thesis using assms by simp
qed (use assms in \<open>auto simp: implements_def mem_get_with_metadata_snd mem_delete_held mem_clear_def
    mem_expire_def mem_put_held gomap_simps dest: mem_get_held mem_evict_expired_held(2)
    split: option.splits if_splits\<close>)

lemma mem_run_implements:
  "mem_ok cfg m \<Longrightarrow> implements m M \<Longrightarrow>
     mem_ok cfg (mem_run order xs m) \<and> implements (mem_run order xs m) (ideal_run cfg xs M)"
proof (induction xs arbitrary: m M)
  case (Cons x xs)
  then show ?case using mem_step_ok mem_step_implements by fastforce
qed simp

lemma new_cache_ok: "mem_ok cfg (new_in_memory_cache cfg)" and new_cache_held: "held (new_in_memory_cache cfg) k = None"
  by (simp_all add: mem_ok_def new_in_memory_cache_def gomap_simps)

lemma run_implements:
  "mem_ok cfg (mem_run order xs (new_in_memory_cache cfg)) \<and>
   implements (mem_run order xs (new_in_memory_cache cfg)) (ideal_run cfg xs Map.empty)"
  by (rule mem_run_implements [OF new_cache_ok]) (simp add: implements_def new_cache_held)

text \<open>
  C7: The memory cache never invents or mixes up data: after any sequence of its
  operations, a hit is the value, not yet expired, that a map without eviction holds for
  the key, that is the one written last.
\<close>

theorem hit_is_last_write:
  assumes "fst (mem_get c k (mem_run order xs (new_in_memory_cache cfg))) = Some v"
  shows "\<exists>e. ideal_run cfg xs Map.empty k = Some e \<and> entry_value e = v \<and> now_at c 0 \<le> expires_at e"
  using assms run_implements [of cfg order xs] by (auto simp: mem_get_hit implements_def)

theorem hit_is_last_write_witness:
  "\<exists>e. ideal_run default_cache_config
       [MSet (\<lambda>_. 0) ''XXBTZUSD'' (AnyFloat (Fin 1)) minute, MSet (\<lambda>_. 5) ''XXBTZUSD'' (AnyFloat (Fin 2)) minute]
       Map.empty ''XXBTZUSD'' = Some e
     \<and> entry_value e = AnyFloat (Fin 2) \<and> second \<le> expires_at e"
  using hit_is_last_write [of "\<lambda>_. second" "''XXBTZUSD''" "\<lambda>es. es"
      "[MSet (\<lambda>_. 0) ''XXBTZUSD'' (AnyFloat (Fin 1)) minute, MSet (\<lambda>_. 5) ''XXBTZUSD'' (AnyFloat (Fin 2)) minute]"
      default_cache_config "AnyFloat (Fin 2)"]
  by (simp add: mem_get_hit mem_set_self mem_set_ok new_cache_ok default_cache_config_def clamp_ttl_def
      duration_defs Let_def)

subsection \<open>Eviction and size\<close>

text \<open>The orders in which a range can visit the entries: permutations.\<close>

definition is_order :: "range_order \<Rightarrow> bool" where
  "is_order order \<longleftrightarrow> (\<forall>es. mset (order es) = mset es)"

lemma is_order_id [simp]: "is_order (\<lambda>es. es)"
  by (simp add: is_order_def)

lemma is_order_rev [simp]: "is_order rev"
  by (simp add: is_order_def)

lemma is_orderD:
  assumes "is_order order"
  shows "mset (order es) = mset es" and "length (order es) = length es" and "set (order es) = set es"
proof -
  show ms: "mset (order es) = mset es" using assms by (simp add: is_order_def)
  show "length (order es) = length es" using ms by (rule mset_eq_length)
  show "set (order es) = set es" using ms by (rule mset_eq_setD)
qed

definition evict_count :: "memory_cache \<Rightarrow> nat" where
  "evict_count m = max 1 (length (mc_data m) div 10)"

definition by_age :: "range_order \<Rightarrow> memory_cache \<Rightarrow> (string \<times> cache_entry) list" where
  "by_age order m = sort_key (\<lambda>(key, entry). created_at entry) (order (mc_data m))"

lemma evict_lru_by_age:
  "is_order order \<Longrightarrow> mc_data m \<noteq> [] \<Longrightarrow>
     mc_data (evict_lru order m) = fold gm_del (map fst (take (evict_count m) (by_age order m))) (mc_data m)"
  by (simp add: evict_lru_data by_age_def evict_count_def is_orderD)

lemma by_age_props:
  assumes "is_order order" and "gm_ok (mc_data m)"
  shows "distinct (map fst (by_age order m))" and "set (by_age order m) = set (mc_data m)"
    and "length (by_age order m) = length (mc_data m)"
    and "sorted (map (\<lambda>(key, entry). created_at entry) (by_age order m))"
proof -
  have ms: "mset (by_age order m) = mset (mc_data m)" using assms(1) by (simp add: by_age_def is_orderD)
  then show "set (by_age order m) = set (mc_data m)" and "length (by_age order m) = length (mc_data m)"
    by (rule mset_eq_setD, rule mset_eq_length)
  have "mset (map fst (by_age order m)) = mset (map fst (mc_data m))" using ms by simp
  then have "distinct (map fst (by_age order m)) = distinct (map fst (mc_data m))"
    by (rule mset_eq_imp_distinct_iff)
  then show "distinct (map fst (by_age order m))" using assms(2) by (simp add: gm_ok_def)
  show "sorted (map (\<lambda>(key, entry). created_at entry) (by_age order m))"
    unfolding by_age_def by (rule sorted_sort_key)
qed

lemma evict_count_le: "mc_data m \<noteq> [] \<Longrightarrow> evict_count m \<le> length (mc_data m)"
  by (cases "mc_data m") (auto simp: evict_count_def)

lemma evict_lru_length:
  assumes "is_order order" and "gm_ok (mc_data m)" and "mc_data m \<noteq> []"
  shows "length (mc_data (evict_lru order m)) + evict_count m = length (mc_data m)"
proof -
  let ?ks = "map fst (take (evict_count m) (by_age order m))"
  note b = by_age_props [OF assms(1,2)]
  have "distinct ?ks" using b(1) by (simp add: take_map distinct_take flip: take_map)
  moreover have "\<forall>k\<in>set ?ks. gm_get (mc_data m) k \<noteq> None"
    using b(2) gm_get_in [OF assms(2)] by (fastforce dest: in_set_takeD)
  ultimately have "length (fold gm_del ?ks (mc_data m)) + length ?ks = length (mc_data m)"
    by (rule gm.len_del_all [OF assms(2)])
  then show ?thesis
    using b(3) evict_count_le [OF assms(3)] by (simp add: evict_lru_by_age [OF assms(1,3)])
qed

lemma split_at: "x \<in> set xs \<Longrightarrow> x \<notin> set (take n xs) \<Longrightarrow> x \<in> set (drop n xs)"
  by (metis Un_iff append_take_drop_id set_append)

lemma sorted_take_drop:
  "sorted (map f xs) \<Longrightarrow> x \<in> set (take n xs) \<Longrightarrow> y \<in> set (drop n xs) \<Longrightarrow> f x \<le> (f y :: int)"
proof -
  assume s: "sorted (map f xs)" and xy: "x \<in> set (take n xs)" "y \<in> set (drop n xs)"
  have "map f xs = map f (take n xs) @ map f (drop n xs)" by (simp flip: map_append)
  then have "\<forall>a\<in>set (map f (take n xs)). \<forall>b\<in>set (map f (drop n xs)). a \<le> b"
    using s by (metis sorted_append)
  then show ?thesis using xy by simp
qed

text \<open>
  C37: Eviction removes a tenth of the entries, at least one, and the entries created
  first: none that it removes is newer than one it keeps.  Whether an entry was read since
  makes no difference (the policy is called LRU).
\<close>

theorem evict_lru_removes_oldest:
  assumes "is_order order" and "gm_ok (mc_data m)" and "mc_data m \<noteq> []"
  shows "length (mc_data (evict_lru order m)) + max 1 (length (mc_data m) div 10) = length (mc_data m) \<and>
    (\<forall>k e k' e'. held m k = Some e \<longrightarrow> held (evict_lru order m) k = None \<longrightarrow>
       held (evict_lru order m) k' = Some e' \<longrightarrow> created_at e \<le> created_at e')"
proof (intro conjI allI impI)
  show "length (mc_data (evict_lru order m)) + max 1 (length (mc_data m) div 10) = length (mc_data m)"
    using evict_lru_length [OF assms] by (simp add: evict_count_def)
  fix k e k' e'
  assume k: "held m k = Some e" "held (evict_lru order m) k = None"
    and k': "held (evict_lru order m) k' = Some e'"
  let ?old = "take (evict_count m) (by_age order m)"
  note b = by_age_props [OF assms(1,2)]
  have held: "held (evict_lru order m) x = (if x \<in> set (map fst ?old) then None else held m x)" for x
    by (simp only: evict_lru_by_age [OF assms(1,3)] gm.lookup_del_all [OF assms(2)])
  have "k \<in> set (map fst ?old)" using k held [of k] by (auto split: if_splits)
  then obtain f where f: "(k, f) \<in> set ?old" by auto
  then have "(k, f) \<in> set (mc_data m)" using b(2) in_set_takeD by fastforce
  then have "f = e" using k(1) gm_get_in [OF assms(2), of k f] by simp
  have "k' \<notin> set (map fst ?old)" and "held m k' = Some e'" using k' held [of k'] by (auto split: if_splits)
  then have "(k', e') \<in> set (by_age order m)" and "(k', e') \<notin> set ?old"
    using gm_get_in [OF assms(2)] b(2) by force+
  then have "(k', e') \<in> set (drop (evict_count m) (by_age order m))" by (rule split_at)
  from sorted_take_drop [OF b(4) f this] show "created_at e \<le> created_at e'" using \<open>f = e\<close> by simp
qed

definition sample_entry :: "instant \<Rightarrow> cache_entry" where
  "sample_entry t = \<lparr>entry_value = AnyFloat (Fin 1), expires_at = t + minute, created_at = t\<rparr>"

definition sample_cache :: memory_cache where
  "sample_cache = (new_in_memory_cache (default_cache_config\<lparr>max_size := 2\<rparr>))
     \<lparr>mc_data := [(''b'', sample_entry 2), (''a'', sample_entry 1)]\<rparr>"

theorem evict_lru_removes_oldest_witness:
  "length (mc_data (evict_lru rev sample_cache)) + max 1 (length (mc_data sample_cache) div 10) = 2"
  using evict_lru_removes_oldest [of rev sample_cache] by (simp add: sample_cache_def gm_ok_def)

lemma mem_put_length:
  "length (mc_data (mem_put k e m)) = (if held m k = None then Suc (length (mc_data m)) else length (mc_data m))"
  by (simp add: mem_put_def gm_put_def gm_get_def length_update_distinct)

lemma evict_if_full_length:
  assumes "is_order order" and "mem_ok cfg m"
  shows "length (mc_data (evict_if_full order n m)) \<le> length (mc_data m)"
    and "mc_data m \<noteq> [] \<Longrightarrow> max_size cfg \<le> n \<Longrightarrow> Suc (length (mc_data (evict_if_full order n m))) \<le> length (mc_data m)"
proof -
  have full: "mc_data m \<noteq> [] \<Longrightarrow> Suc (length (mc_data (evict_lru order m))) \<le> length (mc_data m)"
    using evict_lru_length [OF assms(1) mem_okD(1) [OF assms(2)]]
    by (simp add: evict_count_def)
  have "mc_data m = [] \<Longrightarrow> evict_lru order m = m" by (simp add: evict_lru_def)
  then show "length (mc_data (evict_if_full order n m)) \<le> length (mc_data m)"
    using full by (cases "mc_data m = []") (auto simp: evict_if_full_def)
  show "Suc (length (mc_data (evict_if_full order n m))) \<le> length (mc_data m)"
    if "mc_data m \<noteq> []" "max_size cfg \<le> n"
    using full that mem_okD(2) [OF assms(2)] by (simp add: evict_if_full_def)
qed

text \<open>One insertion behind the check keeps the size within the limit (at least one entry).\<close>

lemma put_within:
  assumes "is_order order" and "mem_ok cfg m" and "int (length (mc_data m)) \<le> max 1 (max_size cfg)"
  shows "int (length (mc_data (mem_put k e (evict_if_full order (int (length (mc_data m))) m)))) \<le> max 1 (max_size cfg)"
proof -
  let ?m = "evict_if_full order (int (length (mc_data m))) m"
  have put: "length (mc_data (mem_put k e ?m)) \<le> Suc (length (mc_data ?m))" by (simp add: mem_put_length)
  note len = evict_if_full_length [OF assms(1,2), of "int (length (mc_data m))"]
  consider "mc_data m = []" | "mc_data m \<noteq> []" "max_size cfg \<le> int (length (mc_data m))"
    | "int (length (mc_data m)) < max_size cfg" by linarith
  then show ?thesis
  proof cases
    case 1
    then show ?thesis using put len(1) by simp
  next
    case 2
    then show ?thesis using put len(2) assms(3) by linarith
  next
    case 3
    then show ?thesis using put len(1) by linarith
  qed
qed

lemma gm_del_length: "gm_ok m \<Longrightarrow> length (gm_del k m) \<le> length m"
  by (rule gm.len_del_le)

lemma fold_del_length: "gm_ok m \<Longrightarrow> length (fold gm_del ks m) \<le> length m"
proof (induction ks arbitrary: m)
  case (Cons k ks)
  then have "length (fold gm_del ks (gm_del k m)) \<le> length (gm_del k m)" by (simp add: gomap_simps)
  then show ?case using gm_del_length [OF Cons.prems, of k] by simp
qed simp

fun batch :: "mem_op \<Rightarrow> bool" where
  "batch (MSetMultiple c items ttl) = True"
| "batch _ = False"

lemma mem_step_within:
  assumes "is_order order" and "mem_ok cfg m" and "int (length (mc_data m)) \<le> max 1 (max_size cfg)" and "\<not> batch x"
  shows "int (length (mc_data (mem_step order x m))) \<le> max 1 (max_size cfg)"
proof (cases x)
  case (MSet c k v ttl)
  then show ?thesis using put_within [OF assms(1-3)] by (simp add: mem_set_def Let_def)
next
  case (MSetWithMetadata k e)
  then show ?thesis using put_within [OF assms(1-3)] by (simp add: mem_set_with_metadata_def)
next
  case (MExpire c k ttl)
  then show ?thesis using assms(3) by (auto simp: mem_expire_def mem_put_length split: option.split)
next
  case (MEvictExpired c)
  then show ?thesis
    using assms(3) fold_del_length [OF mem_okD(1) [OF assms(2)], of "expired_keys c 0 (order (mc_data m))"]
    by (simp add: mem_evict_expired_def Let_def)
next
  case (MGet c k)
  then show ?thesis
    using assms(3) gm_del_length [OF mem_okD(1) [OF assms(2)], of k] by (auto simp: mem_get_data split: option.split)
next
  case (MGetWithMetadata c k)
  then show ?thesis
    using assms(3) gm_del_length [OF mem_okD(1) [OF assms(2)], of k]
    by (auto simp: mem_get_with_metadata_snd mem_get_data split: option.split)
next
  case (MDelete k)
  then show ?thesis using assms(3) gm_del_length [OF mem_okD(1) [OF assms(2)], of k] by (simp add: mem_delete_def)
qed (use assms in \<open>simp_all add: mem_clear_def\<close>)

text \<open>
  C29: The cache stays within \<open>MaxSize\<close> (or one entry, should that be less) through any
  sequence of operations other than \<open>SetMultiple\<close>, in whatever order Go visits its map.
\<close>

theorem size_within_limit:
  assumes "is_order order" and "\<forall>x\<in>set xs. \<not> batch x"
  shows "mem_size (mem_run order xs (new_in_memory_cache cfg)) \<le> max 1 (max_size cfg)"
proof -
  have "int (length (mc_data (mem_run order xs m))) \<le> max 1 (max_size cfg)"
    if "mem_ok cfg m" and "int (length (mc_data m)) \<le> max 1 (max_size cfg)" for m
    using that assms(2)
  proof (induction xs arbitrary: m)
    case (Cons x xs)
    then have "int (length (mc_data (mem_run order xs (mem_step order x m)))) \<le> max 1 (max_size cfg)"
      using mem_step_ok [OF Cons.prems(1)] mem_step_within [OF assms(1) Cons.prems(1,2)]
      by (intro Cons.IH) auto
    then show ?case by simp
  qed simp
  then show ?thesis
    using new_cache_ok [of cfg] by (simp add: mem_size_def new_in_memory_cache_def)
qed

theorem size_within_limit_witness:
  "mem_size (mem_run rev [MSet (\<lambda>_. 0) ''a'' AnyNil 1, MSet (\<lambda>_. 0) ''b'' AnyNil 1]
     (new_in_memory_cache (default_cache_config\<lparr>max_size := 1\<rparr>))) \<le> 1"
  using size_within_limit [of rev "[MSet (\<lambda>_. 0) ''a'' AnyNil 1, MSet (\<lambda>_. 0) ''b'' AnyNil 1]"
      "default_cache_config\<lparr>max_size := 1\<rparr>"]
  by simp

text \<open>
  \<open>SetMultiple\<close> escapes the limits of \<open>Set\<close>: two items go into a cache of size one,
  and a ttl of zero, which \<open>Set\<close> replaces by the default, stores an entry that has
  expired a nanosecond later.
\<close>

theorem set_multiple_escapes_limits:
  "mem_size (mem_set_multiple rev (\<lambda>_. 0) [(''a'', AnyNil), (''b'', AnyNil)] second
     (new_in_memory_cache (default_cache_config\<lparr>max_size := 1\<rparr>))) = 2 \<and>
   fst (mem_get (\<lambda>_. 1) ''a'' (mem_set_multiple rev (\<lambda>_. 0) [(''a'', AnyNil)] 0
     (new_in_memory_cache default_cache_config))) = None \<and>
   fst (mem_get (\<lambda>_. 1) ''a'' (mem_set rev (\<lambda>_. 0) ''a'' AnyNil 0
     (new_in_memory_cache default_cache_config))) = Some AnyNil"
  by (simp add: mem_size_def mem_set_multiple_def mem_set_def new_in_memory_cache_def evict_if_full_def
      default_cache_config_def evict_lru_def mem_put_def gm_put_def mem_get_def mem_get_finish_def
      gm_get_def is_expired_def clamp_ttl_def duration_defs Let_def)

subsection \<open>EvictExpired\<close>

lemma expired_keys_in: "k \<in> set (expired_keys c i es) \<Longrightarrow> \<exists>e j. (k, e) \<in> set es \<and> is_expired (now_at c j) e"
  by (induction c i es rule: expired_keys.induct) (auto split: if_splits)

lemma expired_keys_all: "(k, e) \<in> set es \<Longrightarrow> \<forall>j. is_expired (now_at c j) e \<Longrightarrow> k \<in> set (expired_keys c i es)"
  by (induction c i es rule: expired_keys.induct) auto

lemma expired_keys_distinct: "distinct (map fst es) \<Longrightarrow> distinct (expired_keys c i es)"
  by (induction c i es rule: expired_keys.induct) (auto dest!: expired_keys_in intro: rev_image_eqI)

text \<open>
  \<open>EvictExpired\<close> started at \<open>t\<close> and done at \<open>T\<close> removes every entry expired before
  \<open>t\<close>, keeps every entry not expired by \<open>T\<close>, changes no other, and returns the number
  of entries it removed.
\<close>

theorem evict_expired_exact:
  assumes "is_order order" and "mem_ok cfg m" and "\<forall>p. t \<le> c p \<and> c p \<le> T"
    and "mem_evict_expired order c m = (n, m')"
  shows "(\<forall>k e. held m k = Some e \<longrightarrow> expires_at e < t \<longrightarrow> held m' k = None) \<and>
    (\<forall>k e. held m k = Some e \<longrightarrow> T \<le> expires_at e \<longrightarrow> held m' k = Some e) \<and>
    (\<forall>k e. held m' k = Some e \<longrightarrow> held m k = Some e) \<and>
    n + mem_size m' = mem_size m"
proof -
  let ?es = "order (mc_data m)"
  let ?ks = "expired_keys c 0 ?es"
  have ok: "gm_ok (mc_data m)" using assms(2) by (rule mem_okD)
  have set: "set ?es = set (mc_data m)" using assms(1) by (rule is_orderD)
  have n: "n = int (length ?ks)" and m': "mc_data m' = fold gm_del ?ks (mc_data m)"
    using assms(4) by (auto simp: mem_evict_expired_def Let_def)
  have held: "held m' k = (if k \<in> set ?ks then None else held m k)" for k
    unfolding m' by (rule gm.lookup_del_all [OF ok])
  have times: "t \<le> now_at c i" "now_at c i \<le> T" for i using assms(3) by (simp_all add: now_at_def)
  have entry: "(k, e) \<in> set ?es \<longleftrightarrow> held m k = Some e" for k e using gm_get_in [OF ok] set by simp
  show ?thesis
  proof (intro conjI allI impI)
    fix k e
    assume e: "held m k = Some e"
    show "held m' k = None" if "expires_at e < t"
    proof -
      have "is_expired (now_at c j) e" for j using times(1) [of j] that by (simp add: is_expired_def)
      then have "k \<in> set ?ks" using e by (intro expired_keys_all) (auto simp: entry)
      then show ?thesis by (simp add: held)
    qed
    show "held m' k = Some e" if "T \<le> expires_at e"
    proof -
      have "\<not> is_expired (now_at c j) e" for j using times(2) [of j] that by (simp add: is_expired_def)
      then have "k \<notin> set ?ks" using e by (auto simp: entry dest!: expired_keys_in)
      then show ?thesis using e by (simp add: held)
    qed
  next
    fix k e
    assume "held m' k = Some e"
    then show "held m k = Some e" by (simp add: held split: if_splits)
  next
    have "mset (map fst ?es) = mset (map fst (mc_data m))"
      using is_orderD(1) [OF assms(1), of "mc_data m"] by simp
    then have "distinct (map fst ?es)" using ok mset_eq_imp_distinct_iff by (metis gm_ok_def)
    then have "distinct ?ks" by (rule expired_keys_distinct)
    moreover have "\<forall>k\<in>set ?ks. held m k \<noteq> None" by (auto simp: entry dest!: expired_keys_in)
    ultimately have "length (mc_data m') + length ?ks = length (mc_data m)"
      unfolding m' by (intro gm.len_del_all [OF ok])
    then show "n + mem_size m' = mem_size m" by (simp add: n mem_size_def)
  qed
qed

lemma sample_cache_ok: "mem_ok (default_cache_config\<lparr>max_size := 2\<rparr>) sample_cache"
  by (simp add: mem_ok_def sample_cache_def new_in_memory_cache_def gm_ok_def)

theorem evict_expired_exact_witness:
  "\<exists>n m'. mem_evict_expired rev (\<lambda>_. minute + 2) sample_cache = (n, m') \<and> held m' ''a'' = None \<and> n + mem_size m' = 2"
proof -
  obtain n m' where st: "mem_evict_expired rev (\<lambda>_. minute + 2) sample_cache = (n, m')" by fastforce
  have times: "\<forall>p. minute + 2 \<le> (\<lambda>_. minute + 2) p \<and> (\<lambda>_. minute + 2) p \<le> minute + 2" by simp
  have a: "held sample_cache ''a'' = Some (sample_entry 1)" by (simp add: sample_cache_def gm_get_def)
  have old: "expires_at (sample_entry 1) < minute + 2" by (simp add: sample_entry_def)
  have "mem_size sample_cache = 2" by (simp add: mem_size_def sample_cache_def)
  with evict_expired_exact [OF is_order_rev sample_cache_ok times st] a old st show ?thesis by metis
qed

subsection \<open>Two goroutines\<close>

text \<open>
  \<open>Get\<close> deletes an expired entry in a second critical section, by its key alone: when
  another goroutine stores a fresh entry in between, that one is deleted, and the key is
  missing although its entry has not expired.
\<close>

theorem get_race_loses_fresh_entry:
  assumes "mem_ok cfg m" and "held m k = Some e" and "is_expired (now_at c 0) e"
    and "now_at c' 0 \<le> now_at c2 0 + clamp_ttl cfg ttl"
  shows "fst (mem_get c' k (mem_set order c2 k v ttl m)) = Some v \<and>
    fst (mem_get c' k (snd (mem_get_finish c k (held m k) (mem_set order c2 k v ttl m)))) = None"
proof
  let ?m = "mem_set order c2 k v ttl m"
  have ok: "mem_ok cfg ?m" using assms(1) by (rule mem_set_ok)
  show "fst (mem_get c' k ?m) = Some v"
    using assms(1,4) by (simp add: mem_get_hit mem_set_self)
  have "held (snd (mem_get_finish c k (held m k) ?m)) k = None"
    using assms(2,3) mem_delete_held [OF ok, of k k] by (simp add: mem_get_finish_def)
  then show "fst (mem_get c' k (snd (mem_get_finish c k (held m k) ?m))) = None"
    by (simp add: mem_get_def mem_get_finish_def)
qed

theorem get_race_loses_fresh_entry_witness:
  "fst (mem_get (\<lambda>_. 3 * minute) ''a'' (snd (mem_get_finish (\<lambda>_. 2 * minute) ''a'' (held sample_cache ''a'')
     (mem_set rev (\<lambda>_. 2 * minute) ''a'' (AnyFloat (Fin 2)) minute sample_cache)))) = None"
proof -
  have a: "held sample_cache ''a'' = Some (sample_entry 1)" by (simp add: sample_cache_def gm_get_def)
  have old: "is_expired (now_at (\<lambda>_. 2 * minute) 0) (sample_entry 1)"
    by (simp add: is_expired_def sample_entry_def duration_defs)
  have "now_at (\<lambda>_. 3 * minute) 0 \<le> now_at (\<lambda>_. 2 * minute) 0
      + clamp_ttl (default_cache_config\<lparr>max_size := 2\<rparr>) minute"
    by (simp add: clamp_ttl_def default_cache_config_def duration_defs)
  from get_race_loses_fresh_entry [OF sample_cache_ok a old this] show ?thesis by blast
qed

subsection \<open>A cache that is not full\<close>

text \<open>
  An operation that stores finds room when it does not reach \<open>MaxSize\<close>, so that nothing is
  evicted.  \<open>never_full\<close>: every operation of a run does, in the state in which it comes.
\<close>

fun finds_room :: "mem_op \<Rightarrow> memory_cache \<Rightarrow> bool" where
  "finds_room (MSet c k v ttl) m \<longleftrightarrow> mem_size m < max_size (mc_config m)"
| "finds_room (MSetWithMetadata k e) m \<longleftrightarrow> mem_size m < max_size (mc_config m)"
| "finds_room (MSetMultiple c items ttl) m \<longleftrightarrow> items = [] \<or> mem_size m + int (length items) < max_size (mc_config m)"
| "finds_room _ m \<longleftrightarrow> True"

fun never_full :: "range_order \<Rightarrow> mem_op list \<Rightarrow> memory_cache \<Rightarrow> bool" where
  "never_full order [] m \<longleftrightarrow> True"
| "never_full order (x # xs) m \<longleftrightarrow> finds_room x m \<and> never_full order xs (mem_step order x m)"

text \<open>Operations whose clock has stopped by \<open>T\<close>.\<close>

fun done_by :: "instant \<Rightarrow> mem_op \<Rightarrow> bool" where
  "done_by T (MGet c k) \<longleftrightarrow> (\<forall>p. c p \<le> T)"
| "done_by T (MGetWithMetadata c k) \<longleftrightarrow> (\<forall>p. c p \<le> T)"
| "done_by T (MEvictExpired c) \<longleftrightarrow> (\<forall>p. c p \<le> T)"
| "done_by T _ \<longleftrightarrow> True"

fun expires_key :: "mem_op \<Rightarrow> bool" where
  "expires_key (MExpire c k ttl) = True"
| "expires_key _ = False"

definition keeps :: "instant \<Rightarrow> memory_cache \<Rightarrow> ideal \<Rightarrow> bool" where
  "keeps T m M \<longleftrightarrow> (\<forall>k e. M k = Some e \<longrightarrow> T \<le> expires_at e \<longrightarrow> held m k = Some e)"

lemma keepsD: "keeps T m M \<Longrightarrow> M k = Some e \<Longrightarrow> T \<le> expires_at e \<Longrightarrow> held m k = Some e"
  by (simp add: keeps_def)

lemma put_keeps: "keeps T m M \<Longrightarrow> keeps T (mem_put k e m) (M(k \<mapsto> e))"
  by (simp add: keeps_def mem_put_held)

lemma set_many_keeps:
  "keeps T m M \<Longrightarrow> keeps T (mem_set_multiple_loop c i items ttl m) (ideal_set_many c i items ttl M)"
proof (induction c i items ttl M arbitrary: m rule: ideal_set_many.induct)
  case (2 c i k v items ttl M)
  show ?case unfolding mem_set_multiple_loop.simps ideal_set_many.simps
    by (rule 2(1) [OF put_keeps [OF 2(2)]])
qed simp

lemma not_full: "mem_ok cfg m \<Longrightarrow> n < max_size cfg \<Longrightarrow> evict_if_full order n m = m"
  by (simp add: evict_if_full_def mem_ok_def)

lemma get_keeps_fresh:
  assumes "mem_ok cfg m" and "keeps T m M" and "\<forall>p. c p \<le> T"
  shows "keeps T (snd (mem_get c k m)) M"
proof -
  have "now_at c 0 \<le> T" using assms(3) by (simp add: now_at_def)
  then show ?thesis
    using assms(1,2)
    by (auto simp: keeps_def mem_get_data is_expired_def mem_ok_def gomap_simps split: option.split)
qed

lemma mem_step_keeps:
  assumes "is_order order" and "mem_ok cfg m" and "keeps T m M" and "finds_room x m"
    and "done_by T x" and "\<not> expires_key x"
  shows "keeps T (mem_step order x m) (ideal_step cfg x M)"
proof -
  have ok: "gm_ok (mc_data m)" using assms(2) by (rule mem_okD)
  have room: "mem_size m < max_size (mc_config m) \<Longrightarrow> evict_if_full order (int (length (mc_data m))) m = m"
    using not_full [OF assms(2)] mem_okD(2) [OF assms(2)] by (simp add: mem_size_def)
  show "keeps T (mem_step order x m) (ideal_step cfg x M)"
  proof (cases x)
    case (MSet c k v ttl)
    then show ?thesis
      using put_keeps [OF assms(3)] room assms(4) mem_okD(2) [OF assms(2)] by (simp add: mem_set_def Let_def)
  next
    case (MSetWithMetadata k e)
    then show ?thesis using put_keeps [OF assms(3)] room assms(4) by (simp add: mem_set_with_metadata_def)
  next
    case (MSetMultiple c items ttl)
    then show ?thesis
      using set_many_keeps [OF assms(3)] not_full [OF assms(2), of "int (length (mc_data m) + length items)"]
        assms(3,4) mem_okD(2) [OF assms(2)]
      by (cases "items = []") (simp_all add: mem_set_multiple_def mem_size_def)
  next
    case (MEvictExpired c)
    then have fresh: "\<not> is_expired (now_at c j) e" if "T \<le> expires_at e" for j e
      using assms(5) that by (simp add: is_expired_def now_at_def) (meson leD le_less_trans)
    have "k \<notin> set (expired_keys c 0 (order (mc_data m)))" if "held m k = Some e" "T \<le> expires_at e" for k e
    proof
      assume "k \<in> set (expired_keys c 0 (order (mc_data m)))"
      then obtain e' j where e': "(k, e') \<in> set (mc_data m)" "is_expired (now_at c j) e'"
        using expired_keys_in is_orderD(3) [OF assms(1), of "mc_data m"] by metis
      then have "e' = e" using that(1) gm_get_in [OF ok, of k e'] by simp
      then show False using e'(2) that(2) fresh by blast
    qed
    then show ?thesis
      using assms(3) ok unfolding keeps_def MEvictExpired
      by (auto simp: mem_evict_expired_def Let_def gomap_simps)
  qed (use assms get_keeps_fresh [OF assms(2,3)] in
    \<open>auto simp: keeps_def mem_get_with_metadata_snd mem_delete_held\<close>)
qed

lemma mem_run_keeps:
  assumes "is_order order" and "mem_ok cfg m" and "keeps T m M"
    and "never_full order xs m"
    and "\<forall>x\<in>set xs. done_by T x \<and> \<not> expires_key x"
  shows "keeps T (mem_run order xs m) (ideal_run cfg xs M)"
  using assms(2-)
proof (induction xs arbitrary: m M)
  case (Cons x xs)
  note step = mem_step_keeps [OF assms(1) Cons.prems(1,2), of x]
  have "keeps T (mem_step order x m) (ideal_step cfg x M)"
    using Cons.prems(3,4) by (auto intro: step)
  then have "keeps T (mem_run order xs (mem_step order x m)) (ideal_run cfg xs (ideal_step cfg x M))"
    using Cons.prems mem_step_ok [OF Cons.prems(1)] by (intro Cons.IH) auto
  then show ?case by simp
qed simp

lemma option_eqI: "(\<And>v. a = Some v \<longleftrightarrow> b = Some v) \<Longrightarrow> a = b"
  by (cases a; cases b) auto

text \<open>
  C38: As long as no operation that stores finds the cache full, and \<open>Expire\<close> is not used, the
  cache is exactly a map with expiry, however often keys are written again: \<open>Get\<close> finds the
  value written last when it has not expired, and nothing otherwise.
\<close>

theorem get_exact_when_not_full:
  assumes "is_order order" and "never_full order xs (new_in_memory_cache cfg)"
    and "\<forall>x\<in>set xs. done_by T x \<and> \<not> expires_key x" and "T \<le> now_at c 0"
  shows "fst (mem_get c k (mem_run order xs (new_in_memory_cache cfg))) =
    (case ideal_run cfg xs Map.empty k of
       Some e \<Rightarrow> if now_at c 0 \<le> expires_at e then Some (entry_value e) else None
     | None \<Rightarrow> None)"
proof -
  let ?m = "mem_run order xs (new_in_memory_cache cfg)" and ?M = "ideal_run cfg xs Map.empty"
  have "keeps T (new_in_memory_cache cfg) Map.empty" by (simp add: keeps_def)
  then have "keeps T ?m ?M"
    using assms(2,3) by (rule mem_run_keeps [OF assms(1) new_cache_ok])
  moreover have "implements ?m ?M" using run_implements by blast
  ultimately have held: "now_at c 0 \<le> expires_at e \<Longrightarrow> held ?m k = Some e \<longleftrightarrow> ?M k = Some e" for e
    using assms(4) unfolding keeps_def implements_def by (meson order_trans)
  have "fst (mem_get c k ?m) = Some v \<longleftrightarrow>
      (\<exists>e. ?M k = Some e \<and> entry_value e = v \<and> now_at c 0 \<le> expires_at e)" for v
    unfolding mem_get_hit using held by blast
  then show ?thesis by (intro option_eqI) (auto split: option.splits)
qed

text \<open>A cache of two entries, of which the one key is written three times.\<close>

theorem get_exact_when_not_full_witness:
  "fst (mem_get (\<lambda>_. 10) ''a'' (mem_run rev [MSet (\<lambda>_. 0) ''a'' (AnyFloat (Fin 1)) minute, MSet (\<lambda>_. 1) ''a'' (AnyFloat (Fin 1)) minute,
     MSet (\<lambda>_. 2) ''a'' AnyNil minute, MGet (\<lambda>_. 5) ''b'']
     (new_in_memory_cache (default_cache_config\<lparr>max_size := 2\<rparr>)))) = Some AnyNil"
proof -
  let ?cfg = "default_cache_config\<lparr>max_size := 2\<rparr>"
  let ?xs = "[MSet (\<lambda>_. 0) ''a'' (AnyFloat (Fin 1)) minute, MSet (\<lambda>_. 1) ''a'' (AnyFloat (Fin 1)) minute,
     MSet (\<lambda>_. 2) ''a'' AnyNil minute, MGet (\<lambda>_. 5) ''b'']"
  have room: "never_full rev ?xs (new_in_memory_cache ?cfg)" by code_simp
  have ops: "\<forall>x\<in>set ?xs. done_by 5 x \<and> \<not> expires_key x" by simp
  have late: "5 \<le> now_at (\<lambda>_. 10) 0" by simp
  have "ideal_run ?cfg ?xs Map.empty ''a'' =
      Some \<lparr>entry_value = AnyNil, expires_at = 2 + minute, created_at = 2\<rparr>"
    by (simp add: clamp_ttl_def default_cache_config_def duration_defs)
  then show ?thesis
    by (simp only: get_exact_when_not_full [OF is_order_rev room ops late]) (simp add: duration_defs)
qed

end
