(* ===== verification/Fallback_Cache.thy ===== *)
theory Fallback_Cache
  imports Memory_Cache
begin

text \<open>
  \<open>internal/cache/fallback.go\<close>: a cache of any kind in front of an in-memory cache that
  stands in when the first one fails or misses.  The primary is given by its operations
  (the \<open>Cache\<close> interface) and its state; the fallback is always the in-memory cache,
  whose methods return no error (\<open>TTL\<close> aside, for a key it does not have), so the branches of the
  code for its errors cannot be taken.
\<close>

declare One_nat_def [simp del]

subsection \<open>State\<close>

record 'p fallback_cache =
  primary :: 'p
  fallback :: memory_cache
  fc_config :: cache_config
  refresh_ch :: "string list"
  stop_ch_closed :: bool
  workers :: nat

definition fallback_config :: "cache_config \<Rightarrow> cache_config" where
  "fallback_config cfg = cfg\<lparr>default_ttl := fallback_ttl cfg\<rparr>"

definition new_fallback_cache :: "'p \<Rightarrow> cache_config \<Rightarrow> 'p fallback_cache" where
  "new_fallback_cache p cfg =
     \<lparr>primary = p, fallback = new_in_memory_cache (fallback_config cfg), fc_config = cfg,
      refresh_ch = [], stop_ch_closed = False, workers = 0\<rparr>"

definition set_fallback ::
  "range_order \<Rightarrow> clock \<Rightarrow> string \<Rightarrow> go_any \<Rightarrow> 'p fallback_cache \<Rightarrow> 'p fallback_cache" where
  "set_fallback order c key v f =
     f\<lparr>fallback := mem_set order c key v (fallback_ttl (fc_config f)) (fallback f)\<rparr>"

subsection \<open>Single keys\<close>

definition fb_get ::
  "'p cache_ops \<Rightarrow> range_order \<Rightarrow> clock \<Rightarrow> string \<Rightarrow> 'p fallback_cache \<Rightarrow>
   (go_error + go_any option) \<times> 'p fallback_cache" where
  "fb_get ops order c key f =
     (let (r, p) = op_get ops (in_call c 0) key (primary f);
          f = f\<lparr>primary := p\<rparr>
      in case r of
           Inr (Some v) \<Rightarrow> (Inr (Some v), set_fallback order (in_call c 1) key v f)
         | _ \<Rightarrow>
             (let (v, m) = mem_get (in_call c 2) key (fallback f)
              in (Inr v, f\<lparr>fallback := m\<rparr>)))"

definition fb_set ::
  "'p cache_ops \<Rightarrow> range_order \<Rightarrow> clock \<Rightarrow> string \<Rightarrow> go_any \<Rightarrow> duration \<Rightarrow> 'p fallback_cache \<Rightarrow>
   go_error option \<times> 'p fallback_cache" where
  "fb_set ops order c key v ttl f =
     (let (err, p) = op_set ops (in_call c 0) key v ttl (primary f);
          f = f\<lparr>primary := p\<rparr>
      in case err of
           Some e \<Rightarrow> (None, set_fallback order (in_call c 1) key v f)
         | None \<Rightarrow> (None, set_fallback order (in_call c 1) key v f))"

definition fb_delete ::
  "'p cache_ops \<Rightarrow> clock \<Rightarrow> string \<Rightarrow> 'p fallback_cache \<Rightarrow> go_error option \<times> 'p fallback_cache" where
  "fb_delete ops c key f =
     (let (err, p) = op_delete ops (in_call c 0) key (primary f)
      in (None, f\<lparr>primary := p, fallback := mem_delete key (fallback f)\<rparr>))"

definition fb_clear ::
  "'p cache_ops \<Rightarrow> clock \<Rightarrow> 'p fallback_cache \<Rightarrow> go_error option \<times> 'p fallback_cache" where
  "fb_clear ops c f =
     (let (err, p) = op_clear ops (in_call c 0) (primary f)
      in (None, f\<lparr>primary := p, fallback := mem_clear (fallback f)\<rparr>))"

subsection \<open>Several keys\<close>

definition fb_get_multiple ::
  "'p cache_ops \<Rightarrow> clock \<Rightarrow> string list \<Rightarrow> 'p fallback_cache \<Rightarrow>
   (go_error + (string, go_any) gomap) \<times> 'p fallback_cache" where
  "fb_get_multiple ops c keys f =
     (let (r, p) = op_get_multiple ops (in_call c 0) keys (primary f);
          f = f\<lparr>primary := p\<rparr>
      in case r of
           Inl e \<Rightarrow> (Inr (mem_get_multiple (in_call c 1) keys (fallback f)), f)
         | Inr result \<Rightarrow>
             (let missing = [key \<leftarrow> keys. gm_get result key = None] in
              if missing = [] then (Inr result, f)
              else (Inr (fold (\<lambda>(key, v). gm_put key v)
                              (mem_get_multiple (in_call c 1) missing (fallback f)) result), f)))"

definition fb_set_multiple ::
  "'p cache_ops \<Rightarrow> range_order \<Rightarrow> clock \<Rightarrow> (string, go_any) gomap \<Rightarrow> duration \<Rightarrow> 'p fallback_cache \<Rightarrow>
   go_error option \<times> 'p fallback_cache" where
  "fb_set_multiple ops order c items ttl f =
     (let (err, p) = op_set_multiple ops (in_call c 0) items ttl (primary f)
      in (None, f\<lparr>primary := p,
           fallback := mem_set_multiple order (in_call c 1) items (fallback_ttl (fc_config f)) (fallback f)\<rparr>))"

subsection \<open>Metadata, expiry, size\<close>

definition fb_get_with_metadata ::
  "'p cache_ops \<Rightarrow> range_order \<Rightarrow> clock \<Rightarrow> string \<Rightarrow> 'p fallback_cache \<Rightarrow>
   (go_error + cache_entry option) \<times> 'p fallback_cache" where
  "fb_get_with_metadata ops order c key f =
     (let (r, p) = op_get_with_metadata ops (in_call c 0) key (primary f);
          f = f\<lparr>primary := p\<rparr>
      in case r of
           Inr (Some e) \<Rightarrow> (Inr (Some e), f\<lparr>fallback := mem_set_with_metadata order key e (fallback f)\<rparr>)
         | _ \<Rightarrow>
             (let (e, m) = mem_get_with_metadata (in_call c 1) key (fallback f)
              in (Inr e, f\<lparr>fallback := m\<rparr>)))"

definition fb_set_with_metadata ::
  "'p cache_ops \<Rightarrow> range_order \<Rightarrow> clock \<Rightarrow> string \<Rightarrow> cache_entry \<Rightarrow> 'p fallback_cache \<Rightarrow>
   go_error option \<times> 'p fallback_cache" where
  "fb_set_with_metadata ops order c key e f =
     (let (err, p) = op_set_with_metadata ops (in_call c 0) key e (primary f)
      in (None, f\<lparr>primary := p, fallback := mem_set_with_metadata order key e (fallback f)\<rparr>))"

definition fb_expire ::
  "'p cache_ops \<Rightarrow> clock \<Rightarrow> string \<Rightarrow> duration \<Rightarrow> 'p fallback_cache \<Rightarrow> go_error option \<times> 'p fallback_cache" where
  "fb_expire ops c key ttl f =
     (let (err, p) = op_expire ops (in_call c 0) key ttl (primary f)
      in (None, f\<lparr>primary := p,
           fallback := mem_expire (in_call c 1) key (fallback_ttl (fc_config f)) (fallback f)\<rparr>))"

definition fb_ttl ::
  "'p cache_ops \<Rightarrow> clock \<Rightarrow> string \<Rightarrow> 'p fallback_cache \<Rightarrow> (go_error + duration) \<times> 'p fallback_cache" where
  "fb_ttl ops c key f =
     (let (r, p) = op_ttl ops (in_call c 0) key (primary f);
          f = f\<lparr>primary := p\<rparr>
      in case r of
           Inl e \<Rightarrow> (mem_ttl (in_call c 1) key (fallback f), f)
         | Inr ttl \<Rightarrow> (Inr ttl, f))"

definition fb_evict_expired ::
  "'p cache_ops \<Rightarrow> range_order \<Rightarrow> clock \<Rightarrow> 'p fallback_cache \<Rightarrow> (int \<times> go_error option) \<times> 'p fallback_cache" where
  "fb_evict_expired ops order c f =
     (let ((primary_count, err), p) = op_evict_expired ops (in_call c 0) (primary f);
          (fallback_count, m) = mem_evict_expired order (in_call c 1) (fallback f);
          f = f\<lparr>primary := p, fallback := m\<rparr>
      in case err of
           Some e \<Rightarrow> ((fallback_count, None), f)
         | None \<Rightarrow> ((wrap64 (primary_count + fallback_count), None), f))"

definition fb_size ::
  "'p cache_ops \<Rightarrow> clock \<Rightarrow> 'p fallback_cache \<Rightarrow> (go_error + int) \<times> 'p fallback_cache" where
  "fb_size ops c f =
     (let (r, p) = op_size ops (in_call c 0) (primary f);
          f = f\<lparr>primary := p\<rparr>
      in case r of
           Inl e \<Rightarrow> (Inr (mem_size (fallback f)), f)
         | Inr n \<Rightarrow> (Inr (wrap64 (n + mem_size (fallback f))), f))"

definition fb_ping ::
  "'p cache_ops \<Rightarrow> clock \<Rightarrow> 'p fallback_cache \<Rightarrow> go_error option \<times> 'p fallback_cache" where
  "fb_ping ops c f =
     (let (err, p) = op_ping ops (in_call c 0) (primary f) in (None, f\<lparr>primary := p\<rparr>))"

subsection \<open>Background refresh\<close>

text \<open>
  \<open>StartBackgroundRefresh\<close> starts the refresh workers and one cleanup worker;
  \<open>StopBackgroundRefresh\<close> closes \<open>stopCh\<close> the first time it is called and then waits
  for the workers, each of which returns when its \<open>select\<close> receives from \<open>stopCh\<close> or
  the context is done.
\<close>

definition start_background_refresh :: "'p fallback_cache \<Rightarrow> 'p fallback_cache" where
  "start_background_refresh f =
     (if \<not> enable_fallback (fc_config f) then f
      else f\<lparr>workers := workers f + nat (refresh_workers (fc_config f)) + 1\<rparr>)"

definition stop_background_refresh :: "'p fallback_cache \<Rightarrow> 'p fallback_cache" where
  "stop_background_refresh f = (if stop_ch_closed f then f else f\<lparr>stop_ch_closed := True\<rparr>)"

definition fb_close ::
  "'p cache_ops \<Rightarrow> clock \<Rightarrow> 'p fallback_cache \<Rightarrow> go_error option \<times> 'p fallback_cache" where
  "fb_close ops c f =
     (let f = stop_background_refresh f;
          (err, p) = op_close ops (in_call c 0) (primary f)
      in (None, f\<lparr>primary := p\<rparr>))"

text \<open>
  The refresh function is a parameter of the cache: a closure that may itself use the
  cache and other state \<open>'w\<close>.
\<close>

type_synonym ('p, 'w) refresh_func =
  "clock \<Rightarrow> string \<Rightarrow> 'p fallback_cache \<times> 'w \<Rightarrow> (go_error + go_any \<times> duration) \<times> 'p fallback_cache \<times> 'w"

definition refresh_key ::
  "'p cache_ops \<Rightarrow> range_order \<Rightarrow> ('p, 'w) refresh_func \<Rightarrow> clock \<Rightarrow> string \<Rightarrow>
   'p fallback_cache \<times> 'w \<Rightarrow> 'p fallback_cache \<times> 'w" where
  "refresh_key ops order refresh c key s =
     (case refresh (in_call c 0) key s of
        (Inl e, s) \<Rightarrow> s
      | (Inr (v, ttl), (f, w)) \<Rightarrow> (snd (fb_set ops order (in_call c 1) key v ttl f), w))"

text \<open>The channel holds 1000 keys; a send to a full one takes the \<open>default\<close> branch.\<close>

definition try_send :: "string \<Rightarrow> 'p fallback_cache \<Rightarrow> 'p fallback_cache" where
  "try_send key f = (if length (refresh_ch f) < 1000 then f\<lparr>refresh_ch := refresh_ch f @ [key]\<rparr> else f)"

definition refresh_expiring_keys :: "range_order \<Rightarrow> clock \<Rightarrow> 'p fallback_cache \<Rightarrow> 'p fallback_cache" where
  "refresh_expiring_keys order c f =
     fold try_send (get_expiring_keys order (in_call c 0) (to_f64 (1 / 10)) (fallback f)) f"

text \<open>What the \<open>select\<close> of a worker receives; the workers share one channel.\<close>

datatype worker_event = RefreshCh clock | RefreshTick clock | StopCh | CtxDone

fun refresh_worker_loop ::
  "'p cache_ops \<Rightarrow> range_order \<Rightarrow> ('p, 'w) refresh_func \<Rightarrow> worker_event list \<Rightarrow>
   'p fallback_cache \<times> 'w \<Rightarrow> 'p fallback_cache \<times> 'w" where
  "refresh_worker_loop ops order refresh [] s = s"
| "refresh_worker_loop ops order refresh (RefreshCh c # es) (f, w) =
     refresh_worker_loop ops order refresh es
       (case refresh_ch f of
          [] \<Rightarrow> (f, w)
        | key # keys \<Rightarrow> refresh_key ops order refresh c key (f\<lparr>refresh_ch := keys\<rparr>, w))"
| "refresh_worker_loop ops order refresh (RefreshTick c # es) (f, w) =
     refresh_worker_loop ops order refresh es (refresh_expiring_keys order c f, w)"
| "refresh_worker_loop ops order refresh (StopCh # es) s = s"
| "refresh_worker_loop ops order refresh (CtxDone # es) s = s"

text \<open>The goroutine: \<open>time.NewTicker\<close> panics on an interval that is not positive.\<close>

definition refresh_worker ::
  "'p cache_ops \<Rightarrow> range_order \<Rightarrow> ('p, 'w) refresh_func \<Rightarrow> worker_event list \<Rightarrow>
   'p fallback_cache \<times> 'w \<Rightarrow> string + 'p fallback_cache \<times> 'w" where
  "refresh_worker ops order refresh es s =
     (if refresh_interval (fc_config (fst s)) \<le> 0 then Inl ''non-positive interval for NewTicker''
      else Inr (refresh_worker_loop ops order refresh es s))"

datatype cleanup_worker_event = CleanupTick clock | CleanupStop | CleanupCtxDone

fun cleanup_worker ::
  "'p cache_ops \<Rightarrow> range_order \<Rightarrow> cleanup_worker_event list \<Rightarrow> 'p fallback_cache \<Rightarrow> 'p fallback_cache" where
  "cleanup_worker ops order [] f = f"
| "cleanup_worker ops order (CleanupTick c # es) f =
     cleanup_worker ops order es (snd (fb_evict_expired ops order c f))"
| "cleanup_worker ops order (CleanupStop # es) f = f"
| "cleanup_worker ops order (CleanupCtxDone # es) f = f"

definition fallback_ops :: "'p cache_ops \<Rightarrow> range_order \<Rightarrow> 'p fallback_cache cache_ops" where
  "fallback_ops ops order =
     \<lparr>op_get = fb_get ops order, op_set = fb_set ops order, op_delete = fb_delete ops,
      op_clear = fb_clear ops, op_get_multiple = fb_get_multiple ops,
      op_set_multiple = fb_set_multiple ops order,
      op_get_with_metadata = fb_get_with_metadata ops order,
      op_set_with_metadata = fb_set_with_metadata ops order,
      op_expire = fb_expire ops, op_ttl = fb_ttl ops,
      op_evict_expired = fb_evict_expired ops order, op_size = fb_size ops,
      op_ping = fb_ping ops, op_close = fb_close ops\<rparr>"

subsection \<open>The contract over a primary that keeps it\<close>

text \<open>
  A value of the primary can be served until its own deadline by the primary, and, since
  each hit stores it in the fallback again, for a fallback lifetime after that.
\<close>

definition fb_extra :: "duration \<Rightarrow> cache_config \<Rightarrow> duration" where
  "fb_extra slack cfg = slack + max 0 (mem_life slack (fallback_config cfg) (fallback_ttl cfg))"

definition fb_serves :: "duration \<Rightarrow> cache_config \<Rightarrow> ('p \<Rightarrow> served) \<Rightarrow> 'p fallback_cache \<Rightarrow> served" where
  "fb_serves slack cfg serves f k =
     (\<lambda>(v, d). (v, d + fb_extra slack cfg)) ` serves (primary f) k \<union> mem_serves (fallback f) k"

definition fb_ok :: "cache_config \<Rightarrow> ('p \<Rightarrow> bool) \<Rightarrow> 'p fallback_cache \<Rightarrow> bool" where
  "fb_ok cfg ok f \<longleftrightarrow> ok (primary f) \<and> mem_ok (fallback_config cfg) (fallback f) \<and> fc_config f = cfg"

definition fb_life :: "duration \<Rightarrow> cache_config \<Rightarrow> (duration \<Rightarrow> duration) \<Rightarrow> duration \<Rightarrow> duration" where
  "fb_life slack cfg life ttl = max 0 (life ttl) + slack + fb_extra slack cfg"

lemma set_fallback_fields [simp]:
  "primary (set_fallback order c k v f) = primary f" "fc_config (set_fallback order c k v f) = fc_config f"
  "fallback (set_fallback order c k v f) = mem_set order c k v (fallback_ttl (fc_config f)) (fallback f)"
  by (simp_all add: set_fallback_def)

lemma fb_set_eq: "fb_set ops order c k v ttl f =
    (None, set_fallback order (in_call c 1) k v (f\<lparr>primary := snd (op_set ops (in_call c 0) k v ttl (primary f))\<rparr>))"
  by (auto simp: fb_set_def split_beta Let_def split: option.split)

lemma fb_evict_expired_snd: "snd (fb_evict_expired ops order c f) =
    f\<lparr>primary := snd (op_evict_expired ops (in_call c 0) (primary f)),
      fallback := snd (mem_evict_expired order (in_call c 1) (fallback f))\<rparr>"
  by (simp add: fb_evict_expired_def split_beta Let_def split: option.split)

lemma fb_get_hit:
  "fst (op_get ops (in_call c 0) k (primary f)) = Inr (Some v) \<Longrightarrow> fb_get ops order c k f =
    (Inr (Some v), set_fallback order (in_call c 1) k v (f\<lparr>primary := snd (op_get ops (in_call c 0) k (primary f))\<rparr>))"
  by (auto simp: fb_get_def split_beta Let_def)

lemma fb_get_miss:
  "(\<And>v. fst (op_get ops (in_call c 0) k (primary f)) \<noteq> Inr (Some v)) \<Longrightarrow> fb_get ops order c k f =
    (Inr (fst (mem_get (in_call c 2) k (fallback f))),
     f\<lparr>primary := snd (op_get ops (in_call c 0) k (primary f)), fallback := snd (mem_get (in_call c 2) k (fallback f))\<rparr>)"
  by (auto simp: fb_get_def split_beta Let_def split: sum.split option.split)

lemma primary_served: "(v, d) \<in> serves (primary f) k \<Longrightarrow> (v, d + fb_extra slack cfg) \<in> fb_serves slack cfg serves f k"
  by (force simp: fb_serves_def)

lemma fallback_served: "(v, d) \<in> mem_serves (fallback f) k \<Longrightarrow> (v, d) \<in> fb_serves slack cfg serves f k"
  by (simp add: fb_serves_def)

lemma fb_serves_less:
  assumes "\<And>k v d. (v, d) \<in> serves (primary f') k \<Longrightarrow> \<exists>d'. (v, d') \<in> b k \<and> d + fb_extra slack cfg \<le> d'"
    and "\<And>k v d. (v, d) \<in> mem_serves (fallback f') k \<Longrightarrow> \<exists>d'. (v, d') \<in> b k \<and> d \<le> d'"
  shows "serves_less (fb_serves slack cfg serves f') b"
  using assms by (auto simp: serves_less_def fb_serves_def)

lemma fb_serves_parts:
  assumes "serves_less (serves (primary f')) (serves (primary f))"
    and "serves_less (mem_serves (fallback f')) (mem_serves (fallback f))"
  shows "serves_less (fb_serves slack cfg serves f') (fb_serves slack cfg serves f)"
proof (rule fb_serves_less)
  fix k v d
  assume "(v, d) \<in> serves (primary f') k"
  then obtain d' where "(v, d') \<in> serves (primary f) k" "d \<le> d'" using serves_lessD [OF assms(1)] by blast
  then show "\<exists>d'. (v, d') \<in> fb_serves slack cfg serves f k \<and> d + fb_extra slack cfg \<le> d'"
    using primary_served by (metis add_right_mono)
next
  fix k v d
  assume "(v, d) \<in> mem_serves (fallback f') k"
  then show "\<exists>d'. (v, d') \<in> fb_serves slack cfg serves f k \<and> d \<le> d'"
    using serves_lessD [OF assms(2)] fallback_served by metis
qed

lemma mem_clear_held: "held (mem_clear m) k = None"
  by (simp add: mem_clear_def gomap_simps)

locale fallback_store = value_store ops ok serves life slack
  for ops :: "'p cache_ops" and ok and serves and life and slack +
  fixes order :: range_order and cfg :: cache_config
begin

lemma call: "clock_within slack c \<Longrightarrow> clock_within slack (in_call c i) \<and> c [] \<le> in_call c i [] \<and> in_call c i [] \<le> c [] + slack"
  using clock_within_call [of slack c i] clock_within_mono [of slack c "[i]"] clock_within_le [of slack c "[i]"]
  by (simp add: in_call_def)

lemma extra_nonneg: "clock_within slack c \<Longrightarrow> 0 \<le> fb_extra slack cfg"
  using clock_within_nonneg [of slack c] by (simp add: fb_extra_def)

text \<open>Storing \<open>v\<close> in the fallback.\<close>

lemma stored_in_fallback:
  assumes "fb_ok cfg ok f" and "clock_within slack c"
    and "(v', d) \<in> mem_serves (mem_set order (in_call c 1) k v (fallback_ttl cfg) (fallback f)) k'"
  shows "k' = k \<and> v' = v \<and> d \<le> c [] + fb_extra slack cfg \<or> (v', d) \<in> mem_serves (fallback f) k'"
proof -
  have m: "mem_ok (fallback_config cfg) (fallback f)" using assms(1) by (simp add: fb_ok_def)
  have t: "now_at (in_call c 1) 0 \<le> c [] + slack"
    using clock_within_le [OF assms(2)] by (simp add: now_at_def in_call_def)
  have "slack + clamp_ttl (fallback_config cfg) (fallback_ttl cfg) \<le> fb_extra slack cfg - slack"
    by (simp add: fb_extra_def mem_life_def)
  moreover have "0 \<le> slack" using assms(2) by (rule clock_within_nonneg)
  ultimately show ?thesis
    using assms(3) mem_set_held [OF m, of order "in_call c 1" k v "fallback_ttl cfg" k'] t
    by (auto simp: mem_serves_def split: if_splits)
qed

lemma fb_get_step:
  assumes f: "fb_ok cfg ok f" and c: "clock_within slack c"
  shows "fb_ok cfg ok (snd (fb_get ops order c k f))"
    and "fst (fb_get ops order c k f) = Inr (Some v) \<Longrightarrow> \<exists>d. (v, d) \<in> fb_serves slack cfg serves f k \<and> c [] \<le> d"
    and "serves_less (fb_serves slack cfg serves (snd (fb_get ops order c k f))) (fb_serves slack cfg serves f)"
proof -
  let ?c0 = "in_call c 0" and ?p = "primary f" and ?g = "fb_get ops order c k f"
  let ?p' = "snd (op_get ops ?c0 k ?p)"
  have p: "ok ?p" and m: "mem_ok (fallback_config cfg) (fallback f)" and fc: "fc_config f = cfg"
    using f by (auto simp: fb_ok_def)
  have c0: "clock_within slack ?c0" "c [] \<le> ?c0 []" using call [OF c, of 0] by auto
  have p': "ok ?p'" "serves_less (serves ?p') (serves ?p)"
    using get_ok [OF p c0(1)] get_keeps [OF p c0(1)] by auto
  have extra: "0 \<le> fb_extra slack cfg" using c by (rule extra_nonneg)
  have "fb_ok cfg ok (snd ?g) \<and>
    (fst ?g = Inr (Some v) \<longrightarrow> (\<exists>d. (v, d) \<in> fb_serves slack cfg serves f k \<and> c [] \<le> d)) \<and>
    serves_less (fb_serves slack cfg serves (snd ?g)) (fb_serves slack cfg serves f)"
  proof (cases "\<exists>w. fst (op_get ops ?c0 k ?p) = Inr (Some w)")
    case True
    then obtain w where hit: "fst (op_get ops ?c0 k ?p) = Inr (Some w)" by blast
    note g = fb_get_hit [where order = order, OF hit]
    obtain d where d: "(w, d) \<in> serves ?p k" "?c0 [] \<le> d" using get_serves [OF p c0(1) hit] by blast
    have served: "(w, d + fb_extra slack cfg) \<in> fb_serves slack cfg serves f k" using d(1) by (rule primary_served)
    have "serves_less (fb_serves slack cfg serves (snd ?g)) (fb_serves slack cfg serves f)"
    proof (rule fb_serves_less)
      fix k' v' d'
      assume "(v', d') \<in> serves (primary (snd ?g)) k'"
      then have "(v', d') \<in> serves ?p' k'" by (simp add: g)
      then obtain e where "(v', e) \<in> serves ?p k'" "d' \<le> e" using serves_lessD [OF p'(2)] by blast
      then show "\<exists>e. (v', e) \<in> fb_serves slack cfg serves f k' \<and> d' + fb_extra slack cfg \<le> e"
        using primary_served by (metis add_right_mono)
    next
      fix k' v' d'
      assume "(v', d') \<in> mem_serves (fallback (snd ?g)) k'"
      then have "(v', d') \<in> mem_serves (mem_set order (in_call c 1) k w (fallback_ttl cfg) (fallback f)) k'"
        by (simp add: g fc)
      from stored_in_fallback [OF f c this]
      show "\<exists>e. (v', e) \<in> fb_serves slack cfg serves f k' \<and> d' \<le> e"
      proof
        assume "k' = k \<and> v' = w \<and> d' \<le> c [] + fb_extra slack cfg"
        then show ?thesis using served c0(2) d(2) by (intro exI [of _ "d + fb_extra slack cfg"]) auto
      next
        assume "(v', d') \<in> mem_serves (fallback f) k'"
        then show ?thesis using fallback_served by blast
      qed
    qed
    moreover have "fb_ok cfg ok (snd ?g)" using p'(1) m fc by (simp add: g fb_ok_def mem_set_ok)
    moreover have "fst ?g = Inr (Some v) \<Longrightarrow> \<exists>d. (v, d) \<in> fb_serves slack cfg serves f k \<and> c [] \<le> d"
      using served c0(2) d(2) extra by (auto simp: g intro!: exI [of _ "d + fb_extra slack cfg"])
    ultimately show ?thesis by blast
  next
    case False
    then have "\<And>v. fst (op_get ops ?c0 k ?p) \<noteq> Inr (Some v)" by blast
    note g = fb_get_miss [where order = order, OF this]
    have "fb_ok cfg ok (snd ?g)" using p'(1) m fc by (simp add: g fb_ok_def mem_get_ok)
    moreover have "\<exists>d. (v, d) \<in> fb_serves slack cfg serves f k \<and> c [] \<le> d" if "fst ?g = Inr (Some v)"
    proof -
      have "fst (mem_get (in_call c 2) k (fallback f)) = Some v" using that by (simp add: g)
      then obtain e where "held (fallback f) k = Some e" "entry_value e = v" "now_at (in_call c 2) 0 \<le> expires_at e"
        unfolding mem_get_hit by blast
      moreover have "c [] \<le> now_at (in_call c 2) 0"
        using clock_within_mono [OF c] by (simp add: now_at_def in_call_def)
      ultimately show ?thesis
        by (intro exI [of _ "expires_at e"] conjI fallback_served) (auto simp: mem_serves_def)
    qed
    moreover have "serves_less (fb_serves slack cfg serves (snd ?g)) (fb_serves slack cfg serves f)"
      using p'(2) mem_get_held [OF m] by (intro fb_serves_parts mem_serves_less) (auto simp: g)
    ultimately show ?thesis by blast
  qed
  then show "fb_ok cfg ok (snd ?g)"
    and "fst ?g = Inr (Some v) \<Longrightarrow> \<exists>d. (v, d) \<in> fb_serves slack cfg serves f k \<and> c [] \<le> d"
    and "serves_less (fb_serves slack cfg serves (snd ?g)) (fb_serves slack cfg serves f)"
    by blast+
qed

lemma fb_set_step:
  assumes f: "fb_ok cfg ok f" and c: "clock_within slack c"
  shows "fb_ok cfg ok (snd (fb_set ops order c k v ttl f))"
    and "serves_less (fb_serves slack cfg serves (snd (fb_set ops order c k v ttl f)))
      (serve_also k v (c [] + fb_life slack cfg life ttl) (fb_serves slack cfg serves f))"
proof -
  let ?c0 = "in_call c 0" and ?p = "primary f" and ?g = "snd (fb_set ops order c k v ttl f)"
  have p: "ok ?p" and m: "mem_ok (fallback_config cfg) (fallback f)" and fc: "fc_config f = cfg"
    using f by (auto simp: fb_ok_def)
  have c0: "clock_within slack ?c0" "?c0 [] \<le> c [] + slack" using call [OF c, of 0] by auto
  have slack: "0 \<le> slack" using c by (rule clock_within_nonneg)
  show "fb_ok cfg ok ?g"
    using set_ok [OF p c0(1)] m fc by (simp add: fb_set_eq fb_ok_def mem_set_ok)
  note less = set_serves [OF p c0(1), of k v ttl]
  show "serves_less (fb_serves slack cfg serves ?g)
      (serve_also k v (c [] + fb_life slack cfg life ttl) (fb_serves slack cfg serves f))"
  proof (rule fb_serves_less)
    fix k' v' d
    assume "(v', d) \<in> serves (primary ?g) k'"
    then have "(v', d) \<in> serves (snd (op_set ops ?c0 k v ttl ?p)) k'" by (simp add: fb_set_eq)
    then obtain d' where d': "(v', d') \<in> serve_also k v (?c0 [] + life ttl) (serves ?p) k'" "d \<le> d'"
      using serves_lessD [OF less] by blast
    then consider "k' = k" "v' = v" "d' = ?c0 [] + life ttl" | "(v', d') \<in> serves ?p k'"
      by (auto simp: serve_also_def split: if_splits)
    then show "\<exists>d'. (v', d') \<in> serve_also k v (c [] + fb_life slack cfg life ttl) (fb_serves slack cfg serves f) k'
        \<and> d + fb_extra slack cfg \<le> d'"
    proof cases
      case 1
      then show ?thesis using c0(2) d'(2)
        by (intro exI [of _ "c [] + fb_life slack cfg life ttl"]) (auto simp: serve_also_def fb_life_def)
    next
      case 2
      then show ?thesis using d'(2) primary_served [where serves = serves and f = f and slack = slack and cfg = cfg, OF 2]
        by (intro exI [of _ "d' + fb_extra slack cfg"]) (auto simp: serve_also_def)
    qed
  next
    fix k' v' d
    assume "(v', d) \<in> mem_serves (fallback ?g) k'"
    then have "(v', d) \<in> mem_serves (mem_set order (in_call c 1) k v (fallback_ttl cfg) (fallback f)) k'"
      by (simp add: fb_set_eq fc)
    from stored_in_fallback [OF f c this]
    show "\<exists>d'. (v', d') \<in> serve_also k v (c [] + fb_life slack cfg life ttl) (fb_serves slack cfg serves f) k' \<and> d \<le> d'"
    proof
      assume "k' = k \<and> v' = v \<and> d \<le> c [] + fb_extra slack cfg"
      then show ?thesis using slack
        by (intro exI [of _ "c [] + fb_life slack cfg life ttl"]) (auto simp: serve_also_def fb_life_def)
    next
      assume "(v', d) \<in> mem_serves (fallback f) k'"
      then show ?thesis using fallback_served [of v' d f k' slack cfg serves] by (auto simp: serve_also_def)
    qed
  qed
qed

lemma fb_removing:
  assumes "fb_ok cfg ok f" and "ok (primary f')" and "fc_config f' = fc_config f"
    and "serves_less (serves (primary f')) (serves (primary f))"
    and "mem_ok (fallback_config cfg) (fallback f')"
    and "\<And>k e. held (fallback f') k = Some e \<Longrightarrow> held (fallback f) k = Some e"
  shows "fb_ok cfg ok f'" and "serves_less (fb_serves slack cfg serves f') (fb_serves slack cfg serves f)"
  using assms by (auto simp: fb_ok_def intro!: fb_serves_parts mem_serves_less)

end

sublocale fallback_store \<subseteq> fb: value_store "fallback_ops ops order" "fb_ok cfg ok" "fb_serves slack cfg serves"
  "fb_life slack cfg life" slack
proof (unfold_locales, goal_cases)
  case (1 s c k)
  then show ?case by (simp add: fallback_ops_def fb_get_step(1))
next
  case (2 s c k v)
  then show ?case by (simp add: fallback_ops_def fb_get_step(2))
next
  case (3 s c k)
  then show ?case by (simp add: fallback_ops_def fb_get_step(3))
next
  case (4 s c k v ttl)
  then show ?case by (simp add: fallback_ops_def fb_set_step(1))
next
  case (5 s c k v ttl)
  then show ?case by (simp add: fallback_ops_def fb_set_step(2))
next
  case (6 s c k)
  then show ?case using call [OF 6(2), of 0]
    by (intro fb_removing(1) [OF 6(1)])
      (auto simp: fallback_ops_def fb_delete_def split_beta fb_ok_def mem_delete_held mem_delete_ok
        intro: delete_ok delete_keeps split: if_splits)
next
  case (7 s c k)
  then show ?case using call [OF 7(2), of 0]
    by (intro fb_removing(2) [OF 7(1)])
      (auto simp: fallback_ops_def fb_delete_def split_beta fb_ok_def mem_delete_held mem_delete_ok
        intro: delete_ok delete_keeps split: if_splits)
next
  case (8 s c)
  then show ?case using call [OF 8(2), of 0]
    by (intro fb_removing(1) [OF 8(1)])
      (auto simp: fallback_ops_def fb_clear_def split_beta fb_ok_def mem_clear_ok mem_clear_held
        intro: clear_ok clear_keeps)
next
  case (9 s c)
  then show ?case using call [OF 9(2), of 0]
    by (intro fb_removing(2) [OF 9(1)])
      (auto simp: fallback_ops_def fb_clear_def split_beta fb_ok_def mem_clear_ok mem_clear_held
        intro: clear_ok clear_keeps)
next
  case (10 s c)
  then show ?case using call [OF 10(2), of 0]
    by (intro fb_removing(1) [OF 10(1)])
      (auto simp: fallback_ops_def fb_evict_expired_snd fb_ok_def mem_evict_expired_held(1)
        intro: evict_ok evict_keeps dest: mem_evict_expired_held(2))
next
  case (11 s c)
  then show ?case using call [OF 11(2), of 0]
    by (intro fb_removing(2) [OF 11(1)])
      (auto simp: fallback_ops_def fb_evict_expired_snd fb_ok_def mem_evict_expired_held(1)
        intro: evict_ok evict_keeps dest: mem_evict_expired_held(2))
qed

context fallback_store begin

lemma fb_value_store:
  "value_store (fallback_ops ops order) (fb_ok cfg ok) (fb_serves slack cfg serves) (fb_life slack cfg life) slack"
  by (rule fb.value_store_axioms)

lemma new_fb_ok: "ok p \<Longrightarrow> fb_ok cfg ok (new_fallback_cache p cfg)"
  by (simp add: fb_ok_def new_fallback_cache_def new_cache_ok)

lemma new_fb_serves: "(\<And>k. serves p k = {}) \<Longrightarrow> fb_serves slack cfg serves (new_fallback_cache p cfg) k = {}"
  by (simp add: fb_serves_def new_fallback_cache_def mem_serves_def new_cache_held)

lemma fb_hit_is_fresh:
  assumes "ok p" and "\<And>k. serves p k = {}"
    and "\<forall>x\<in>set xs. clock_within slack (store_clock x)" and "clock_within slack c"
    and "fst (fb_get ops order c k (store_run (fallback_ops ops order) xs (new_fallback_cache p cfg))) = Inr (Some v)"
  shows "\<exists>c' ttl. SSet c' k v ttl \<in> set xs \<and> c [] \<le> c' [] + fb_life slack cfg life ttl"
  using new_fb_ok [OF assms(1)] new_fb_serves [OF assms(2)] assms(3,4)
  by (rule fb.hit_is_fresh) (simp add: fallback_ops_def assms(5) [unfolded fallback_ops_def])

end

interpretation mem_fb: fallback_store "memory_ops order" "mem_ok cfg" mem_serves "mem_life slack cfg" slack order cfg
  for order :: range_order and cfg :: cache_config and slack :: duration
  by (intro fallback_store.intro) unfold_locales

subsection \<open>A primary that is down\<close>

text \<open>A call of the \<open>Cache\<close> interface, and what it answers.\<close>

datatype cache_call =
  CallGet string | CallSet string go_any duration | CallDelete string | CallClear
| CallGetMultiple "string list" | CallSetMultiple "(string, go_any) gomap" duration
| CallGetWithMetadata string | CallSetWithMetadata string cache_entry
| CallExpire string duration | CallTTL string | CallEvictExpired | CallSize | CallPing | CallClose

datatype cache_answer =
  Acked "go_error option" | Found "go_error + go_any option" | FoundAll "go_error + (string, go_any) gomap"
| FoundEntry "go_error + cache_entry option" | Lifetime "go_error + duration" | EvictedCount "int \<times> go_error option"
| Counted "go_error + int"

fun call_cache :: "'s cache_ops \<Rightarrow> clock \<times> cache_call \<Rightarrow> 's \<Rightarrow> cache_answer \<times> 's" where
  "call_cache ops (c, CallGet k) s = apfst Found (op_get ops c k s)"
| "call_cache ops (c, CallSet k v ttl) s = apfst Acked (op_set ops c k v ttl s)"
| "call_cache ops (c, CallDelete k) s = apfst Acked (op_delete ops c k s)"
| "call_cache ops (c, CallClear) s = apfst Acked (op_clear ops c s)"
| "call_cache ops (c, CallGetMultiple ks) s = apfst FoundAll (op_get_multiple ops c ks s)"
| "call_cache ops (c, CallSetMultiple items ttl) s = apfst Acked (op_set_multiple ops c items ttl s)"
| "call_cache ops (c, CallGetWithMetadata k) s = apfst FoundEntry (op_get_with_metadata ops c k s)"
| "call_cache ops (c, CallSetWithMetadata k e) s = apfst Acked (op_set_with_metadata ops c k e s)"
| "call_cache ops (c, CallExpire k ttl) s = apfst Acked (op_expire ops c k ttl s)"
| "call_cache ops (c, CallTTL k) s = apfst Lifetime (op_ttl ops c k s)"
| "call_cache ops (c, CallEvictExpired) s = apfst EvictedCount (op_evict_expired ops c s)"
| "call_cache ops (c, CallSize) s = apfst Counted (op_size ops c s)"
| "call_cache ops (c, CallPing) s = apfst Acked (op_ping ops c s)"
| "call_cache ops (c, CallClose) s = apfst Acked (op_close ops c s)"

fun run_calls :: "'s cache_ops \<Rightarrow> (clock \<times> cache_call) list \<Rightarrow> 's \<Rightarrow> cache_answer list \<times> 's" where
  "run_calls ops [] s = ([], s)"
| "run_calls ops (x # xs) s =
     (let (a, s) = call_cache ops x s; (as, s) = run_calls ops xs s in (a # as, s))"

text \<open>
  Every operation of the primary fails, and what it does to its own state is arbitrary.
\<close>

definition primary_down :: "'p cache_ops \<Rightarrow> bool" where
  "primary_down ops \<longleftrightarrow>
     (\<forall>c k v ttl ks items e s.
        isl (fst (op_get ops c k s)) \<and> fst (op_set ops c k v ttl s) \<noteq> None \<and>
        fst (op_delete ops c k s) \<noteq> None \<and> fst (op_clear ops c s) \<noteq> None \<and>
        isl (fst (op_get_multiple ops c ks s)) \<and> fst (op_set_multiple ops c items ttl s) \<noteq> None \<and>
        isl (fst (op_get_with_metadata ops c k s)) \<and> fst (op_set_with_metadata ops c k e s) \<noteq> None \<and>
        fst (op_expire ops c k ttl s) \<noteq> None \<and> isl (fst (op_ttl ops c k s)) \<and>
        snd (fst (op_evict_expired ops c s)) \<noteq> None \<and> isl (fst (op_size ops c s)) \<and>
        fst (op_ping ops c s) \<noteq> None \<and> fst (op_close ops c s) \<noteq> None)"

text \<open>The call that then reaches the fallback: with the lifetime of the fallback where it has one.\<close>

fun fallback_call :: "cache_config \<Rightarrow> clock \<times> cache_call \<Rightarrow> clock \<times> cache_call" where
  "fallback_call cfg (c, CallGet k) = (in_call c 2, CallGet k)"
| "fallback_call cfg (c, CallSet k v ttl) = (in_call c 1, CallSet k v (fallback_ttl cfg))"
| "fallback_call cfg (c, CallSetMultiple items ttl) = (in_call c 1, CallSetMultiple items (fallback_ttl cfg))"
| "fallback_call cfg (c, CallExpire k ttl) = (in_call c 1, CallExpire k (fallback_ttl cfg))"
| "fallback_call cfg (c, x) = (in_call c 1, x)"

lemma primary_downD:
  assumes "primary_down ops"
  shows "fst (op_get ops c k s) \<noteq> Inr r1" "fst (op_set ops c k v ttl s) \<noteq> None"
    "fst (op_delete ops c k s) \<noteq> None" "fst (op_clear ops c s) \<noteq> None"
    "fst (op_get_multiple ops c ks s) \<noteq> Inr r2" "fst (op_set_multiple ops c items ttl s) \<noteq> None"
    "fst (op_get_with_metadata ops c k s) \<noteq> Inr r3" "fst (op_set_with_metadata ops c k e s) \<noteq> None"
    "fst (op_expire ops c k ttl s) \<noteq> None" "fst (op_ttl ops c k s) \<noteq> Inr r4"
    "snd (fst (op_evict_expired ops c s)) \<noteq> None" "fst (op_size ops c s) \<noteq> Inr r5"
  using assms unfolding primary_down_def by (metis sum.disc(2))+

lemma down_primary_call:
  assumes "primary_down ops"
  shows "fst (call_cache (fallback_ops ops order) x f) =
      fst (call_cache (memory_ops order) (fallback_call (fc_config f) x) (fallback f))"
    and "fallback (snd (call_cache (fallback_ops ops order) x f)) =
      snd (call_cache (memory_ops order) (fallback_call (fc_config f) x) (fallback f))"
    and "fc_config (snd (call_cache (fallback_ops ops order) x f)) = fc_config f"
proof -
  note methods = fb_get_def fb_set_def fb_delete_def fb_clear_def fb_get_multiple_def fb_set_multiple_def
    fb_get_with_metadata_def fb_set_with_metadata_def fb_expire_def fb_ttl_def fb_evict_expired_def
    fb_size_def fb_ping_def fb_close_def stop_background_refresh_def set_fallback_def
  obtain c y where x: "x = (c, y)" by (cases x)
  have "fst (call_cache (fallback_ops ops order) x f) =
      fst (call_cache (memory_ops order) (fallback_call (fc_config f) x) (fallback f)) \<and>
    fallback (snd (call_cache (fallback_ops ops order) x f)) =
      snd (call_cache (memory_ops order) (fallback_call (fc_config f) x) (fallback f)) \<and>
    fc_config (snd (call_cache (fallback_ops ops order) x f)) = fc_config f"
    unfolding x
    by (cases y) (auto simp: methods fallback_ops_def memory_ops_def split_beta Let_def primary_downD [OF assms]
        split: sum.splits option.splits)
  then show "fst (call_cache (fallback_ops ops order) x f) =
      fst (call_cache (memory_ops order) (fallback_call (fc_config f) x) (fallback f))"
    and "fallback (snd (call_cache (fallback_ops ops order) x f)) =
      snd (call_cache (memory_ops order) (fallback_call (fc_config f) x) (fallback f))"
    and "fc_config (snd (call_cache (fallback_ops ops order) x f)) = fc_config f" by blast+
qed

lemma down_primary_run:
  assumes "primary_down ops"
  shows "fst (run_calls (fallback_ops ops order) xs f) =
      fst (run_calls (memory_ops order) (map (fallback_call (fc_config f)) xs) (fallback f)) \<and>
    fallback (snd (run_calls (fallback_ops ops order) xs f)) =
      snd (run_calls (memory_ops order) (map (fallback_call (fc_config f)) xs) (fallback f))"
proof (induction xs arbitrary: f)
  case (Cons x xs)
  then show ?case using Cons [of "snd (call_cache (fallback_ops ops order) x f)"]
    by (simp add: down_primary_call [OF assms] split_beta)
qed simp

subsection \<open>Properties\<close>


text \<open>The bound for the default configuration and the ttl of a minute the service uses: six minutes.\<close>

lemma default_fb_life:
  "0 \<le> slack \<Longrightarrow> fb_life slack default_cache_config (mem_life slack default_cache_config) minute = 6 * minute + 4 * slack"
  by (simp add: fb_life_def fb_extra_def mem_life_def fallback_config_def clamp_ttl_def default_cache_config_def
      duration_defs Let_def)

definition stored_price :: store_op where
  "stored_price = SSet (\<lambda>_. 0) ''XXBTZUSD'' (AnyFloat (Fin 50000)) minute"

lemma price_in_fallback:
  "fst (fb_get (memory_ops rev) rev (\<lambda>_. second) ''XXBTZUSD''
     (store_run (fallback_ops (memory_ops rev) rev) [stored_price]
        (new_fallback_cache (new_in_memory_cache default_cache_config) default_cache_config))) =
   Inr (Some (AnyFloat (Fin 50000)))"
proof -
  let ?cfg = default_cache_config
  let ?p = "mem_set rev (\<lambda>_. 0) ''XXBTZUSD'' (AnyFloat (Fin 50000)) minute (new_in_memory_cache ?cfg)"
  have "fst (mem_get (\<lambda>_. second) ''XXBTZUSD'' ?p) = Some (AnyFloat (Fin 50000))"
    unfolding mem_get_hit mem_set_self [OF new_cache_ok]
    by (simp add: clamp_ttl_def default_cache_config_def duration_defs)
  then show ?thesis
    by (subst fb_get_hit [of _ _ _ _ "AnyFloat (Fin 50000)"])
      (simp_all add: stored_price_def fallback_ops_def fb_set_eq memory_ops_def split_beta new_fallback_cache_def)
qed


text \<open>
  The freshness that is promised for prices, one minute, is not kept with a fallback
  cache even while the primary works: a price stored with a ttl of a minute and read after
  59 seconds is served again when it is almost six minutes old.
\<close>

theorem fallback_serves_stale_price:
  "fst (fb_get (memory_ops rev) rev (\<lambda>_. 358 * second) ''XXBTZUSD''
     (store_run (fallback_ops (memory_ops rev) rev) [stored_price, SGet (\<lambda>_. 59 * second) ''XXBTZUSD'']
        (new_fallback_cache (new_in_memory_cache default_cache_config) default_cache_config))) =
   Inr (Some (AnyFloat (Fin 50000)))"
proof -
  let ?cfg = default_cache_config and ?k = "''XXBTZUSD''" and ?v = "AnyFloat (Fin 50000)"
  let ?f0 = "new_fallback_cache (new_in_memory_cache ?cfg) ?cfg"
  let ?p = "mem_set rev (\<lambda>_. 0) ?k ?v minute (new_in_memory_cache ?cfg)"
  let ?ops = "memory_ops rev"
  define f1 where "f1 = set_fallback rev (\<lambda>_. 0) ?k ?v (?f0\<lparr>primary := ?p\<rparr>)"
  define f2 where "f2 = snd (fb_get ?ops rev (\<lambda>_. 59 * second) ?k f1)"
  have run: "store_run (fallback_ops ?ops rev) [stored_price, SGet (\<lambda>_. 59 * second) ?k] ?f0 = f2"
    by (simp add: stored_price_def fallback_ops_def fb_set_eq memory_ops_def f1_def f2_def new_fallback_cache_def)
  have p: "mem_ok ?cfg ?p" "held ?p ?k = Some \<lparr>entry_value = ?v, expires_at = minute, created_at = 0\<rparr>"
    by (rule mem_set_ok [OF new_cache_ok])
      (simp add: mem_set_self [OF new_cache_ok] clamp_ttl_def default_cache_config_def duration_defs)
  have hit: "fst (mem_get (\<lambda>_. 59 * second) ?k ?p) = Some ?v"
    unfolding mem_get_hit p(2) by (simp add: duration_defs)
  have f1: "primary f1 = ?p" "fc_config f1 = ?cfg" "mem_ok (fallback_config ?cfg) (fallback f1)"
    by (simp_all add: f1_def new_fallback_cache_def mem_set_ok new_cache_ok)
  have g: "fb_get ?ops rev (\<lambda>_. 59 * second) ?k f1 =
      (Inr (Some ?v), set_fallback rev (\<lambda>_. 59 * second) ?k ?v (f1\<lparr>primary := snd (mem_get (\<lambda>_. 59 * second) ?k ?p)\<rparr>))"
    using fb_get_hit [of ?ops "\<lambda>_. 59 * second" ?k f1 ?v rev] hit f1(1) by (simp add: memory_ops_def split_beta)
  have ttl: "clamp_ttl (fallback_config ?cfg) (fallback_ttl ?cfg) = 300 * second"
    by (simp add: clamp_ttl_def fallback_config_def default_cache_config_def duration_defs)
  have fall: "held (fallback f2) ?k = Some \<lparr>entry_value = ?v, expires_at = 359 * second, created_at = 59 * second\<rparr>"
    using mem_set_self [OF f1(3), of rev "\<lambda>_. 59 * second" ?k ?v "fallback_ttl ?cfg"] f1(2) ttl
    by (simp add: f2_def g)
  have "primary f2 = snd (mem_get (\<lambda>_. 59 * second) ?k ?p)" by (simp add: f2_def g)
  then have "held (primary f2) ?k = Some e \<Longrightarrow> expires_at e = minute" for e
    using mem_get_held [OF p(1)] p(2) by fastforce
  then have "fst (mem_get (\<lambda>_. 358 * second) ?k (primary f2)) \<noteq> Some v" for v
    unfolding mem_get_hit by (auto simp: duration_defs)
  then have "fst (op_get ?ops (in_call (\<lambda>_. 358 * second) 0) ?k (primary f2)) \<noteq> Inr (Some v)" for v
    by (simp add: memory_ops_def split_beta)
  note miss = fb_get_miss [where order = rev, OF this]
  have "fst (mem_get (\<lambda>_. 358 * second) ?k (fallback f2)) = Some ?v"
    unfolding mem_get_hit fall by (simp add: duration_defs)
  then show ?thesis unfolding run miss by simp
qed

text \<open>
  C33: The cache survives its primary: a value stored while the primary accepted or
  refused it is found again, within the fallback's lifetime, when the primary then fails
  or has lost it.
\<close>

theorem fallback_survives_primary:
  assumes "mem_ok (fallback_config cfg) (fallback f)" and "fc_config f = cfg"
    and "\<And>w. fst (op_get ops (in_call c' 0) k (primary (snd (fb_set ops order c k v ttl f)))) \<noteq> Inr (Some w)"
    and "now_at (in_call c' 2) 0 \<le> now_at (in_call c 1) 0 + clamp_ttl (fallback_config cfg) (fallback_ttl cfg)"
  shows "fst (fb_set ops order c k v ttl f) = None \<and>
    fst (fb_get ops order c' k (snd (fb_set ops order c k v ttl f))) = Inr (Some v)"
proof
  let ?f = "snd (fb_set ops order c k v ttl f)"
  show "fst (fb_set ops order c k v ttl f) = None" by (simp add: fb_set_eq)
  have "held (fallback ?f) k = Some \<lparr>entry_value = v, expires_at = now_at (in_call c 1) 0
      + clamp_ttl (fallback_config cfg) (fallback_ttl cfg), created_at = now_at (in_call c 1) 1\<rparr>"
    using mem_set_self [OF assms(1)] assms(2) by (simp add: fb_set_eq)
  then have "fst (mem_get (in_call c' 2) k (fallback ?f)) = Some v"
    unfolding mem_get_hit using assms(4) by simp
  then show "fst (fb_get ops order c' k ?f) = Inr (Some v)"
    using fb_get_miss [where order = order, OF assms(3)] by simp
qed

definition broken_ops :: "unit cache_ops" where
  "broken_ops =
     (let refused = ErrorString ''connection refused'' in
     \<lparr>op_get = (\<lambda>c k s. (Inl refused, s)), op_set = (\<lambda>c k v ttl s. (Some refused, s)),
      op_delete = (\<lambda>c k s. (Some refused, s)), op_clear = (\<lambda>c s. (Some refused, s)),
      op_get_multiple = (\<lambda>c ks s. (Inl refused, s)), op_set_multiple = (\<lambda>c items ttl s. (Some refused, s)),
      op_get_with_metadata = (\<lambda>c k s. (Inl refused, s)), op_set_with_metadata = (\<lambda>c k e s. (Some refused, s)),
      op_expire = (\<lambda>c k ttl s. (Some refused, s)), op_ttl = (\<lambda>c k s. (Inl refused, s)),
      op_evict_expired = (\<lambda>c s. ((0, Some refused), s)), op_size = (\<lambda>c s. (Inl refused, s)),
      op_ping = (\<lambda>c s. (Some refused, s)), op_close = (\<lambda>c s. (Some refused, s))\<rparr>)"

theorem fallback_survives_primary_witness:
  "fst (fb_get broken_ops rev (\<lambda>_. 4 * minute) ''a'' (snd (fb_set broken_ops rev (\<lambda>_. 0) ''a'' AnyNil minute
     (new_fallback_cache () default_cache_config)))) = Inr (Some AnyNil)"
proof (rule fallback_survives_primary [where cfg = default_cache_config, THEN conjunct2])
  show "mem_ok (fallback_config default_cache_config) (fallback (new_fallback_cache () default_cache_config))"
    and "fc_config (new_fallback_cache () default_cache_config) = default_cache_config"
    by (simp_all add: new_fallback_cache_def new_cache_ok)
  show "now_at (in_call (\<lambda>_. 4 * minute) 2) 0 \<le> now_at (in_call (\<lambda>_. 0) 1) 0
      + clamp_ttl (fallback_config default_cache_config) (fallback_ttl default_cache_config)"
    by (simp add: clamp_ttl_def fallback_config_def default_cache_config_def duration_defs)
qed (simp add: broken_ops_def Let_def)

lemma broken_is_down: "primary_down broken_ops"
  by (simp add: primary_down_def broken_ops_def Let_def)



end
