(* ===== verification/Redis_Cache.thy ===== *)
theory Redis_Cache
  imports Fallback_Cache Go_Numbers
begin

text \<open>
  \<open>internal/cache/redis.go\<close>: the cache in a Redis server.  The client library (go-redis)
  with the server behind it is a parameter on a state \<open>'r\<close>, as is the JSON encoding of a
  cache entry and \<open>url.Parse\<close>; everything the code does with them is defined here.  What
  the code relies on is stated as \<open>redis_laws\<close>: the server gives back only what was
  stored under a key, and an entry survives its encoding.
\<close>

declare One_nat_def [simp del]

subsection \<open>The library\<close>

text \<open>\<open>Get\<close> gives \<open>None\<close> for \<open>redis.Nil\<close>; so does \<open>MGet\<close> for a key without a value.\<close>

datatype pipe_cmd = PipeSet string string duration | PipeDel string

record redis_options =
  opt_addr :: string
  opt_password :: string
  opt_db :: int

record 'r redis_lib =
  rc_connect :: "redis_options \<Rightarrow> 'r"
  rc_ping :: "clock \<Rightarrow> 'r \<Rightarrow> go_error option \<times> 'r"
  rc_get :: "clock \<Rightarrow> string \<Rightarrow> 'r \<Rightarrow> (go_error + string option) \<times> 'r"
  rc_set :: "clock \<Rightarrow> string \<Rightarrow> string \<Rightarrow> duration \<Rightarrow> 'r \<Rightarrow> go_error option \<times> 'r"
  rc_del :: "clock \<Rightarrow> string \<Rightarrow> 'r \<Rightarrow> go_error option \<times> 'r"
  rc_flush_db :: "clock \<Rightarrow> 'r \<Rightarrow> go_error option \<times> 'r"
  rc_mget :: "clock \<Rightarrow> string list \<Rightarrow> 'r \<Rightarrow> (go_error + string option list) \<times> 'r"
  rc_exec :: "clock \<Rightarrow> pipe_cmd list \<Rightarrow> 'r \<Rightarrow> go_error option \<times> 'r"
  rc_expire :: "clock \<Rightarrow> string \<Rightarrow> duration \<Rightarrow> 'r \<Rightarrow> go_error option \<times> 'r"
  rc_ttl :: "clock \<Rightarrow> string \<Rightarrow> 'r \<Rightarrow> (go_error + duration) \<times> 'r"
  rc_keys :: "clock \<Rightarrow> 'r \<Rightarrow> (go_error + string list) \<times> 'r"
  rc_db_size :: "clock \<Rightarrow> 'r \<Rightarrow> (go_error + int) \<times> 'r"
  rc_close :: "clock \<Rightarrow> 'r \<Rightarrow> go_error option \<times> 'r"
  entry_marshal :: "cache_entry \<Rightarrow> go_error + string"
  entry_unmarshal :: "string \<Rightarrow> go_error + cache_entry"

record 'r redis_cache =
  rd_client :: 'r
  rd_config :: cache_config

subsection \<open>The address of the server\<close>

text \<open>What the code reads of a parsed URL: a user without a password has the inner \<open>None\<close>.\<close>

record parsed_url =
  url_host :: string
  url_user :: "string option option"
  url_path :: string

definition parse_redis_url ::
  "(string \<Rightarrow> go_error + parsed_url) \<Rightarrow> string \<Rightarrow> string \<Rightarrow> int \<Rightarrow> go_error + string \<times> string \<times> int" where
  "parse_redis_url url_parse raw_url default_password default_db =
     (if \<not> str_contains raw_url ''://'' then Inr (raw_url, default_password, default_db)
      else
        (case url_parse raw_url of
           Inl err \<Rightarrow> Inl (WrapError ''invalid Redis URL: '' err)
         | Inr u \<Rightarrow>
             if url_host u = [] then Inl (ErrorString ''missing host in Redis URL'')
             else
               (let password =
                      (case url_user u of
                         Some (Some pass) \<Rightarrow> if pass \<noteq> [] then pass else default_password
                       | _ \<Rightarrow> default_password);
                    db =
                      (if url_path u \<noteq> [] \<and> url_path u \<noteq> ''/'' then
                         (let db_str = trim_prefix (url_path u) ''/'' in
                          if db_str \<noteq> [] then
                            (case parse_int db_str of Some n \<Rightarrow> n | None \<Rightarrow> default_db)
                          else default_db)
                       else default_db)
                in Inr (url_host u, password, db))))"

definition new_redis_cache ::
  "'r redis_lib \<Rightarrow> (string \<Rightarrow> go_error + parsed_url) \<Rightarrow> clock \<Rightarrow> cache_config \<Rightarrow> go_error + 'r redis_cache" where
  "new_redis_cache lib url_parse c cfg =
     (case parse_redis_url url_parse (redis_url cfg) (redis_password cfg) (redis_db cfg) of
        Inl err \<Rightarrow> Inl (WrapError ''failed to parse Redis URL: '' err)
      | Inr (addr, password, db) \<Rightarrow>
          (let client = rc_connect lib \<lparr>opt_addr = addr, opt_password = password, opt_db = db\<rparr>;
               (err, client) = rc_ping lib (in_call c 0) client
           in case err of
                Some e \<Rightarrow> Inl (WrapError ''failed to connect to Redis: '' e)
              | None \<Rightarrow> Inr \<lparr>rd_client = client, rd_config = cfg\<rparr>))"

subsection \<open>Reading\<close>

definition redis_get_with_metadata ::
  "'r redis_lib \<Rightarrow> clock \<Rightarrow> string \<Rightarrow> 'r redis_cache \<Rightarrow> (go_error + cache_entry option) \<times> 'r redis_cache" where
  "redis_get_with_metadata lib c key r =
     (let (res, client) = rc_get lib (in_call c 0) key (rd_client r);
          r = r\<lparr>rd_client := client\<rparr>
      in case res of
           Inl err \<Rightarrow> (Inl err, r)
         | Inr None \<Rightarrow> (Inr None, r)
         | Inr (Some val) \<Rightarrow>
             (case entry_unmarshal lib val of
                Inl err \<Rightarrow> (Inl (WrapError ''failed to unmarshal cache entry: '' err), r)
              | Inr entry \<Rightarrow>
                  if is_expired (now_at c 1) entry then
                    (Inr None, r\<lparr>rd_client := snd (rc_del lib (in_call c 2) key (rd_client r))\<rparr>)
                  else (Inr (Some entry), r)))"

definition redis_get ::
  "'r redis_lib \<Rightarrow> clock \<Rightarrow> string \<Rightarrow> 'r redis_cache \<Rightarrow> (go_error + go_any option) \<times> 'r redis_cache" where
  "redis_get lib c key r =
     (let (res, client) = rc_get lib (in_call c 0) key (rd_client r);
          r = r\<lparr>rd_client := client\<rparr>
      in case res of
           Inl err \<Rightarrow> (Inl err, r)
         | Inr None \<Rightarrow> (Inr None, r)
         | Inr (Some val) \<Rightarrow>
             (case entry_unmarshal lib val of
                Inl err \<Rightarrow> (Inl (WrapError ''failed to unmarshal cache entry: '' err), r)
              | Inr entry \<Rightarrow>
                  if is_expired (now_at c 1) entry then
                    (Inr None, r\<lparr>rd_client := snd (rc_del lib (in_call c 2) key (rd_client r))\<rparr>)
                  else (Inr (Some (entry_value entry)), r)))"

fun redis_get_multiple_loop ::
  "'r redis_lib \<Rightarrow> clock \<Rightarrow> nat \<Rightarrow> (string \<times> string option) list \<Rightarrow> (string, go_any) gomap \<Rightarrow> (string, go_any) gomap" where
  "redis_get_multiple_loop lib c i [] result = result"
| "redis_get_multiple_loop lib c i ((key, val) # vals) result =
     redis_get_multiple_loop lib c (i + 1) vals
       (case val of
          None \<Rightarrow> result
        | Some s \<Rightarrow>
            (case entry_unmarshal lib s of
               Inl err \<Rightarrow> result
             | Inr entry \<Rightarrow>
                 if \<not> is_expired (now_at c i) entry then gm_put key (entry_value entry) result else result))"

text \<open>\<open>MGet\<close> answers with one value for each key, in their order.\<close>

definition redis_get_multiple ::
  "'r redis_lib \<Rightarrow> clock \<Rightarrow> string list \<Rightarrow> 'r redis_cache \<Rightarrow> (go_error + (string, go_any) gomap) \<times> 'r redis_cache" where
  "redis_get_multiple lib c keys r =
     (if keys = [] then (Inr [], r)
      else
        (let (res, client) = rc_mget lib (in_call c 0) keys (rd_client r);
             r = r\<lparr>rd_client := client\<rparr>
         in case res of
              Inl err \<Rightarrow> (Inl err, r)
            | Inr vals \<Rightarrow> (Inr (redis_get_multiple_loop lib c 1 (zip keys vals) []), r)))"

subsection \<open>Writing\<close>

definition redis_set ::
  "'r redis_lib \<Rightarrow> clock \<Rightarrow> string \<Rightarrow> go_any \<Rightarrow> duration \<Rightarrow> 'r redis_cache \<Rightarrow> go_error option \<times> 'r redis_cache" where
  "redis_set lib c key v ttl r =
     (let ttl = (if ttl \<le> 0 then default_ttl (rd_config r) else ttl);
          ttl = (if ttl > max_ttl (rd_config r) then max_ttl (rd_config r) else ttl);
          entry = \<lparr>entry_value = v, expires_at = now_at c 0 + ttl, created_at = now_at c 1\<rparr>
      in case entry_marshal lib entry of
           Inl err \<Rightarrow> (Some (WrapError ''failed to marshal cache entry: '' err), r)
         | Inr data \<Rightarrow>
             (let (err, client) = rc_set lib (in_call c 2) key data ttl (rd_client r)
              in (err, r\<lparr>rd_client := client\<rparr>)))"

definition redis_delete ::
  "'r redis_lib \<Rightarrow> clock \<Rightarrow> string \<Rightarrow> 'r redis_cache \<Rightarrow> go_error option \<times> 'r redis_cache" where
  "redis_delete lib c key r =
     (let (err, client) = rc_del lib (in_call c 0) key (rd_client r) in (err, r\<lparr>rd_client := client\<rparr>))"

definition redis_clear :: "'r redis_lib \<Rightarrow> clock \<Rightarrow> 'r redis_cache \<Rightarrow> go_error option \<times> 'r redis_cache" where
  "redis_clear lib c r =
     (let (err, client) = rc_flush_db lib (in_call c 0) (rd_client r) in (err, r\<lparr>rd_client := client\<rparr>))"

text \<open>The commands of the pipeline, or the error of the first entry that cannot be encoded.\<close>

fun redis_pipe_sets ::
  "'r redis_lib \<Rightarrow> clock \<Rightarrow> nat \<Rightarrow> (string, go_any) gomap \<Rightarrow> duration \<Rightarrow> pipe_cmd list \<Rightarrow> go_error + pipe_cmd list" where
  "redis_pipe_sets lib c i [] ttl pipe = Inr pipe"
| "redis_pipe_sets lib c i ((key, v) # items) ttl pipe =
     (case entry_marshal lib \<lparr>entry_value = v, expires_at = now_at c i + ttl, created_at = now_at c (i + 1)\<rparr> of
        Inl err \<Rightarrow> Inl (WrapError (''failed to marshal cache entry for key '' @ key @ '': '') err)
      | Inr data \<Rightarrow> redis_pipe_sets lib c (i + 2) items ttl (pipe @ [PipeSet key data ttl]))"

definition redis_set_multiple ::
  "'r redis_lib \<Rightarrow> clock \<Rightarrow> (string, go_any) gomap \<Rightarrow> duration \<Rightarrow> 'r redis_cache \<Rightarrow> go_error option \<times> 'r redis_cache" where
  "redis_set_multiple lib c items ttl r =
     (if items = [] then (None, r)
      else
        (case redis_pipe_sets lib c 0 items ttl [] of
           Inl err \<Rightarrow> (Some err, r)
         | Inr pipe \<Rightarrow>
             (let (err, client) = rc_exec lib (in_call c (2 * length items)) pipe (rd_client r)
              in (err, r\<lparr>rd_client := client\<rparr>))))"

definition redis_set_with_metadata ::
  "'r redis_lib \<Rightarrow> clock \<Rightarrow> string \<Rightarrow> cache_entry \<Rightarrow> 'r redis_cache \<Rightarrow> go_error option \<times> 'r redis_cache" where
  "redis_set_with_metadata lib c key entry r =
     (case entry_marshal lib entry of
        Inl err \<Rightarrow> (Some (WrapError ''failed to marshal cache entry: '' err), r)
      | Inr data \<Rightarrow>
          (let ttl = entry_ttl (now_at c 0) entry;
               ttl = (if ttl \<le> 0 then default_ttl (rd_config r) else ttl);
               (err, client) = rc_set lib (in_call c 1) key data ttl (rd_client r)
           in (err, r\<lparr>rd_client := client\<rparr>)))"

subsection \<open>Expiry, eviction, size\<close>

definition redis_expire ::
  "'r redis_lib \<Rightarrow> clock \<Rightarrow> string \<Rightarrow> duration \<Rightarrow> 'r redis_cache \<Rightarrow> go_error option \<times> 'r redis_cache" where
  "redis_expire lib c key ttl r =
     (let (err, client) = rc_expire lib (in_call c 0) key ttl (rd_client r) in (err, r\<lparr>rd_client := client\<rparr>))"

definition redis_ttl :: "'r redis_lib \<Rightarrow> clock \<Rightarrow> string \<Rightarrow> 'r redis_cache \<Rightarrow> (go_error + duration) \<times> 'r redis_cache" where
  "redis_ttl lib c key r =
     (let (res, client) = rc_ttl lib (in_call c 0) key (rd_client r) in (res, r\<lparr>rd_client := client\<rparr>))"

text \<open>The scan: the number of keys to delete, and the commands for them.\<close>

fun redis_expired_keys ::
  "'r redis_lib \<Rightarrow> clock \<Rightarrow> nat \<Rightarrow> string list \<Rightarrow> pipe_cmd list \<Rightarrow> 'r redis_cache \<Rightarrow> pipe_cmd list \<times> 'r redis_cache" where
  "redis_expired_keys lib c i [] pipe r = (pipe, r)"
| "redis_expired_keys lib c i (key # keys) pipe r =
     (case redis_get_with_metadata lib (in_call c i) key r of
        (Inl err, r) \<Rightarrow> redis_expired_keys lib c (i + 2) keys pipe r
      | (Inr None, r) \<Rightarrow> redis_expired_keys lib c (i + 2) keys (pipe @ [PipeDel key]) r
      | (Inr (Some entry), r) \<Rightarrow>
          redis_expired_keys lib c (i + 2) keys
            (if is_expired (now_at c (i + 1)) entry then pipe @ [PipeDel key] else pipe) r)"

definition redis_evict_expired ::
  "'r redis_lib \<Rightarrow> clock \<Rightarrow> 'r redis_cache \<Rightarrow> (int \<times> go_error option) \<times> 'r redis_cache" where
  "redis_evict_expired lib c r =
     (let (res, client) = rc_keys lib (in_call c 0) (rd_client r);
          r = r\<lparr>rd_client := client\<rparr>
      in case res of
           Inl err \<Rightarrow> ((0, Some err), r)
         | Inr keys \<Rightarrow>
             (let (pipe, r) = redis_expired_keys lib c 1 keys [] r;
                  expired_count = int (length pipe)
              in if expired_count > 0 then
                   (let (err, client) = rc_exec lib (in_call c (1 + 2 * length keys)) pipe (rd_client r)
                    in ((expired_count, err), r\<lparr>rd_client := client\<rparr>))
                 else ((expired_count, None), r)))"

definition redis_size :: "'r redis_lib \<Rightarrow> clock \<Rightarrow> 'r redis_cache \<Rightarrow> (go_error + int) \<times> 'r redis_cache" where
  "redis_size lib c r =
     (let (res, client) = rc_db_size lib (in_call c 0) (rd_client r) in (res, r\<lparr>rd_client := client\<rparr>))"

definition redis_ping :: "'r redis_lib \<Rightarrow> clock \<Rightarrow> 'r redis_cache \<Rightarrow> go_error option \<times> 'r redis_cache" where
  "redis_ping lib c r =
     (let (err, client) = rc_ping lib (in_call c 0) (rd_client r) in (err, r\<lparr>rd_client := client\<rparr>))"

definition redis_close :: "'r redis_lib \<Rightarrow> clock \<Rightarrow> 'r redis_cache \<Rightarrow> go_error option \<times> 'r redis_cache" where
  "redis_close lib c r =
     (let (err, client) = rc_close lib (in_call c 0) (rd_client r) in (err, r\<lparr>rd_client := client\<rparr>))"

definition redis_ops :: "'r redis_lib \<Rightarrow> 'r redis_cache cache_ops" where
  "redis_ops lib =
     \<lparr>op_get = redis_get lib, op_set = redis_set lib, op_delete = redis_delete lib, op_clear = redis_clear lib,
      op_get_multiple = redis_get_multiple lib, op_set_multiple = redis_set_multiple lib,
      op_get_with_metadata = redis_get_with_metadata lib, op_set_with_metadata = redis_set_with_metadata lib,
      op_expire = redis_expire lib, op_ttl = redis_ttl lib, op_evict_expired = redis_evict_expired lib,
      op_size = redis_size lib, op_ping = redis_ping lib, op_close = redis_close lib\<rparr>"

subsection \<open>What is relied on\<close>

text \<open>
  \<open>view r\<close> is what the server holds: the text stored under each key.  It gives back what it
  holds, it may drop a key at any time, and only a \<open>SET\<close> adds one.  An entry with a
  \<open>float64\<close>, the only kind of value the service stores, decodes to itself.
\<close>

definition redis_laws :: "'r redis_lib \<Rightarrow> ('r \<Rightarrow> string \<Rightarrow> string option) \<Rightarrow> bool" where
  "redis_laws lib view \<longleftrightarrow>
     (\<forall>c k r. view (snd (rc_get lib c k r)) \<subseteq>\<^sub>m view r) \<and>
     (\<forall>c k r s. fst (rc_get lib c k r) = Inr (Some s) \<longrightarrow> view r k = Some s) \<and>
     (\<forall>c k s ttl r k' x. view (snd (rc_set lib c k s ttl r)) k' = Some x \<longrightarrow> view r k' = Some x \<or> k' = k \<and> x = s) \<and>
     (\<forall>c k r. view (snd (rc_del lib c k r)) \<subseteq>\<^sub>m view r) \<and>
     (\<forall>c r. view (snd (rc_flush_db lib c r)) \<subseteq>\<^sub>m view r) \<and>
     (\<forall>c r. view (snd (rc_keys lib c r)) \<subseteq>\<^sub>m view r) \<and>
     (\<forall>c ks r. view (snd (rc_exec lib c (map PipeDel ks) r)) \<subseteq>\<^sub>m view r) \<and>
     (\<forall>e s e' p. entry_marshal lib e = Inr s \<and> entry_unmarshal lib s = Inr e' \<and> entry_value e = AnyFloat p \<longrightarrow> e' = e)"

lemma redis_lawsD:
  assumes "redis_laws lib view"
  shows "view (snd (rc_get lib c k r)) \<subseteq>\<^sub>m view r"
    and "fst (rc_get lib c k r) = Inr (Some s) \<Longrightarrow> view r k = Some s"
    and "view (snd (rc_set lib c k s ttl r)) k' = Some x \<Longrightarrow> view r k' = Some x \<or> k' = k \<and> x = s"
    and "view (snd (rc_del lib c k r)) \<subseteq>\<^sub>m view r"
    and "view (snd (rc_flush_db lib c r)) \<subseteq>\<^sub>m view r"
    and "view (snd (rc_keys lib c r)) \<subseteq>\<^sub>m view r"
    and "view (snd (rc_exec lib c (map PipeDel ks) r)) \<subseteq>\<^sub>m view r"
    and "entry_marshal lib e = Inr s \<Longrightarrow> entry_unmarshal lib s = Inr e' \<Longrightarrow> entry_value e = AnyFloat p \<Longrightarrow> e' = e"
  using assms unfolding redis_laws_def by (fast | metis)+

text \<open>The operations on values that are \<open>float64\<close>s.\<close>

definition float_only :: "'s cache_ops \<Rightarrow> 's cache_ops" where
  "float_only ops =
     ops\<lparr>op_set := (\<lambda>c k v ttl s. case v of AnyFloat p \<Rightarrow> op_set ops c k v ttl s | _ \<Rightarrow> (None, s))\<rparr>"

lemma float_only_simps [simp]:
  "op_get (float_only ops) = op_get ops" "op_delete (float_only ops) = op_delete ops"
  "op_clear (float_only ops) = op_clear ops" "op_evict_expired (float_only ops) = op_evict_expired ops"
  "op_set (float_only ops) c k (AnyFloat p) ttl s = op_set ops c k (AnyFloat p) ttl s"
  by (simp_all add: float_only_def)

lemma redis_set_eq: "redis_set lib c key v ttl r =
    (case entry_marshal lib
        \<lparr>entry_value = v, expires_at = now_at c 0 + clamp_ttl (rd_config r) ttl, created_at = now_at c 1\<rparr> of
       Inl err \<Rightarrow> (Some (WrapError ''failed to marshal cache entry: '' err), r)
     | Inr data \<Rightarrow>
         (let (err, client) = rc_set lib (in_call c 2) key data (clamp_ttl (rd_config r) ttl) (rd_client r)
          in (err, r\<lparr>rd_client := client\<rparr>)))"
  by (simp only: redis_set_def clamp_ttl_def Let_def)

definition redis_ok :: "cache_config \<Rightarrow> 'r redis_cache \<Rightarrow> bool" where
  "redis_ok cfg r \<longleftrightarrow> rd_config r = cfg"

definition redis_serves :: "'r redis_lib \<Rightarrow> ('r \<Rightarrow> string \<Rightarrow> string option) \<Rightarrow> 'r redis_cache \<Rightarrow> served" where
  "redis_serves lib view r k =
     {(v, d). \<exists>s e. view (rd_client r) k = Some s \<and> entry_unmarshal lib s = Inr e \<and> v = entry_value e \<and> d = expires_at e}"

lemma redis_serves_less:
  "view (rd_client r') \<subseteq>\<^sub>m view (rd_client r) \<Longrightarrow> serves_less (redis_serves lib view r') (redis_serves lib view r)"
  by (rule serves_less_subset) (fastforce simp: redis_serves_def map_le_def dom_def)

lemma redis_get_with_metadata_view:
  assumes "redis_laws lib view"
  shows "view (rd_client (snd (redis_get_with_metadata lib c k r))) \<subseteq>\<^sub>m view (rd_client r)"
    and "rd_config (snd (redis_get_with_metadata lib c k r)) = rd_config r"
  using redis_lawsD(1) [OF assms, of "in_call c 0" k "rd_client r"]
  by (auto simp: redis_get_with_metadata_def Let_def split_beta split: sum.split option.split
      intro: map_le_trans redis_lawsD(4) [OF assms])

lemma redis_get_snd: "snd (redis_get lib c k r) = snd (redis_get_with_metadata lib c k r)"
  by (simp add: redis_get_def redis_get_with_metadata_def Let_def split_beta split: sum.split option.split)

lemma redis_get_hit:
  "fst (redis_get lib c k r) = Inr (Some v) \<Longrightarrow> \<exists>s e. fst (rc_get lib (in_call c 0) k (rd_client r)) = Inr (Some s) \<and>
     entry_unmarshal lib s = Inr e \<and> v = entry_value e \<and> now_at c 1 \<le> expires_at e"
  by (auto simp: redis_get_def Let_def split_beta is_expired_def not_less split: sum.splits option.splits if_splits)

lemma redis_expired_keys_view:
  assumes "redis_laws lib view"
  shows "view (rd_client (snd (redis_expired_keys lib c i keys (map PipeDel ks) r))) \<subseteq>\<^sub>m view (rd_client r) \<and>
    rd_config (snd (redis_expired_keys lib c i keys (map PipeDel ks) r)) = rd_config r \<and>
    (\<exists>ks'. fst (redis_expired_keys lib c i keys (map PipeDel ks) r) = map PipeDel ks')"
proof (induction keys arbitrary: i ks r)
  case (Cons key keys)
  obtain res r' where g: "redis_get_with_metadata lib (in_call c i) key r = (res, r')" by fastforce
  have r': "view (rd_client r') \<subseteq>\<^sub>m view (rd_client r)" "rd_config r' = rd_config r"
    using redis_get_with_metadata_view [OF assms, of "in_call c i" key r] g by simp_all
  have "\<exists>ks'. redis_expired_keys lib c i (key # keys) (map PipeDel ks) r =
      redis_expired_keys lib c (i + 2) keys (map PipeDel ks') r'"
    using g by (auto split: sum.split option.split intro: exI [of _ "ks @ [key]"] exI [of _ ks])
  then show ?case using Cons.IH r' by (metis map_le_trans)
qed auto

lemma redis_evict_view:
  assumes "redis_laws lib view"
  shows "view (rd_client (snd (redis_evict_expired lib c r))) \<subseteq>\<^sub>m view (rd_client r) \<and>
    rd_config (snd (redis_evict_expired lib c r)) = rd_config r"
proof -
  obtain res client where k: "rc_keys lib (in_call c 0) (rd_client r) = (res, client)" by fastforce
  have client: "view client \<subseteq>\<^sub>m view (rd_client r)" using redis_lawsD(6) [OF assms, of "in_call c 0" "rd_client r"] k by simp
  show ?thesis
  proof (cases res)
    case (Inl e)
    then show ?thesis using k client by (simp add: redis_evict_expired_def)
  next
    case (Inr keys)
    let ?r = "r\<lparr>rd_client := client\<rparr>"
    obtain pipe r1 where p: "redis_expired_keys lib c 1 keys [] ?r = (pipe, r1)" by fastforce
    obtain ks where ks: "pipe = map PipeDel ks" and r1: "view (rd_client r1) \<subseteq>\<^sub>m view client" "rd_config r1 = rd_config r"
      using redis_expired_keys_view [OF assms, of c 1 keys "[]" ?r] p by auto
    have "view (snd (rc_exec lib (in_call c (1 + 2 * length keys)) pipe (rd_client r1))) \<subseteq>\<^sub>m view (rd_client r1)"
      unfolding ks by (rule redis_lawsD(7) [OF assms])
    then show ?thesis using k Inr p r1 client
      by (auto simp: redis_evict_expired_def Let_def split_beta intro: map_le_trans)
  qed
qed

text \<open>With these laws the Redis cache keeps the contract of the caches.\<close>

lemma redis_value_store:
  assumes "redis_laws lib view"
  shows "value_store (float_only (redis_ops lib)) (redis_ok cfg) (redis_serves lib view) (mem_life slack cfg) slack"
proof (unfold_locales, goal_cases)
  case (1 r c k)
  then show ?case using redis_get_with_metadata_view(2) [OF assms] by (simp add: redis_ops_def redis_get_snd redis_ok_def)
next
  case (2 r c k v)
  then obtain s e where "view (rd_client r) k = Some s" "entry_unmarshal lib s = Inr e" "v = entry_value e"
    "now_at c 1 \<le> expires_at e"
    using redis_get_hit [of lib c k r v] redis_lawsD(2) [OF assms] by (auto simp: redis_ops_def)
  moreover have "c [] \<le> now_at c 1" using clock_within_mono [OF 2(2)] by (simp add: now_at_def)
  ultimately show ?case by (auto simp: redis_serves_def)
next
  case (3 r c k)
  then show ?case using redis_get_with_metadata_view(1) [OF assms]
    by (simp add: redis_ops_def redis_get_snd redis_serves_less)
next
  case (4 r c k v ttl)
  then show ?case
    by (auto simp: float_only_def redis_ops_def redis_set_def redis_ok_def Let_def split_beta split: go_any.split sum.split)
next
  case (5 r c k v ttl)
  show ?case
  proof (cases "\<exists>p data. v = AnyFloat p \<and> entry_marshal lib
      \<lparr>entry_value = v, expires_at = now_at c 0 + clamp_ttl cfg ttl, created_at = now_at c 1\<rparr> = Inr data")
    case False
    then have "snd (op_set (float_only (redis_ops lib)) c k v ttl r) = r"
      using 5(1) by (auto simp: float_only_def redis_ops_def redis_set_eq redis_ok_def split: go_any.split sum.split)
    moreover have "serves_less (redis_serves lib view r) (serve_also k v (c [] + mem_life slack cfg ttl) (redis_serves lib view r))"
      by (rule serves_less_subset) (auto simp: serve_also_def)
    ultimately show ?thesis by simp
  next
    case True
    let ?e = "\<lparr>entry_value = v, expires_at = now_at c 0 + clamp_ttl cfg ttl, created_at = now_at c 1\<rparr>"
    from True obtain p data where v: "v = AnyFloat p" and data: "entry_marshal lib ?e = Inr data" by blast
    let ?r = "snd (op_set (float_only (redis_ops lib)) c k v ttl r)"
    have r: "rd_client ?r = snd (rc_set lib (in_call c 2) k data (clamp_ttl cfg ttl) (rd_client r))"
      using 5(1) data v by (simp add: redis_ops_def redis_set_eq redis_ok_def Let_def split_beta)
    have t: "now_at c 0 \<le> c [] + slack" using clock_within_le [OF 5(2)] by (simp add: now_at_def)
    have "\<exists>d'. (v', d') \<in> serve_also k v (c [] + mem_life slack cfg ttl) (redis_serves lib view r) k' \<and> d \<le> d'"
      if served: "(v', d) \<in> redis_serves lib view ?r k'" for k' v' d
    proof -
      obtain s e where s: "view (rd_client ?r) k' = Some s" "entry_unmarshal lib s = Inr e" "v' = entry_value e" "d = expires_at e"
        using served by (auto simp: redis_serves_def)
      from redis_lawsD(3) [OF assms s(1) [unfolded r]] show ?thesis
      proof
        assume "view (rd_client r) k' = Some s"
        then show ?thesis using s(2-4) by (auto simp: redis_serves_def serve_also_def)
      next
        assume "k' = k \<and> s = data"
        then have "k' = k" "e = ?e" using redis_lawsD(8) [OF assms data, of e p] s(2) v by auto
        then show ?thesis using s(3,4) t by (auto simp: serve_also_def mem_life_def)
      qed
    qed
    then show ?thesis by (auto simp: serves_less_def)
  qed
next
  case (6 r c k)
  then show ?case by (simp add: redis_ops_def redis_delete_def redis_ok_def split_beta)
next
  case (7 r c k)
  then show ?case using redis_lawsD(4) [OF assms] by (simp add: redis_ops_def redis_delete_def split_beta redis_serves_less)
next
  case (8 r c)
  then show ?case by (simp add: redis_ops_def redis_clear_def redis_ok_def split_beta)
next
  case (9 r c)
  then show ?case using redis_lawsD(5) [OF assms] by (simp add: redis_ops_def redis_clear_def split_beta redis_serves_less)
next
  case (10 r c)
  then show ?case using redis_evict_view [OF assms] by (simp add: redis_ops_def redis_ok_def)
next
  case (11 r c)
  then show ?case using redis_evict_view [OF assms] by (simp add: redis_ops_def redis_serves_less)
qed

subsection \<open>Properties\<close>

text \<open>
  A server that meets the laws: a map that never drops a key by itself.  Its encoding
  covers one price, with the two times in unary.
\<close>

definition sample_marshal :: "cache_entry \<Rightarrow> go_error + string" where
  "sample_marshal e =
     (if entry_value e = AnyFloat (Fin 50000) \<and> 0 \<le> expires_at e \<and> 0 \<le> created_at e then
        Inr (replicate (nat (expires_at e)) CHR ''x'' @ replicate (nat (created_at e)) CHR ''c'')
      else Inl (ErrorString ''unsupported value''))"

definition sample_unmarshal :: "string \<Rightarrow> go_error + cache_entry" where
  "sample_unmarshal s =
     Inr \<lparr>entry_value = AnyFloat (Fin 50000), expires_at = int (count_list s CHR ''x''),
          created_at = int (count_list s CHR ''c'')\<rparr>"

definition run_cmd :: "pipe_cmd \<Rightarrow> (string \<Rightarrow> string option) \<Rightarrow> string \<Rightarrow> string option" where
  "run_cmd cmd r = (case cmd of PipeSet k s ttl \<Rightarrow> r(k \<mapsto> s) | PipeDel k \<Rightarrow> r(k := None))"

definition sample_lib :: "(string \<Rightarrow> string option) redis_lib" where
  "sample_lib =
     \<lparr>rc_connect = (\<lambda>_ _. None), rc_ping = (\<lambda>c r. (None, r)), rc_get = (\<lambda>c k r. (Inr (r k), r)),
      rc_set = (\<lambda>c k s ttl r. (None, r(k \<mapsto> s))), rc_del = (\<lambda>c k r. (None, r(k := None))),
      rc_flush_db = (\<lambda>c r. (None, \<lambda>_. None)), rc_mget = (\<lambda>c ks r. (Inr (map r ks), r)),
      rc_exec = (\<lambda>c cmds r. (None, fold run_cmd cmds r)), rc_expire = (\<lambda>c k ttl r. (None, r)),
      rc_ttl = (\<lambda>c k r. (Inr (- 1), r)), rc_keys = (\<lambda>c r. (Inr [], r)), rc_db_size = (\<lambda>c r. (Inr 0, r)),
      rc_close = (\<lambda>c r. (None, r)), entry_marshal = sample_marshal, entry_unmarshal = sample_unmarshal\<rparr>"

lemma count_list_replicate: "count_list (replicate n a) b = (if a = b then n else 0)"
  by (induction n) auto

lemma fold_run_cmd_del: "fold run_cmd (map PipeDel ks) r \<subseteq>\<^sub>m r"
proof (induction ks arbitrary: r)
  case (Cons k ks)
  have "run_cmd (PipeDel k) r \<subseteq>\<^sub>m r" by (simp add: run_cmd_def map_le_def)
  then show ?case using Cons [of "run_cmd (PipeDel k) r"] by (simp add: map_le_trans)
qed simp

lemma sample_codec: "sample_marshal e = Inr s \<Longrightarrow> sample_unmarshal s = Inr e' \<Longrightarrow> e' = e"
  by (cases e) (auto simp: sample_marshal_def sample_unmarshal_def count_list_replicate split: if_splits)

lemma sample_laws: "redis_laws sample_lib (\<lambda>r. r)"
  unfolding redis_laws_def
proof (intro conjI allI impI; (elim conjE)?)
  show "e' = e" if "entry_marshal sample_lib e = Inr s" "entry_unmarshal sample_lib s = Inr e'" for e s e'
    using that by (simp add: sample_lib_def sample_codec)
  show "snd (rc_exec sample_lib c (map PipeDel ks) r) \<subseteq>\<^sub>m r" for c ks r
    by (simp add: sample_lib_def fold_run_cmd_del)
qed (simp_all add: sample_lib_def map_le_def split: if_splits)

definition item_entry :: "clock \<Rightarrow> duration \<Rightarrow> nat \<Rightarrow> go_any \<Rightarrow> cache_entry" where
  "item_entry c ttl i v = \<lparr>entry_value = v, expires_at = now_at c i + ttl, created_at = now_at c (i + 1)\<rparr>"

lemma redis_pipe_sets_ok:
  assumes "\<forall>j<length items. \<exists>data. entry_marshal lib (item_entry c ttl (i + 2 * j) (snd (items ! j))) = Inr data"
  shows "\<exists>cmds. redis_pipe_sets lib c i items ttl pipe = Inr (pipe @ cmds) \<and> length cmds = length items \<and>
    (\<forall>j<length items. \<exists>data. entry_marshal lib (item_entry c ttl (i + 2 * j) (snd (items ! j))) = Inr data \<and>
      cmds ! j = PipeSet (fst (items ! j)) data ttl)"
  using assms
proof (induction items arbitrary: i pipe)
  case (Cons item items)
  obtain k v where item: "item = (k, v)" by (cases item)
  obtain data where data: "entry_marshal lib (item_entry c ttl i v) = Inr data"
    using Cons.prems by (auto simp: item dest: spec [of _ 0])
  have later: "\<forall>j<length items. \<exists>data. entry_marshal lib (item_entry c ttl (i + 2 + 2 * j) (snd (items ! j))) = Inr data"
    using Cons.prems by (auto dest: spec [of _ "Suc _"] simp: algebra_simps)
  obtain cmds where cmds: "redis_pipe_sets lib c (i + 2) items ttl (pipe @ [PipeSet k data ttl]) =
      Inr ((pipe @ [PipeSet k data ttl]) @ cmds)" "length cmds = length items"
    "\<forall>j<length items. \<exists>data. entry_marshal lib (item_entry c ttl (i + 2 + 2 * j) (snd (items ! j))) = Inr data \<and>
      cmds ! j = PipeSet (fst (items ! j)) data ttl"
    using Cons.IH [OF later] by blast
  have "redis_pipe_sets lib c i (item # items) ttl pipe = Inr (pipe @ PipeSet k data ttl # cmds)"
    using data cmds(1) by (simp add: item item_entry_def)
  moreover have "\<forall>j<length (item # items). \<exists>d. entry_marshal lib (item_entry c ttl (i + 2 * j) (snd ((item # items) ! j))) = Inr d \<and>
      (PipeSet k data ttl # cmds) ! j = PipeSet (fst ((item # items) ! j)) d ttl"
    using cmds(3) data by (auto simp: item less_Suc_eq_0_disj algebra_simps)
  ultimately show ?case using cmds(2) by (intro exI [of _ "PipeSet k data ttl # cmds"]) simp
qed simp

lemma redis_pipe_sets_error:
  assumes "n < length items" and "entry_marshal lib (item_entry c ttl (i + 2 * n) (snd (items ! n))) = Inl err"
    and "\<forall>j<n. \<exists>data. entry_marshal lib (item_entry c ttl (i + 2 * j) (snd (items ! j))) = Inr data"
  shows "redis_pipe_sets lib c i items ttl pipe =
    Inl (WrapError (''failed to marshal cache entry for key '' @ fst (items ! n) @ '': '') err)"
  using assms
proof (induction items arbitrary: i n pipe)
  case (Cons item items)
  obtain k v where item: "item = (k, v)" by (cases item)
  show ?case
  proof (cases n)
    case 0
    then show ?thesis using Cons.prems by (simp add: item item_entry_def)
  next
    case (Suc m)
    obtain data where data: "entry_marshal lib (item_entry c ttl i v) = Inr data"
      using Cons.prems(3) Suc by (auto simp: item dest: spec [of _ 0])
    have "redis_pipe_sets lib c (i + 2) items ttl (pipe @ [PipeSet k data ttl]) =
        Inl (WrapError (''failed to marshal cache entry for key '' @ fst (items ! m) @ '': '') err)"
    proof (rule Cons.IH)
      show "m < length items" "entry_marshal lib (item_entry c ttl (i + 2 + 2 * m) (snd (items ! m))) = Inl err"
        using Cons.prems(1,2) Suc by (simp_all add: algebra_simps)
      show "\<forall>j<m. \<exists>data. entry_marshal lib (item_entry c ttl (i + 2 + 2 * j) (snd (items ! j))) = Inr data"
        using Cons.prems(3) Suc by (auto dest: spec [of _ "Suc _"] simp: algebra_simps)
    qed
    then show ?thesis using data Suc by (simp add: item item_entry_def)
  qed
qed simp

text \<open>
  \<open>SetMultiple\<close> is all or nothing: when every entry can be encoded, the server gets
  one \<open>SET\<close> for each item with the lifetime as it was given, in a single pipeline;
  otherwise nothing is sent and the error names the first entry that failed.
\<close>

theorem redis_set_multiple_all_or_nothing:
  assumes "items \<noteq> []"
  shows "((\<forall>j<length items. \<exists>data. entry_marshal lib (item_entry c ttl (2 * j) (snd (items ! j))) = Inr data) \<longrightarrow>
      (\<exists>cmds err client.
         rc_exec lib (in_call c (2 * length items)) cmds (rd_client r) = (err, client) \<and>
         redis_set_multiple lib c items ttl r = (err, r\<lparr>rd_client := client\<rparr>) \<and> length cmds = length items \<and>
         (\<forall>j<length items. \<exists>data. entry_marshal lib (item_entry c ttl (2 * j) (snd (items ! j))) = Inr data \<and>
            cmds ! j = PipeSet (fst (items ! j)) data ttl))) \<and>
    (\<forall>n err. n < length items \<and> entry_marshal lib (item_entry c ttl (2 * n) (snd (items ! n))) = Inl err \<and>
      (\<forall>j<n. \<exists>data. entry_marshal lib (item_entry c ttl (2 * j) (snd (items ! j))) = Inr data) \<longrightarrow>
      redis_set_multiple lib c items ttl r =
        (Some (WrapError (''failed to marshal cache entry for key '' @ fst (items ! n) @ '': '') err), r))"
proof (intro conjI impI allI)
  assume "\<forall>j<length items. \<exists>data. entry_marshal lib (item_entry c ttl (2 * j) (snd (items ! j))) = Inr data"
  then have all: "\<forall>j<length items. \<exists>data. entry_marshal lib (item_entry c ttl (0 + 2 * j) (snd (items ! j))) = Inr data"
    by simp
  obtain cmds where cmds: "redis_pipe_sets lib c 0 items ttl [] = Inr cmds" "length cmds = length items"
    "\<forall>j<length items. \<exists>data. entry_marshal lib (item_entry c ttl (2 * j) (snd (items ! j))) = Inr data \<and>
      cmds ! j = PipeSet (fst (items ! j)) data ttl"
    using redis_pipe_sets_ok [OF all, of "[]"] by auto
  obtain err client where "rc_exec lib (in_call c (2 * length items)) cmds (rd_client r) = (err, client)" by fastforce
  then show "\<exists>cmds err client.
         rc_exec lib (in_call c (2 * length items)) cmds (rd_client r) = (err, client) \<and>
         redis_set_multiple lib c items ttl r = (err, r\<lparr>rd_client := client\<rparr>) \<and> length cmds = length items \<and>
         (\<forall>j<length items. \<exists>data. entry_marshal lib (item_entry c ttl (2 * j) (snd (items ! j))) = Inr data \<and>
            cmds ! j = PipeSet (fst (items ! j)) data ttl)"
    using assms cmds by (intro exI [of _ cmds] exI [of _ err] exI [of _ client]) (simp add: redis_set_multiple_def)
next
  fix n err
  assume "n < length items \<and> entry_marshal lib (item_entry c ttl (2 * n) (snd (items ! n))) = Inl err \<and>
      (\<forall>j<n. \<exists>data. entry_marshal lib (item_entry c ttl (2 * j) (snd (items ! j))) = Inr data)"
  then have "redis_pipe_sets lib c 0 items ttl [] =
      Inl (WrapError (''failed to marshal cache entry for key '' @ fst (items ! n) @ '': '') err)"
    by (intro redis_pipe_sets_error) simp_all
  then show "redis_set_multiple lib c items ttl r =
      (Some (WrapError (''failed to marshal cache entry for key '' @ fst (items ! n) @ '': '') err), r)"
    using assms by (simp add: redis_set_multiple_def)
qed

theorem redis_set_multiple_all_or_nothing_witness:
  "redis_set_multiple sample_lib (\<lambda>_. 0) [(''a'', AnyFloat (Fin 50000)), (''b'', AnyFloat NaN)] second
      \<lparr>rd_client = (\<lambda>_. None), rd_config = default_cache_config\<rparr> =
     (Some (WrapError ''failed to marshal cache entry for key b: '' (ErrorString ''unsupported value'')),
      \<lparr>rd_client = (\<lambda>_. None), rd_config = default_cache_config\<rparr>)"
proof -
  let ?items = "[(''a'', AnyFloat (Fin 50000)), (''b'', AnyFloat NaN)]"
  have ne: "?items \<noteq> []" by simp
  have bad: "1 < length ?items \<and> entry_marshal sample_lib (item_entry (\<lambda>_. 0) second (2 * 1) (snd (?items ! 1))) =
      Inl (ErrorString ''unsupported value'') \<and>
      (\<forall>j<1. \<exists>data. entry_marshal sample_lib (item_entry (\<lambda>_. 0) second (2 * j) (snd (?items ! j))) = Inr data)"
    by (simp add: sample_lib_def sample_marshal_def item_entry_def duration_defs One_nat_def)
  show ?thesis
    using redis_set_multiple_all_or_nothing [OF ne, of sample_lib "\<lambda>_. 0" second
        "\<lparr>rd_client = (\<lambda>_. None), rd_config = default_cache_config\<rparr>", THEN conjunct2, rule_format, OF bad]
    by (simp add: One_nat_def)
qed

end
