(* ===== verification/Cache_Factory.thy ===== *)
theory Cache_Factory
  imports Redis_Cache
begin

text \<open>
  \<open>internal/cache/factory.go\<close>: the configuration from environment variables, and the
  cache they select.  \<open>env\<close> is \<open>os.Getenv\<close>: the empty string for a variable that is not
  set.  A value of the interface \<open>Cache\<close> is one of the three caches the factory makes.
\<close>

declare One_nat_def [simp del]

subsection \<open>Configuration\<close>

type_synonym environment = "string \<Rightarrow> string"

definition from_env ::
  "environment \<Rightarrow> string \<Rightarrow> (string \<Rightarrow> 'v option) \<Rightarrow> ('v \<Rightarrow> cache_config \<Rightarrow> cache_config) \<Rightarrow> cache_config \<Rightarrow> cache_config" where
  "from_env env name parse upd cfg =
     (let s = env name in
      if s \<noteq> [] then (case parse s of Some v \<Rightarrow> upd v cfg | None \<Rightarrow> cfg) else cfg)"

definition load_config_from_env :: "environment \<Rightarrow> cache_config" where
  "load_config_from_env env =
     (let config = default_cache_config;
          config = from_env env ''REDIS_URL'' Some (\<lambda>v c. c\<lparr>redis_url := v\<rparr>) config;
          config = from_env env ''REDIS_PASSWORD'' Some (\<lambda>v c. c\<lparr>redis_password := v\<rparr>) config;
          config = from_env env ''REDIS_DB'' parse_int (\<lambda>v c. c\<lparr>redis_db := v\<rparr>) config;
          config = from_env env ''CACHE_DEFAULT_TTL'' parse_duration (\<lambda>v c. c\<lparr>default_ttl := v\<rparr>) config;
          config = from_env env ''CACHE_MAX_TTL'' parse_duration (\<lambda>v c. c\<lparr>max_ttl := v\<rparr>) config;
          config = from_env env ''CACHE_MAX_SIZE'' parse_int (\<lambda>v c. c\<lparr>max_size := v\<rparr>) config;
          config = from_env env ''CACHE_EVICTION_POLICY'' Some (\<lambda>v c. c\<lparr>eviction_policy := v\<rparr>) config;
          config = from_env env ''CACHE_REFRESH_INTERVAL'' parse_duration (\<lambda>v c. c\<lparr>refresh_interval := v\<rparr>) config;
          config = from_env env ''CACHE_REFRESH_WORKERS'' parse_int (\<lambda>v c. c\<lparr>refresh_workers := v\<rparr>) config;
          config = from_env env ''CACHE_ENABLE_FALLBACK'' parse_bool (\<lambda>v c. c\<lparr>enable_fallback := v\<rparr>) config;
          config = from_env env ''CACHE_FALLBACK_TTL'' parse_duration (\<lambda>v c. c\<lparr>fallback_ttl := v\<rparr>) config
      in config)"

subsection \<open>The caches\<close>

text \<open>\<open>CacheType\<close> is a string type with three named values.\<close>

type_synonym cache_type = string

definition cache_type_memory :: cache_type where "cache_type_memory = ''memory''"
definition cache_type_redis :: cache_type where "cache_type_redis = ''redis''"
definition cache_type_fallback :: cache_type where "cache_type_fallback = ''fallback''"

lemmas cache_type_defs = cache_type_memory_def cache_type_redis_def cache_type_fallback_def

definition get_cache_type_from_config :: "environment \<Rightarrow> cache_config \<Rightarrow> cache_type" where
  "get_cache_type_from_config env config =
     (let cache_type = env ''CACHE_TYPE'' in
      if cache_type \<noteq> [] \<and> cache_type \<in> {cache_type_memory, cache_type_redis, cache_type_fallback} then cache_type
      else if redis_url config \<noteq> [] \<and> redis_url config \<noteq> ''redis://localhost:6379'' then cache_type_fallback
      else cache_type_memory)"

datatype 'r any_cache =
    MemoryCache memory_cache
  | RedisCache "'r redis_cache"
  | FallbackCache "'r redis_cache fallback_cache"

definition create_fallback_cache ::
  "'r redis_lib \<Rightarrow> (string \<Rightarrow> go_error + parsed_url) \<Rightarrow> clock \<Rightarrow> cache_config \<Rightarrow> 'r any_cache" where
  "create_fallback_cache lib url_parse c config =
     (case new_redis_cache lib url_parse (in_call c 0) config of
        Inl err \<Rightarrow> MemoryCache (new_in_memory_cache config)
      | Inr redis_cache \<Rightarrow> FallbackCache (new_fallback_cache redis_cache config))"

definition create_cache ::
  "'r redis_lib \<Rightarrow> (string \<Rightarrow> go_error + parsed_url) \<Rightarrow> environment \<Rightarrow> clock \<Rightarrow> cache_config \<Rightarrow> go_error + 'r any_cache" where
  "create_cache lib url_parse env c config =
     (let cache_type = get_cache_type_from_config env config in
      if cache_type = cache_type_memory then Inr (MemoryCache (new_in_memory_cache config))
      else if cache_type = cache_type_redis then
        (case new_redis_cache lib url_parse (in_call c 0) config of
           Inl err \<Rightarrow> Inl err
         | Inr r \<Rightarrow> Inr (RedisCache r))
      else if cache_type = cache_type_fallback then Inr (create_fallback_cache lib url_parse (in_call c 1) config)
      else Inl (ErrorString (''unsupported cache type: '' @ cache_type)))"

definition create_cache_from_env ::
  "'r redis_lib \<Rightarrow> (string \<Rightarrow> go_error + parsed_url) \<Rightarrow> environment \<Rightarrow> clock \<Rightarrow> go_error + 'r any_cache" where
  "create_cache_from_env lib url_parse env c = create_cache lib url_parse env c (load_config_from_env env)"

text \<open>A call of a method of the interface goes to the cache that is behind it.\<close>

fun on_cache ::
  "(memory_cache \<Rightarrow> 'x \<times> memory_cache) \<Rightarrow> ('r redis_cache \<Rightarrow> 'x \<times> 'r redis_cache) \<Rightarrow>
   ('r redis_cache fallback_cache \<Rightarrow> 'x \<times> 'r redis_cache fallback_cache) \<Rightarrow> 'r any_cache \<Rightarrow> 'x \<times> 'r any_cache" where
  "on_cache f g h (MemoryCache m) = (let (x, m) = f m in (x, MemoryCache m))"
| "on_cache f g h (RedisCache r) = (let (x, r) = g r in (x, RedisCache r))"
| "on_cache f g h (FallbackCache b) = (let (x, b) = h b in (x, FallbackCache b))"

definition any_ops ::
  "memory_cache cache_ops \<Rightarrow> 'r redis_cache cache_ops \<Rightarrow> 'r redis_cache fallback_cache cache_ops \<Rightarrow> 'r any_cache cache_ops" where
  "any_ops mo ro bo =
     \<lparr>op_get = (\<lambda>c k. on_cache (op_get mo c k) (op_get ro c k) (op_get bo c k)),
      op_set = (\<lambda>c k v ttl. on_cache (op_set mo c k v ttl) (op_set ro c k v ttl) (op_set bo c k v ttl)),
      op_delete = (\<lambda>c k. on_cache (op_delete mo c k) (op_delete ro c k) (op_delete bo c k)),
      op_clear = (\<lambda>c. on_cache (op_clear mo c) (op_clear ro c) (op_clear bo c)),
      op_get_multiple = (\<lambda>c ks. on_cache (op_get_multiple mo c ks) (op_get_multiple ro c ks) (op_get_multiple bo c ks)),
      op_set_multiple = (\<lambda>c items ttl.
        on_cache (op_set_multiple mo c items ttl) (op_set_multiple ro c items ttl) (op_set_multiple bo c items ttl)),
      op_get_with_metadata = (\<lambda>c k.
        on_cache (op_get_with_metadata mo c k) (op_get_with_metadata ro c k) (op_get_with_metadata bo c k)),
      op_set_with_metadata = (\<lambda>c k e.
        on_cache (op_set_with_metadata mo c k e) (op_set_with_metadata ro c k e) (op_set_with_metadata bo c k e)),
      op_expire = (\<lambda>c k ttl. on_cache (op_expire mo c k ttl) (op_expire ro c k ttl) (op_expire bo c k ttl)),
      op_ttl = (\<lambda>c k. on_cache (op_ttl mo c k) (op_ttl ro c k) (op_ttl bo c k)),
      op_evict_expired = (\<lambda>c. on_cache (op_evict_expired mo c) (op_evict_expired ro c) (op_evict_expired bo c)),
      op_size = (\<lambda>c. on_cache (op_size mo c) (op_size ro c) (op_size bo c)),
      op_ping = (\<lambda>c. on_cache (op_ping mo c) (op_ping ro c) (op_ping bo c)),
      op_close = (\<lambda>c. on_cache (op_close mo c) (op_close ro c) (op_close bo c))\<rparr>"

definition cache_impl :: "'r redis_lib \<Rightarrow> range_order \<Rightarrow> 'r any_cache cache_ops" where
  "cache_impl lib order = any_ops (memory_ops order) (redis_ops lib) (fallback_ops (redis_ops lib) order)"

subsection \<open>Properties of the configuration\<close>

definition config_in_range :: "cache_config \<Rightarrow> bool" where
  "config_in_range cfg \<longleftrightarrow>
     in_i64 (redis_db cfg) \<and> in_i64 (default_ttl cfg) \<and> in_i64 (max_ttl cfg) \<and> in_i64 (max_size cfg) \<and>
     in_i64 (refresh_interval cfg) \<and> in_i64 (refresh_workers cfg) \<and> in_i64 (fallback_ttl cfg)"

lemma from_env_in_range:
  "config_in_range cfg \<Longrightarrow> (\<And>s v c. config_in_range c \<Longrightarrow> parse s = Some v \<Longrightarrow> config_in_range (upd v c)) \<Longrightarrow>
     config_in_range (from_env env name parse upd cfg)"
  by (simp add: from_env_def Let_def split: option.split)

lemma in_range_updates:
  assumes "config_in_range cfg"
  shows "config_in_range (cfg\<lparr>redis_url := s\<rparr>)" "config_in_range (cfg\<lparr>redis_password := s\<rparr>)"
    "config_in_range (cfg\<lparr>eviction_policy := s\<rparr>)" "config_in_range (cfg\<lparr>enable_fallback := b\<rparr>)"
    "in_i64 n \<Longrightarrow> config_in_range (cfg\<lparr>redis_db := n\<rparr>)" "in_i64 n \<Longrightarrow> config_in_range (cfg\<lparr>default_ttl := n\<rparr>)"
    "in_i64 n \<Longrightarrow> config_in_range (cfg\<lparr>max_ttl := n\<rparr>)" "in_i64 n \<Longrightarrow> config_in_range (cfg\<lparr>max_size := n\<rparr>)"
    "in_i64 n \<Longrightarrow> config_in_range (cfg\<lparr>refresh_interval := n\<rparr>)" "in_i64 n \<Longrightarrow> config_in_range (cfg\<lparr>refresh_workers := n\<rparr>)"
    "in_i64 n \<Longrightarrow> config_in_range (cfg\<lparr>fallback_ttl := n\<rparr>)"
  using assms by (simp_all add: config_in_range_def)

lemma default_in_range: "config_in_range default_cache_config"
  by (simp add: config_in_range_def default_cache_config_def duration_defs in_i64_def)

text \<open>
  Whatever the environment holds, every number of the configuration is a value of its
  Go type.
\<close>

theorem load_config_in_range: "config_in_range (load_config_from_env env)"
  unfolding load_config_from_env_def Let_def
  by (intro from_env_in_range default_in_range)
    (auto intro: in_range_updates parse_int_range parse_duration_range)

lemma new_redis_cache_error:
  "new_redis_cache lib url_parse c config = Inl err \<Longrightarrow>
     \<exists>t e. err = WrapError t e \<and> t \<in> {''failed to parse Redis URL: '', ''failed to connect to Redis: ''}"
  by (auto simp: new_redis_cache_def Let_def split: sum.splits prod.splits option.splits)

text \<open>
  C36: The factory fails only when the environment asks for the plain Redis cache and that
  cannot be made, with the reason.  A fallback cache whose Redis cannot be reached becomes
  an in-memory cache, and an unknown \<open>CACHE_TYPE\<close> counts as none.
\<close>

theorem create_cache_outcome:
  "(\<forall>err. create_cache lib url_parse env c config = Inl err \<longleftrightarrow>
      env ''CACHE_TYPE'' = ''redis'' \<and> new_redis_cache lib url_parse (in_call c 0) config = Inl err) \<and>
   (\<forall>err. env ''CACHE_TYPE'' = ''fallback'' \<and> new_redis_cache lib url_parse (in_call (in_call c 1) 0) config = Inl err \<longrightarrow>
      create_cache lib url_parse env c config = Inr (MemoryCache (new_in_memory_cache config))) \<and>
   (env ''CACHE_TYPE'' \<notin> {''memory'', ''redis'', ''fallback''} \<longrightarrow>
      create_cache lib url_parse env c config = create_cache lib url_parse (env(''CACHE_TYPE'' := [])) c config)"
proof (intro conjI)
  let ?t = "get_cache_type_from_config env config"
  have type: "?t \<in> {''memory'', ''redis'', ''fallback''}" "?t = ''redis'' \<longleftrightarrow> env ''CACHE_TYPE'' = ''redis''"
    by (auto simp: get_cache_type_from_config_def Let_def cache_type_defs)
  then consider "?t = ''memory''" "env ''CACHE_TYPE'' \<noteq> ''redis''" | "?t = ''redis''" "env ''CACHE_TYPE'' = ''redis''"
    | "?t = ''fallback''" "env ''CACHE_TYPE'' \<noteq> ''redis''" by auto
  then show "\<forall>err. create_cache lib url_parse env c config = Inl err \<longleftrightarrow>
      env ''CACHE_TYPE'' = ''redis'' \<and> new_redis_cache lib url_parse (in_call c 0) config = Inl err"
    by cases (auto simp: create_cache_def Let_def cache_type_defs split: sum.splits)
  show "\<forall>err. env ''CACHE_TYPE'' = ''fallback'' \<and> new_redis_cache lib url_parse (in_call (in_call c 1) 0) config = Inl err \<longrightarrow>
      create_cache lib url_parse env c config = Inr (MemoryCache (new_in_memory_cache config))"
    by (simp add: create_cache_def create_fallback_cache_def get_cache_type_from_config_def cache_type_defs Let_def)
  show "env ''CACHE_TYPE'' \<notin> {''memory'', ''redis'', ''fallback''} \<longrightarrow>
      create_cache lib url_parse env c config = create_cache lib url_parse (env(''CACHE_TYPE'' := [])) c config"
    by (simp add: create_cache_def get_cache_type_from_config_def cache_type_defs)
qed

definition dead_redis :: "(string \<Rightarrow> string option) redis_lib" where
  "dead_redis = sample_lib\<lparr>rc_ping := (\<lambda>c r. (Some DeadlineExceeded, r))\<rparr>"

definition sample_url_parse :: "string \<Rightarrow> go_error + parsed_url" where
  "sample_url_parse s = Inr \<lparr>url_host = ''localhost:6379'', url_user = None, url_path = []\<rparr>"

theorem create_cache_outcome_witness:
  "create_cache dead_redis sample_url_parse ((\<lambda>_. [])(''CACHE_TYPE'' := ''fallback'')) (\<lambda>_. 0) default_cache_config =
     Inr (MemoryCache (new_in_memory_cache default_cache_config))"
proof -
  let ?env = "(\<lambda>_. [])(''CACHE_TYPE'' := ''fallback'') :: environment"
  have "?env ''CACHE_TYPE'' = ''fallback'' \<and>
      new_redis_cache dead_redis sample_url_parse (in_call (in_call (\<lambda>_. 0) 1) 0) default_cache_config =
        Inl (WrapError ''failed to connect to Redis: '' DeadlineExceeded)"
    by (simp add: new_redis_cache_def parse_redis_url_def dead_redis_def sample_url_parse_def sample_lib_def)
  with create_cache_outcome [THEN conjunct2, THEN conjunct1, rule_format, of ?env dead_redis sample_url_parse "\<lambda>_. 0"]
  show ?thesis by blast
qed

text \<open>A setting that the other variables leave alone.\<close>

lemma from_env_other: "(\<And>v c. F (upd v c) = F c) \<Longrightarrow> F (from_env env name parse upd cfg) = F cfg"
  by (simp add: from_env_def Let_def split: option.split)

lemma from_env_this: "(\<And>v c. F (upd v c) = v) \<Longrightarrow> F (from_env env name parse upd cfg) =
    (case (if env name = [] then None else parse (env name)) of Some v \<Rightarrow> v | None \<Rightarrow> F cfg)"
  by (simp add: from_env_def Let_def split: option.split)

lemma parse_duration_empty: "parse_duration [] = None"
  by code_simp

lemma load_config_refresh_interval: "refresh_interval (load_config_from_env env) =
    (case parse_duration (env ''CACHE_REFRESH_INTERVAL'') of Some d \<Rightarrow> d | None \<Rightarrow> 30 * second)"
  by (simp add: load_config_from_env_def Let_def from_env_other [where F = refresh_interval]
      from_env_this [where F = refresh_interval] parse_duration_empty default_cache_config_def
      cong: option.case_cong)

lemma load_config_max_ttl: "max_ttl (load_config_from_env env) =
    (case parse_duration (env ''CACHE_MAX_TTL'') of Some d \<Rightarrow> d | None \<Rightarrow> 24 * hour)"
  by (simp add: load_config_from_env_def Let_def from_env_other [where F = max_ttl]
      from_env_this [where F = max_ttl] parse_duration_empty default_cache_config_def
      cong: option.case_cong)

lemma load_config_fallback_ttl: "fallback_ttl (load_config_from_env env) =
    (case parse_duration (env ''CACHE_FALLBACK_TTL'') of Some d \<Rightarrow> d | None \<Rightarrow> 5 * minute)"
  by (simp add: load_config_from_env_def Let_def from_env_other [where F = fallback_ttl]
      from_env_this [where F = fallback_ttl] parse_duration_empty default_cache_config_def
      cong: option.case_cong)

lemma load_config_redis_url: "redis_url (load_config_from_env env) =
    (if env ''REDIS_URL'' = [] then ''redis://localhost:6379'' else env ''REDIS_URL'')"
  by (simp add: load_config_from_env_def Let_def from_env_other [where F = redis_url]
      from_env_this [where F = redis_url] default_cache_config_def)

lemma fallback_made_with_config:
  "create_cache_from_env lib url_parse env c = Inr (FallbackCache f) \<Longrightarrow> fc_config f = load_config_from_env env"
  by (auto simp: create_cache_from_env_def create_cache_def create_fallback_cache_def new_fallback_cache_def Let_def
      split: if_splits sum.splits)

subsection \<open>The contract for whichever cache was made\<close>

fun any_ok ::
  "(memory_cache \<Rightarrow> bool) \<Rightarrow> ('r redis_cache \<Rightarrow> bool) \<Rightarrow> ('r redis_cache fallback_cache \<Rightarrow> bool) \<Rightarrow> 'r any_cache \<Rightarrow> bool" where
  "any_ok p q r (MemoryCache m) = p m"
| "any_ok p q r (RedisCache d) = q d"
| "any_ok p q r (FallbackCache f) = r f"

fun any_serves ::
  "(memory_cache \<Rightarrow> served) \<Rightarrow> ('r redis_cache \<Rightarrow> served) \<Rightarrow> ('r redis_cache fallback_cache \<Rightarrow> served) \<Rightarrow>
   'r any_cache \<Rightarrow> served" where
  "any_serves p q r (MemoryCache m) = p m"
| "any_serves p q r (RedisCache d) = q d"
| "any_serves p q r (FallbackCache f) = r f"

lemma serve_also_later: "d \<le> d' \<Longrightarrow> serves_less (serve_also k v d a) (serve_also k v d' a)"
  by (auto simp: serves_less_def serve_also_def split: if_splits)

lemma any_value_store:
  assumes "value_store mo p1 s1 l1 slack" and "value_store ro p2 s2 l2 slack" and "value_store bo p3 s3 l3 slack"
    and "\<And>ttl. l1 ttl \<le> l ttl" and "\<And>ttl. l2 ttl \<le> l ttl" and "\<And>ttl. l3 ttl \<le> l ttl"
  shows "value_store (any_ops mo ro bo) (any_ok p1 p2 p3) (any_serves s1 s2 s3) l slack"
proof (unfold_locales, goal_cases)
  case (1 s c k)
  then show ?case
    by (cases s) (auto simp: any_ops_def split_beta intro: assms(1-3) [THEN value_store.get_ok])
next
  case (2 s c k v)
  then show ?case
    by (cases s) (auto simp: any_ops_def split_beta dest: assms(1-3) [THEN value_store.get_serves])
next
  case (3 s c k)
  then show ?case
    by (cases s) (auto simp: any_ops_def split_beta intro: assms(1-3) [THEN value_store.get_keeps])
next
  case (4 s c k v ttl)
  then show ?case
    by (cases s) (auto simp: any_ops_def split_beta intro: assms(1-3) [THEN value_store.set_ok])
next
  case (5 s c k v ttl)
  have later: "serves_less (serve_also k v (c [] + l1 ttl) a) (serve_also k v (c [] + l ttl) a)"
    "serves_less (serve_also k v (c [] + l2 ttl) a) (serve_also k v (c [] + l ttl) a)"
    "serves_less (serve_also k v (c [] + l3 ttl) a) (serve_also k v (c [] + l ttl) a)" for a
    using assms(4-6) by (simp_all add: serve_also_later)
  from 5 show ?case
    by (cases s) (auto simp: any_ops_def split_beta
      intro: serves_less_trans [OF value_store.set_serves [OF assms(1), of _ c k v ttl] later(1)]
        serves_less_trans [OF value_store.set_serves [OF assms(2), of _ c k v ttl] later(2)]
        serves_less_trans [OF value_store.set_serves [OF assms(3), of _ c k v ttl] later(3)])
next
  case (6 s c k)
  then show ?case
    by (cases s) (auto simp: any_ops_def split_beta intro: assms(1-3) [THEN value_store.delete_ok])
next
  case (7 s c k)
  then show ?case
    by (cases s) (auto simp: any_ops_def split_beta intro: assms(1-3) [THEN value_store.delete_keeps])
next
  case (8 s c)
  then show ?case
    by (cases s) (auto simp: any_ops_def split_beta intro: assms(1-3) [THEN value_store.clear_ok])
next
  case (9 s c)
  then show ?case
    by (cases s) (auto simp: any_ops_def split_beta intro: assms(1-3) [THEN value_store.clear_keeps])
next
  case (10 s c)
  then show ?case
    by (cases s) (auto simp: any_ops_def split_beta intro: assms(1-3) [THEN value_store.evict_ok])
next
  case (11 s c)
  then show ?case
    by (cases s) (auto simp: any_ops_def split_beta intro: assms(1-3) [THEN value_store.evict_keeps])
qed

end
