(* ===== verification/Service_Main.thy ===== *)
theory Service_Main
  imports Http_Server Kraken_Client Cache_Factory
begin

text \<open>
  \<open>cmd/server/main.go\<close>: how the parts are put together from the environment, the function
  that the background refresh calls, the loop that updates the gauges, and the end of the
  process.  The world behind the server is the cache and the Kraken client, which the
  service, the health checks and the background refresh share.
\<close>

declare One_nat_def [simp del]

subsection \<open>Settings\<close>

definition getenv :: "environment \<Rightarrow> string \<Rightarrow> string \<Rightarrow> string" where
  "getenv env key def = (let v = env key in if v \<noteq> [] then v else def)"

definition get_duration :: "environment \<Rightarrow> string \<Rightarrow> duration \<Rightarrow> duration" where
  "get_duration env key def =
     (let v = env key in
      if v \<noteq> [] then (case parse_duration v of Some d \<Rightarrow> d | None \<Rightarrow> def) else def)"

subsection \<open>The parts\<close>

text \<open>
  What the program runs on.  \<open>pf_ctx\<close> gives the context of the call that runs on a clock,
  and \<open>pf_with_timeout\<close> is \<open>context.WithTimeout\<close>.
\<close>

record ('c, 'h, 'r) platform =
  pf_unicode :: go_unicode
  pf_redis :: "'r redis_lib"
  pf_url_parse :: "string \<Rightarrow> go_error + parsed_url"
  pf_order :: range_order
  pf_transport :: "('c, 'h) transport"
  pf_ctx :: "clock \<Rightarrow> 'c"
  pf_with_timeout :: "'c \<Rightarrow> duration \<Rightarrow> 'c"
  pf_random :: "nat \<Rightarrow> f64"

type_synonym ('r, 'h) app_world = "'r any_cache \<times> 'h client"

definition cache_of :: "('c, 'h, 'r) platform \<Rightarrow> 'r any_cache price_cache" where
  "cache_of p = legacy_cache (cache_impl (pf_redis p) (pf_order p))"

definition kraken_of :: "('c, 'h, 'r) platform \<Rightarrow> 'h client kraken_api" where
  "kraken_of p c = get_ticker_prices (pf_transport p) (pf_ctx p c) c"

definition service ::
  "('c, 'h, 'r) platform \<Rightarrow> clock \<Rightarrow> string list \<Rightarrow> ('r, 'h) app_world \<Rightarrow>
   (go_error + quote list) \<times> ('r, 'h) app_world" where
  "service p = get_ltp (pf_unicode p) (cache_of p) (kraken_of p)"

definition on_cache_state :: "'s health_check \<Rightarrow> ('s \<times> 'k) health_check" where
  "on_cache_state check c w = (let (s, k) = w; (result, s) = check c s in (result, s, k))"

definition on_client_state :: "'k health_check \<Rightarrow> ('s \<times> 'k) health_check" where
  "on_client_state check c w = (let (s, k) = w; (result, k) = check c k in (result, s, k))"

definition main_checks :: "('c, 'h, 'r) platform \<Rightarrow> ('r, 'h) app_world checker" where
  "main_checks p =
     [on_cache_state (legacy_cache_check (Some (cache_of p))),
      on_client_state (kraken_check (Some (\<lambda>d c. get_ticker_prices (pf_transport p) (pf_with_timeout p (pf_ctx p c) d) c)))]"

fun any_start_background_refresh :: "'r any_cache \<Rightarrow> 'r any_cache" where
  "any_start_background_refresh (FallbackCache f) = FallbackCache (start_background_refresh f)"
| "any_start_background_refresh (MemoryCache m) = MemoryCache m"
| "any_start_background_refresh (RedisCache r) = RedisCache r"

fun any_stop_background_refresh :: "'r any_cache \<Rightarrow> 'r any_cache" where
  "any_stop_background_refresh (FallbackCache f) = FallbackCache (stop_background_refresh f)"
| "any_stop_background_refresh (MemoryCache m) = MemoryCache m"
| "any_stop_background_refresh (RedisCache r) = RedisCache r"

text \<open>The start of the process: \<open>log.Fatalf\<close> and a panic end it, with the text that is written.\<close>

definition main_setup ::
  "('c, 'h, 'r) platform \<Rightarrow> environment \<Rightarrow> clock \<Rightarrow> 'h \<Rightarrow> string + ('r, 'h) app_world server" where
  "main_setup p env c h =
     (let listen_addr = getenv env ''HTTP_ADDR'' '':8080'';
          kraken_url = getenv env ''KRAKEN_URL'' ''https://api.kraken.com'';
          timeout = get_duration env ''HTTP_TIMEOUT'' (3 * second)
      in case create_cache_from_env (pf_redis p) (pf_url_parse p) env (in_call c 0) of
           Inl err \<Rightarrow> Inl (''Failed to create cache: '' @ err_text err)
         | Inr cache \<Rightarrow>
             (let http_client = new_http_client timeout;
                  kclient = new_client (pf_random p) kraken_url (Some http_client) h
              in case new_server (now_at c 1) listen_addr (service p) (cache, kclient) of
                   Inl panic \<Rightarrow> Inl panic
                 | Inr srv \<Rightarrow>
                     (let srv = fold add_health_check (main_checks p) srv
                      in Inr (srv\<lparr>world := (any_start_background_refresh cache, kclient)\<rparr>))))"

subsection \<open>Background refresh\<close>

definition main_refresh ::
  "('c, 'h, 'r) platform \<Rightarrow> cache_config \<Rightarrow> clock \<Rightarrow> string \<Rightarrow> ('r, 'h) app_world \<Rightarrow>
   (go_error + go_any \<times> duration) \<times> ('r, 'h) app_world" where
  "main_refresh p cfg c key w =
     (case service p (in_call c 0) [key] w of
        (Inl err, w) \<Rightarrow> (Inl err, w)
      | (Inr [], w) \<Rightarrow> (Inl (ErrorString (''no quotes returned for key: '' @ key)), w)
      | (Inr (q # qs), w) \<Rightarrow> (Inr (AnyFloat (quote_amount q), default_ttl cfg), w))"

text \<open>The same function as the fallback cache sees it: the cache the service uses is the cache itself.\<close>

definition fallback_refresh ::
  "('c, 'h, 'r) platform \<Rightarrow> cache_config \<Rightarrow> ('r redis_cache, 'h client) refresh_func" where
  "fallback_refresh p cfg c key st =
     (let (f, k) = st in
      case main_refresh p cfg c key (FallbackCache f, k) of
        (res, FallbackCache f, k) \<Rightarrow> (res, f, k)
      | (res, _, k) \<Rightarrow> (res, f, k))"

subsection \<open>The gauges and the end\<close>

datatype updater_event = UpdaterTick instant | UpdaterDone

fun metrics_updater :: "updater_event list \<Rightarrow> 'w server \<Rightarrow> 'w server" where
  "metrics_updater [] s = s"
| "metrics_updater (UpdaterTick now # es) s = metrics_updater es (update_rate_limit_metrics now s)"
| "metrics_updater (UpdaterDone # es) s = s"

text \<open>What \<open>main\<close> receives last, and the deferred calls, the latest first.\<close>

datatype main_event = SignalDone | ServeEnded "go_error option"

text \<open>\<open>listen\<close> is the error of \<open>http.Server.ListenAndServe\<close>, which the listening goroutine sends.\<close>

definition server_start :: "(http_server \<Rightarrow> go_error option) \<Rightarrow> 'w server \<Rightarrow> go_error option" where
  "server_start listen s = listen (http_srv s)"

definition listener :: "(http_server \<Rightarrow> go_error option) \<Rightarrow> 'w server \<Rightarrow> main_event" where
  "listener listen s = ServeEnded (server_start listen s)"

definition main_exit ::
  "('c, 'h, 'r) platform \<Rightarrow> (http_server \<Rightarrow> go_error option) \<Rightarrow> main_event \<Rightarrow> clock \<Rightarrow>
   ('r, 'h) app_world server \<Rightarrow> string + ('r, 'h) app_world server" where
  "main_exit p http_shutdown e c s =
     (case (case e of SignalDone \<Rightarrow> map_sum id snd (shutdown http_shutdown s) | ServeEnded _ \<Rightarrow> Inr s) of
        Inl panic \<Rightarrow> Inl panic
      | Inr s \<Rightarrow>
          (let (cache, k) = world s;
               cache = any_stop_background_refresh cache;
               (err, cache) = op_close (cache_impl (pf_redis p) (pf_order p)) (in_call c 0) cache
           in Inr (s\<lparr>world := (cache, k)\<rparr>)))"

subsection \<open>The keys of the cache\<close>

definition slash_free :: "'p fallback_cache \<Rightarrow> bool" where
  "slash_free f \<longleftrightarrow> mem_ok (fallback_config (fc_config f)) (fallback f) \<and>
     (\<forall>k. held (fallback f) k \<noteq> None \<longrightarrow> CHR ''/'' \<notin> set k) \<and> (\<forall>k\<in>set (refresh_ch f). CHR ''/'' \<notin> set k)"

lemma slash_free_update:
  assumes "slash_free f" and "fc_config f' = fc_config f" and "mem_ok (fallback_config (fc_config f)) (fallback f')"
    and "\<And>k e. held (fallback f') k = Some e \<Longrightarrow> held (fallback f) k \<noteq> None \<or> CHR ''/'' \<notin> set k"
    and "\<And>k. k \<in> set (refresh_ch f') \<Longrightarrow> k \<in> set (refresh_ch f) \<or> CHR ''/'' \<notin> set k"
  shows "slash_free f'"
  using assms unfolding slash_free_def by fastforce

lemma set_fallback_channel [simp]: "refresh_ch (set_fallback order c k v f) = refresh_ch f"
  by (simp add: set_fallback_def)

lemma slash_free_set_fallback:
  assumes "slash_free f" and "CHR ''/'' \<notin> set k"
  shows "slash_free (set_fallback order c k v (f\<lparr>primary := p\<rparr>))"
proof (rule slash_free_update [OF assms(1)])
  have m: "mem_ok (fallback_config (fc_config f)) (fallback f)" using assms(1) by (simp add: slash_free_def)
  show "mem_ok (fallback_config (fc_config f)) (fallback (set_fallback order c k v (f\<lparr>primary := p\<rparr>)))"
    using m by (simp add: mem_set_ok)
  fix k' e
  assume "held (fallback (set_fallback order c k v (f\<lparr>primary := p\<rparr>))) k' = Some e"
  then show "held (fallback f) k' \<noteq> None \<or> CHR ''/'' \<notin> set k'"
    using mem_set_held [OF m] assms(2) by (fastforce split: if_splits)
qed simp_all

lemma slash_free_get:
  assumes "slash_free f" and "CHR ''/'' \<notin> set k"
  shows "slash_free (snd (fb_get ops order c k f))"
proof (cases "\<exists>v. fst (op_get ops (in_call c 0) k (primary f)) = Inr (Some v)")
  case True
  then show ?thesis using fb_get_hit [of ops c k f _ order] slash_free_set_fallback [OF assms] by auto
next
  case False
  have m: "mem_ok (fallback_config (fc_config f)) (fallback f)" using assms(1) by (simp add: slash_free_def)
  have "slash_free (f\<lparr>primary := p, fallback := snd (mem_get c' k (fallback f))\<rparr>)" for p c'
    by (rule slash_free_update [OF assms(1)]) (use mem_get_held [OF m] mem_get_ok [OF m] in auto)
  then show ?thesis using False fb_get_miss [of ops c k f order] by auto
qed

lemma slash_free_set: "slash_free f \<Longrightarrow> CHR ''/'' \<notin> set k \<Longrightarrow> slash_free (snd (fb_set ops order c k v ttl f))"
  by (simp add: fb_set_eq slash_free_set_fallback)

lemma slash_free_evict: 
  assumes "slash_free f"
  shows "slash_free (snd (fb_evict_expired ops order c f))"
proof -
  have m: "mem_ok (fallback_config (fc_config f)) (fallback f)" using assms by (simp add: slash_free_def)
  show ?thesis unfolding fb_evict_expired_snd
    by (rule slash_free_update [OF assms]) (use mem_evict_expired_held [OF m] in auto)
qed

lemma slash_free_start: "slash_free (new_fallback_cache p cfg)"
  by (simp add: slash_free_def new_fallback_cache_def new_cache_ok new_cache_held)

lemma expiring_keys_in: "k \<in> set (expiring_keys_loop c i th es) \<Longrightarrow> k \<in> fst ` set es"
proof (induction es arbitrary: i)
  case (Cons x es)
  obtain key entry where x: "x = (key, entry)" by fastforce
  have "k = key \<or> k \<in> set (expiring_keys_loop c (i + 2) th es)"
    using Cons.prems by (auto simp: x Let_def simp del: add_2_eq_Suc' split: if_splits)
  then show ?case using Cons.IH by (auto simp: x)
qed simp

lemma get_expiring_keys_held:
  assumes "is_order order" and "k \<in> set (get_expiring_keys order c th m)"
  shows "held m k \<noteq> None"
proof -
  have "k \<in> fst ` set (mc_data m)"
    using expiring_keys_in [OF assms(2) [unfolded get_expiring_keys_def]] is_orderD(3) [OF assms(1)] by simp
  then show ?thesis by (simp add: gm_get_def map_of_eq_None_iff)
qed

lemma channel_same: "\<exists>ch. f = f\<lparr>refresh_ch := ch\<rparr>"
  by (rule exI [of _ "refresh_ch f"]) simp

lemma try_sends: "\<exists>ch. fold try_send ks f = f\<lparr>refresh_ch := ch\<rparr> \<and> set ch \<subseteq> set ks \<union> set (refresh_ch f)"
proof (induction ks arbitrary: f)
  case Nil
  then show ?case by (auto intro: exI [of _ "refresh_ch f"])
next
  case (Cons k ks)
  obtain ch where ch: "try_send k f = f\<lparr>refresh_ch := ch\<rparr>" "set ch \<subseteq> insert k (set (refresh_ch f))"
  proof (cases "length (refresh_ch f) < 1000")
    case True
    then show ?thesis by (intro that [of "refresh_ch f @ [k]"]) (auto simp: try_send_def)
  next
    case False
    then show ?thesis by (intro that [of "refresh_ch f"]) (auto simp: try_send_def)
  qed
  obtain ch' where "fold try_send ks (f\<lparr>refresh_ch := ch\<rparr>) = f\<lparr>refresh_ch := ch, refresh_ch := ch'\<rparr>"
    "set ch' \<subseteq> set ks \<union> set ch" using Cons.IH [of "f\<lparr>refresh_ch := ch\<rparr>"] by auto
  then show ?case using ch by (auto intro: exI [of _ ch'])
qed

lemma refresh_expiring_channel:
  assumes "is_order order" and "slash_free f"
  obtains ch where "refresh_expiring_keys order c f = f\<lparr>refresh_ch := ch\<rparr>" and "slash_free (f\<lparr>refresh_ch := ch\<rparr>)"
proof -
  let ?ks = "get_expiring_keys order (in_call c 0) (to_f64 (1 / 10)) (fallback f)"
  obtain ch where ch: "fold try_send ?ks f = f\<lparr>refresh_ch := ch\<rparr>" "set ch \<subseteq> set ?ks \<union> set (refresh_ch f)"
    using try_sends by blast
  have "slash_free (f\<lparr>refresh_ch := ch\<rparr>)"
  proof (rule slash_free_update [OF assms(2)])
    fix k
    assume "k \<in> set (refresh_ch (f\<lparr>refresh_ch := ch\<rparr>))"
    then have "k \<in> set ?ks \<or> k \<in> set (refresh_ch f)" using ch(2) by auto
    then show "k \<in> set (refresh_ch f) \<or> CHR ''/'' \<notin> set k"
      using get_expiring_keys_held [OF assms(1)] assms(2) by (auto simp: slash_free_def)
  qed (use assms(2) in \<open>auto simp: slash_free_def\<close>)
  then show thesis using that ch(1) by (simp add: refresh_expiring_keys_def)
qed

lemma fallback_refresh_fails:
  assumes "keeps_slashes (pf_unicode p)" and "CHR ''/'' \<notin> set key"
  shows "\<exists>e. fallback_refresh p cfg c key (f, k) = (Inl e, f, k)"
proof -
  obtain e where "normalize_user_pair (pf_unicode p) key = Inl e"
    using normalize_keeps_slashes [OF assms] by blast
  then show ?thesis by (simp add: fallback_refresh_def main_refresh_def service_def get_ltp_def)
qed

lemma worker_moves_keys_only:
  assumes "is_order order" and "keeps_slashes (pf_unicode p)" and "slash_free f"
    and "refresh_worker_loop ops order (fallback_refresh p cfg) es (f, k) = (f', k')"
  shows "k' = k \<and> (\<exists>ch. f' = f\<lparr>refresh_ch := ch\<rparr> \<and> slash_free f')"
  using assms(3,4)
proof (induction es arbitrary: f)
  case Nil
  then show ?case using channel_same by auto
next
  case (Cons e es)
  show ?case
  proof (cases e)
    case (RefreshCh c)
    show ?thesis
    proof (cases "refresh_ch f")
      case Nil
      then show ?thesis using Cons RefreshCh by simp
    next
      case ch: (Cons key keys)
      let ?f = "f\<lparr>refresh_ch := keys\<rparr>"
      have f: "slash_free ?f" "CHR ''/'' \<notin> set key" using Cons.prems(1) ch by (simp_all add: slash_free_def)
      obtain err where "fallback_refresh p cfg (in_call c 0) key (?f, k) = (Inl err, ?f, k)"
        using fallback_refresh_fails [OF assms(2) f(2)] by blast
      then show ?thesis using Cons.prems(2) Cons.IH [OF f(1)] RefreshCh ch by (auto simp: refresh_key_def)
    qed
  next
    case (RefreshTick c)
    obtain ch where ch: "refresh_expiring_keys order c f = f\<lparr>refresh_ch := ch\<rparr>" "slash_free (f\<lparr>refresh_ch := ch\<rparr>)"
      using assms(1) Cons.prems(1) by (rule refresh_expiring_channel)
    then show ?thesis using Cons.prems(2) Cons.IH [OF ch(2)] RefreshTick by auto
  qed (use Cons.prems channel_same in auto)
qed

subsection \<open>Reachable states\<close>

text \<open>
  The steps of the running process, each of them atomic: a request, one thing that a
  refresh worker or the cleanup worker of the cache receives, a run of the limiter's
  cleanup, and an update of the gauges.
\<close>

inductive reachable ::
  "('c, 'h, 'r) platform \<Rightarrow> environment \<Rightarrow> ('r, 'h) app_world externals \<Rightarrow> ('r, 'h) app_world server \<Rightarrow> bool"
  for p env ext where
  started: "main_setup p env c h = Inr s \<Longrightarrow> reachable p env ext s"
| request: "reachable p env ext s \<Longrightarrow> server_handler (pf_unicode p) ext c r (new_response, s) = (out, w, s') \<Longrightarrow>
    reachable p env ext s'"
| refresh: "reachable p env ext s \<Longrightarrow> world s = (FallbackCache f, k) \<Longrightarrow>
    refresh_worker_loop (redis_ops (pf_redis p)) (pf_order p) (fallback_refresh p (load_config_from_env env)) [e] (f, k) =
      (f', k') \<Longrightarrow>
    reachable p env ext (s\<lparr>world := (FallbackCache f', k')\<rparr>)"
| evict: "reachable p env ext s \<Longrightarrow> world s = (FallbackCache f, k) \<Longrightarrow>
    reachable p env ext
      (s\<lparr>world := (FallbackCache (cleanup_worker (redis_ops (pf_redis p)) (pf_order p) [ce] f), k)\<rparr>)"
| forget: "reachable p env ext s \<Longrightarrow> reachable p env ext (s\<lparr>limiter := cleanup now (limiter s)\<rparr>)"
| gauges: "reachable p env ext s \<Longrightarrow> reachable p env ext (update_rate_limit_metrics now s)"

fun any_slash_free :: "'r any_cache \<Rightarrow> bool" where
  "any_slash_free (MemoryCache m) = True"
| "any_slash_free (RedisCache r) = True"
| "any_slash_free (FallbackCache f) = slash_free f"

definition app_inv :: "('c, 'h, 'r) platform \<Rightarrow> ('r, 'h) app_world server \<Rightarrow> bool" where
  "app_inv p s \<longleftrightarrow> svc s = service p \<and> health_checker s = main_checks p \<and>
     config (limiter s) = default_rl_config \<and> \<not> stop_closed (limiter s) \<and> any_slash_free (fst (world s))"

lemma any_slash_free_get:
  "any_slash_free s \<Longrightarrow> CHR ''/'' \<notin> set k \<Longrightarrow> any_slash_free (snd (pc_get (cache_of p) c k s))"
  by (cases s) (auto simp: cache_of_def legacy_cache_def legacy_get_def cache_impl_def any_ops_def fallback_ops_def
      split_beta intro: slash_free_get)

lemma any_slash_free_set:
  "any_slash_free s \<Longrightarrow> CHR ''/'' \<notin> set k \<Longrightarrow> any_slash_free (pc_set (cache_of p) c k v s)"
  by (cases s) (auto simp: cache_of_def legacy_cache_def legacy_set_def cache_impl_def any_ops_def fallback_ops_def
      split_beta intro: slash_free_set)

lemma service_slash_free:
  assumes "any_slash_free (fst w)"
  shows "any_slash_free (fst (snd (service p c ps w)))"
proof -
  obtain s k where w: "w = (s, k)" by fastforce
  have "any_slash_free s" using assms by (simp add: w)
  from any_slash_free_get any_slash_free_set kraken_symbol_no_slash this show ?thesis
    unfolding service_def w by (rule get_ltp_preserves)
qed

lemma checks_slash_free:
  assumes "any_slash_free (fst w)"
  shows "any_slash_free (fst (snd (readiness_check (main_checks p) c w)))"
proof -
  obtain s k where w: "w = (s, k)" by fastforce
  have "any_slash_free (snd (legacy_cache_check (Some (cache_of p)) c' s))" for c'
    using assms by (simp add: w legacy_cache_check_def Let_def split_beta any_slash_free_get any_slash_free_set)
  then show ?thesis
    by (simp add: w readiness_check_def main_checks_def on_cache_state_def on_client_state_def Let_def split_beta)
qed

lemma app_inv_stable: "stable (app_inv p)"
  unfolding stable_def
proof (intro allI impI conjI)
  fix s
  assume "app_inv p s"
  then have s: "svc s = service p" "health_checker s = main_checks p" "config (limiter s) = default_rl_config"
    "any_slash_free (fst (world s))" "\<not> stop_closed (limiter s)" by (simp_all add: app_inv_def)
  have rate: "per_ip_refill_rate (config (limiter s)) \<noteq> 0" by (simp add: s default_rl_config_def)
  show "app_inv p (s\<lparr>world := snd (svc s c ps (world s))\<rparr>)" for c ps
    using service_slash_free [OF s(4)] s by (simp add: app_inv_def)
  show "app_inv p (s\<lparr>world := snd (readiness_check (health_checker s) c (world s))\<rparr>)" for c
    using checks_slash_free [OF s(4)] s by (simp add: app_inv_def)
  show "app_inv p (s\<lparr>limiter := snd (limiter_allow c ip (limiter s))\<rparr>)" for c ip
    using s limiter_allow_config [OF rate] limiter_allow_stop [OF rate] by (simp add: app_inv_def)
  show "app_inv p (s\<lparr>server_log := xs\<rparr>)" and "app_inv p (s\<lparr>http_metrics := ms\<rparr>)" for xs ms
    using s by (simp_all add: app_inv_def)
qed

definition foreign_handlers :: "'w externals \<Rightarrow> bool" where
  "foreign_handlers ext \<longleftrightarrow>
     (\<forall>c r st. snd (snd (ext_metrics ext c r st)) = snd st \<and> snd (snd (ext_other_path ext c r st)) = snd st)"

lemma main_setup_inv:
  assumes "main_setup p env c h = Inr s"
  shows "app_inv p s"
proof -
  obtain cache where cache: "create_cache_from_env (pf_redis p) (pf_url_parse p) env (in_call c 0) = Inr cache"
    using assms by (auto simp: main_setup_def Let_def split: sum.splits)
  have "any_slash_free cache"
    using cache by (auto simp: create_cache_from_env_def create_cache_def create_fallback_cache_def Let_def
        slash_free_start split: if_splits sum.splits)
  then have "any_slash_free (any_start_background_refresh cache)"
    by (cases cache) (simp_all add: start_background_refresh_def slash_free_def)
  then show ?thesis
    using assms cache
    by (auto simp: main_setup_def Let_def new_server_def new_rate_limiter_def add_health_check_def add_check_def
        new_checker_def main_checks_def app_inv_def split: sum.splits)
qed

lemma reachable_inv:
  assumes "is_order (pf_order p)" and "keeps_slashes (pf_unicode p)" and "foreign_handlers ext"
  shows "reachable p env ext s \<Longrightarrow> app_inv p s"
proof (induction rule: reachable.induct)
  case (started c h s)
  then show ?case by (rule main_setup_inv)
next
  case (request s c r out w s')
  have "handler_keeps (app_inv p) (server_handler (pf_unicode p) ext)"
    using assms(3) by (intro keeps_server_handler app_inv_stable) (simp_all add: handler_keeps_def foreign_handlers_def)
  then show ?case using request by (blast intro: keeps_result)
next
  case (refresh s f k e f' k')
  then have "slash_free f" by (simp add: app_inv_def)
  then show ?case using worker_moves_keys_only [OF assms(1,2) _ refresh.hyps(3)] refresh.IH
    by (auto simp: app_inv_def)
next
  case (evict s f k ce)
  then have f: "slash_free f" by (simp add: app_inv_def)
  then have "slash_free (cleanup_worker (redis_ops (pf_redis p)) (pf_order p) [ce] f)"
    by (cases ce) (simp_all add: slash_free_evict)
  then show ?case using evict.IH by (simp add: app_inv_def)
next
  case (forget s now)
  then show ?case by (simp add: app_inv_def)
next
  case (gauges s now)
  then show ?case by (simp add: app_inv_def update_rate_limit_metrics_def split_beta Let_def)
qed

subsection \<open>Properties of the running service\<close>

text \<open>
  C6: The background refresh never refreshes: the keys of the cache are Kraken symbols,
  which the service does not take for pairs.  In every reachable state, whatever a worker
  receives, it leaves both caches, the client and the network as they were; it only moves
  keys through the channel.
\<close>

theorem background_refresh_never_refreshes:
  assumes "is_order (pf_order p)" and "keeps_slashes (pf_unicode p)" and "foreign_handlers ext"
    and "reachable p env ext s" and "world s = (FallbackCache f, k)"
    and "refresh_worker_loop (redis_ops (pf_redis p)) (pf_order p) (fallback_refresh p (load_config_from_env env)) es (f, k) =
      (f', k')"
  shows "k' = k \<and> (\<exists>ch. f' = f\<lparr>refresh_ch := ch\<rparr>)"
proof -
  have "slash_free f" using reachable_inv [OF assms(1-4)] assms(5) by (simp add: app_inv_def)
  from worker_moves_keys_only [OF assms(1,2) this assms(6)] show ?thesis by blast
qed

text \<open>A platform on which the factory makes a fallback cache, and the process it starts.\<close>

definition sample_platform :: "(unit, http_reply list, string \<Rightarrow> string option) platform" where
  "sample_platform =
     \<lparr>pf_unicode = no_unicode, pf_redis = sample_lib, pf_url_parse = sample_url_parse, pf_order = rev,
      pf_transport = sample_transport, pf_ctx = (\<lambda>_. ()), pf_with_timeout = (\<lambda>_ _. ()), pf_random = (\<lambda>_. Fin 0)\<rparr>"

definition fallback_env :: environment where
  "fallback_env = (\<lambda>_. [])(''CACHE_TYPE'' := ''fallback'')"

definition quiet_externals :: "'w externals" where
  "quiet_externals =
     \<lparr>ext_metrics = (\<lambda>c r st. (Returned, st)), ext_valid_label = is_ascii, ext_other_path = (\<lambda>c r st. (Returned, st)),
      ext_file_missing = True, ext_serve_file = (\<lambda>r w. w)\<rparr>"

lemma quiet_foreign: "foreign_handlers quiet_externals"
  by (simp add: foreign_handlers_def quiet_externals_def)

lemma sample_platform_ok: "is_order (pf_order sample_platform)" "keeps_slashes (pf_unicode sample_platform)"
  by (auto simp: sample_platform_def keeps_slashes_def no_unicode_def dest: upper_byte_slash [THEN iffD1, OF sym])

lemma fallback_config: "load_config_from_env fallback_env = default_cache_config"
  by (simp add: load_config_from_env_def from_env_def fallback_env_def)

lemma sample_cache: "create_cache_from_env sample_lib sample_url_parse fallback_env c =
    Inr (FallbackCache (new_fallback_cache \<lparr>rd_client = (\<lambda>_. None), rd_config = default_cache_config\<rparr> default_cache_config))"
  by (simp add: create_cache_from_env_def create_cache_def create_fallback_cache_def get_cache_type_from_config_def
      cache_type_defs Let_def fallback_config [unfolded fallback_env_def] fallback_env_def new_redis_cache_def parse_redis_url_def sample_lib_def
      sample_url_parse_def)

lemma sample_start:
  obtains s f k where "main_setup sample_platform fallback_env (\<lambda>_. 0) h = Inr s" and "world s = (FallbackCache f, k)"
    and "fc_config f = default_cache_config"
proof -
  have "\<exists>s f k. main_setup sample_platform fallback_env (\<lambda>_. 0) h = Inr s \<and> world s = (FallbackCache f, k) \<and>
      fc_config f = default_cache_config"
    using sample_cache [of "in_call (\<lambda>_. 0) 0"]
    by (simp add: main_setup_def Let_def new_server_def new_sample_limiter sample_platform_def new_fallback_cache_def
        start_background_refresh_def)
  then show thesis using that by blast
qed

theorem background_refresh_never_refreshes_witness:
  "\<exists>s f k. reachable sample_platform fallback_env quiet_externals s \<and> world s = (FallbackCache f, k) \<and>
     snd (refresh_worker_loop (redis_ops (pf_redis sample_platform)) (pf_order sample_platform)
       (fallback_refresh sample_platform (load_config_from_env fallback_env)) [RefreshTick (\<lambda>_. 0), RefreshCh (\<lambda>_. 0)] (f, k)) = k"
proof -
  obtain s f k where s: "main_setup sample_platform fallback_env (\<lambda>_. 0) [] = Inr s" "world s = (FallbackCache f, k)"
    by (rule sample_start)
  have r: "reachable sample_platform fallback_env quiet_externals s" using s(1) by (rule started)
  obtain f' k' where "refresh_worker_loop (redis_ops (pf_redis sample_platform)) (pf_order sample_platform)
      (fallback_refresh sample_platform (load_config_from_env fallback_env)) [RefreshTick (\<lambda>_. 0), RefreshCh (\<lambda>_. 0)] (f, k) =
      (f', k')" by fastforce
  from background_refresh_never_refreshes [OF sample_platform_ok quiet_foreign r s(2) this] this r s(2)
  show ?thesis by auto
qed

text \<open>
  C8: In every reachable state every request whose method and path are acceptable as labels
  gets its answer: the chain of handlers returns, whatever panics behind it, because the limiter keeps the rates it was made with.
\<close>

theorem every_request_is_answered:
  assumes "is_order (pf_order p)" and "keeps_slashes (pf_unicode p)" and "foreign_handlers ext"
    and "reachable p env ext s"
    and "accepts_ascii (ext_valid_label ext)" and "labels_ok (ext_valid_label ext) r"
  shows "fst (server_handler (pf_unicode p) ext c r (new_response, s)) = Returned"
  using reachable_inv [OF assms(1-4)] assms(5,6)
  by (intro chain_returns) (simp_all add: app_inv_def default_rl_config_def)

theorem every_request_is_answered_witness:
  "\<exists>s. reachable sample_platform fallback_env quiet_externals s \<and>
     fst (server_handler (pf_unicode sample_platform) quiet_externals (\<lambda>_. 0) (sample_request ''GET'' ''/api/v1/ltp'')
       (new_response, s)) = Returned"
proof -
  obtain s where s: "main_setup sample_platform fallback_env (\<lambda>_. 0) [] = Inr s" by (metis sample_start)
  have "reachable sample_platform fallback_env quiet_externals s" using s by (rule started)
  with every_request_is_answered [OF sample_platform_ok quiet_foreign this] show ?thesis
    by (auto simp: quiet_externals_def)
qed

text \<open>
  C26: The end of the process is clean.  From every reachable state \<open>main\<close> returns without a
  panic and with the cache closed.  After a signal the limiter's cleanup goroutine has been
  told to stop; when the listener failed it has not.  The workers of a fallback cache have
  been told to stop in both cases, and its fallback is as it was.
\<close>

theorem main_exit_clean:
  assumes "is_order (pf_order p)" and "keeps_slashes (pf_unicode p)" and "foreign_handlers ext"
    and "reachable p env ext s"
  shows "\<exists>s'. main_exit p http_shutdown e c s = Inr s' \<and> stop_closed (limiter s') = (e = SignalDone) \<and>
    snd (world s') = snd (world s) \<and>
    (\<forall>f. fst (world s) = FallbackCache f \<longrightarrow>
       (\<exists>f'. fst (world s') = FallbackCache f' \<and> stop_ch_closed f' \<and> fallback f' = fallback f))"
proof -
  have s: "\<not> stop_closed (limiter s)" using reachable_inv [OF assms] by (simp add: app_inv_def)
  obtain cache k where w: "world s = (cache, k)" by fastforce
  show ?thesis
    using s by (cases cache; cases e)
      (auto simp: main_exit_def shutdown_def limiter_stop_def w cache_impl_def any_ops_def fallback_ops_def fb_close_def
        stop_background_refresh_def Let_def split_beta)
qed

theorem main_exit_clean_witness:
  "\<exists>s s'. reachable sample_platform fallback_env quiet_externals s \<and>
     main_exit sample_platform (\<lambda>_. None) SignalDone (\<lambda>_. 0) s = Inr s' \<and> stop_closed (limiter s')"
proof -
  obtain s where s: "main_setup sample_platform fallback_env (\<lambda>_. 0) [] = Inr s" by (metis sample_start)
  have "reachable sample_platform fallback_env quiet_externals s" using s by (rule started)
  with main_exit_clean [OF sample_platform_ok quiet_foreign this] show ?thesis by blast
qed

text \<open>
  The workers of a fallback cache panic as soon as they are started, and with them the
  process, exactly when \<open>CACHE_REFRESH_INTERVAL\<close> is a duration that is not positive.
\<close>

theorem worker_panics_on_interval:
  assumes "create_cache_from_env lib url_parse env c = Inr (FallbackCache f)"
  shows "isl (refresh_worker ops order refresh es (start_background_refresh f, w)) \<longleftrightarrow>
    (\<exists>d. parse_duration (env ''CACHE_REFRESH_INTERVAL'') = Some d \<and> d \<le> 0)"
  using fallback_made_with_config [OF assms]
  by (auto simp: refresh_worker_def start_background_refresh_def load_config_refresh_interval second_def split: option.splits)

theorem worker_panics_on_interval_witness:
  "\<exists>f. create_cache_from_env sample_lib sample_url_parse (fallback_env(''CACHE_REFRESH_INTERVAL'' := ''0s'')) (\<lambda>_. 0) =
       Inr (FallbackCache f) \<and>
     isl (refresh_worker (redis_ops sample_lib) rev (\<lambda>c k st. (Inr (AnyNil, 0), st)) [] (start_background_refresh f, ()))"
proof -
  let ?env = "fallback_env(''CACHE_REFRESH_INTERVAL'' := ''0s'')"
  have cfg: "redis_url (load_config_from_env ?env) = ''redis://localhost:6379''"
    by (simp add: load_config_redis_url fallback_env_def)
  have scheme: "str_contains ''redis://localhost:6379'' ''://'' = True" by code_simp
  have parsed: "parse_redis_url sample_url_parse (redis_url (load_config_from_env ?env)) password db =
      Inr (''localhost:6379'', password, db)" for password db
    by (simp only: cfg parse_redis_url_def scheme) (simp add: sample_url_parse_def)
  have type: "get_cache_type_from_config ?env cfg = ''fallback''" for cfg
    by (simp add: get_cache_type_from_config_def cache_type_defs fallback_env_def)
  obtain f where f: "create_cache_from_env sample_lib sample_url_parse ?env (\<lambda>_. 0) = Inr (FallbackCache f)"
    by (simp add: create_cache_from_env_def create_cache_def create_fallback_cache_def type cache_type_defs Let_def
        new_redis_cache_def parsed sample_lib_def)
  have "parse_duration (?env ''CACHE_REFRESH_INTERVAL'') = Some 0" by simp code_simp
  then have "isl (refresh_worker (redis_ops sample_lib) rev (\<lambda>c k st. (Inr (AnyNil, 0), st)) []
      (start_background_refresh f, ()))"
    by (subst worker_panics_on_interval [OF f]) simp
  then show ?thesis using f by blast
qed

subsection \<open>How old a price can be\<close>

text \<open>The cache the factory makes, with the Redis server restricted to the prices the service stores.\<close>

definition price_impl :: "('c, 'h, 'r) platform \<Rightarrow> 'r any_cache cache_ops" where
  "price_impl p = any_ops (memory_ops (pf_order p)) (float_only (redis_ops (pf_redis p)))
     (fallback_ops (float_only (redis_ops (pf_redis p))) (pf_order p))"

lemma cache_of_prices: "cache_of p = legacy_cache (price_impl p)"
proof -
  let ?a = "cache_impl (pf_redis p) (pf_order p)" and ?b = "price_impl p"
  have get: "op_get ?a c k s = op_get ?b c k s" for c k s
    by (cases s) (simp_all add: cache_impl_def price_impl_def any_ops_def fallback_ops_def fb_get_def)
  have set: "op_set ?a c k (AnyFloat v) ttl s = op_set ?b c k (AnyFloat v) ttl s" for c k v ttl s
    by (cases s) (simp_all add: cache_impl_def price_impl_def any_ops_def fallback_ops_def fb_set_eq)
  have "legacy_get ?a = legacy_get ?b" by (intro ext) (simp add: legacy_get_def get)
  moreover have "legacy_set ?a = legacy_set ?b" by (intro ext) (simp add: legacy_set_def set)
  ultimately show ?thesis by (simp add: cache_of_def legacy_cache_def)
qed

definition price_life :: "duration \<Rightarrow> cache_config \<Rightarrow> duration \<Rightarrow> duration" where
  "price_life slack cfg = fb_life slack cfg (mem_life slack cfg)"

definition price_ok :: "cache_config \<Rightarrow> 'r any_cache \<Rightarrow> bool" where
  "price_ok cfg = any_ok (mem_ok cfg) (redis_ok cfg) (fb_ok cfg (redis_ok cfg))"

definition price_serves ::
  "('c, 'h, 'r) platform \<Rightarrow> ('r \<Rightarrow> string \<Rightarrow> string option) \<Rightarrow> duration \<Rightarrow> cache_config \<Rightarrow> 'r any_cache \<Rightarrow> served" where
  "price_serves p view slack cfg =
     any_serves mem_serves (redis_serves (pf_redis p) view) (fb_serves slack cfg (redis_serves (pf_redis p) view))"

lemma price_store:
  assumes "redis_laws (pf_redis p) view" and "0 \<le> slack"
  shows "value_store (price_impl p) (price_ok cfg) (price_serves p view slack cfg) (price_life slack cfg) slack"
proof -
  have redis: "value_store (float_only (redis_ops (pf_redis p))) (redis_ok cfg) (redis_serves (pf_redis p) view)
      (mem_life slack cfg) slack" using assms(1) by (rule redis_value_store)
  note fb = fallback_store.fb_value_store [OF fallback_store.intro [OF redis]]
  have life: "mem_life slack cfg ttl \<le> price_life slack cfg ttl" for ttl
    using assms(2) by (simp add: price_life_def fb_life_def fb_extra_def)
  show ?thesis unfolding price_impl_def price_ok_def price_serves_def
    by (rule any_value_store [OF mem.value_store_axioms redis fb]) (simp_all add: life, simp add: price_life_def)
qed

text \<open>The Redis database behind a cache, which starts empty.\<close>

fun redis_of :: "'r any_cache \<Rightarrow> 'r option" where
  "redis_of (MemoryCache m) = None"
| "redis_of (RedisCache r) = Some (rd_client r)"
| "redis_of (FallbackCache f) = Some (rd_client (primary f))"

lemma created_price_ok:
  assumes "create_cache_from_env lib url_parse env c = Inr cache"
  shows "price_ok (load_config_from_env env) cache"
  using assms
  by (auto simp: create_cache_from_env_def create_cache_def create_fallback_cache_def new_redis_cache_def
      price_ok_def redis_ok_def fb_ok_def new_fallback_cache_def new_cache_ok Let_def split_beta
      split: if_splits sum.splits option.splits prod.splits)

lemma created_serves_nothing:
  assumes "create_cache_from_env lib url_parse env c = Inr cache"
    and "\<And>r. redis_of cache = Some r \<Longrightarrow> view r = (\<lambda>_. None)"
  shows "price_serves p view slack cfg cache k = {}"
proof (cases cache)
  case (MemoryCache m)
  then show ?thesis using assms(1)
    by (auto simp: create_cache_from_env_def create_cache_def create_fallback_cache_def price_serves_def mem_serves_def
        new_cache_held Let_def split: if_splits sum.splits)
next
  case (RedisCache r)
  then show ?thesis using assms(2) by (simp add: price_serves_def redis_serves_def)
next
  case (FallbackCache f)
  then have "fallback f = new_in_memory_cache (fallback_config (load_config_from_env env))" using assms(1)
    by (auto simp: create_cache_from_env_def create_cache_def create_fallback_cache_def new_fallback_cache_def
        Let_def split: if_splits sum.splits)
  then show ?thesis using assms(2) FallbackCache
    by (simp add: price_serves_def redis_serves_def fb_serves_def mem_serves_def new_cache_held)
qed

lemma default_price_life:
  assumes "env ''CACHE_MAX_TTL'' = []" and "env ''CACHE_FALLBACK_TTL'' = []" and "0 \<le> slack"
  shows "price_life slack (load_config_from_env env) (60 * second) = 6 * minute + 4 * slack"
  using assms
  by (simp add: price_life_def fb_life_def fb_extra_def mem_life_def fallback_config_def clamp_ttl_def
      load_config_max_ttl load_config_fallback_ttl parse_duration_empty duration_defs Let_def)

text \<open>
  What \<open>GetLTP\<close> answers is fresh, whichever cache the environment selects.  After any
  sequence of calls of \<open>GetLTP\<close> on a cache the factory made (with the default lifetimes,
  over a Redis database that was empty), every price in an answer is one that Kraken gave
  for the symbol of the pair, in this call or in an earlier one that stored it at most six
  minutes before (and four times the duration \<open>slack\<close> of a cache call).
\<close>

theorem service_prices_are_fresh:
  assumes laws: "redis_laws (pf_redis p) view"
    and cache: "create_cache_from_env (pf_redis p) (pf_url_parse p) env c0 = Inr cache"
    and redis: "\<And>r. redis_of cache = Some r \<Longrightarrow> view r = (\<lambda>_. None)"
    and ttls: "env ''CACHE_MAX_TTL'' = []" "env ''CACHE_FALLBACK_TTL'' = []"
    and calls: "\<forall>(c, ps)\<in>set calls. cache_calls_within slack c" and c: "cache_calls_within slack c" "mono_clock c"
    and res: "service p c ps (run_ltp (pf_unicode p) (cache_of p) (kraken_of p) calls (cache, cl)) = (Inr quotes, st')"
    and q: "q \<in> set quotes"
  shows "\<exists>symb. to_kraken_symbol (pf_unicode p) (quote_pair q) = Inr symb \<and>
    (answered (pf_unicode p) (cache_of p) (kraken_of p) c ps
       (run_ltp (pf_unicode p) (cache_of p) (kraken_of p) calls (cache, cl)) symb (quote_amount q) \<or>
     (\<exists>c' j. fetched (pf_unicode p) (cache_of p) (kraken_of p) calls (cache, cl) c' symb (quote_amount q) \<and>
        c [] \<le> c' [j, 0] + 6 * minute + 4 * slack))"
proof -
  let ?cfg = "load_config_from_env env"
  have slack: "0 \<le> slack" using c(1) clock_within_nonneg unfolding cache_calls_within_def by blast
  from value_store.quote_is_fresh [OF price_store [OF laws slack, of ?cfg] created_price_ok [OF cache]
      created_serves_nothing [OF cache redis, where p = p and slack = slack and cfg = ?cfg] calls c res [unfolded service_def cache_of_prices] q]
  show ?thesis by (simp add: cache_of_prices default_price_life [OF ttls slack] add.assoc)
qed

text \<open>A process that has just started, and one answer of Kraken.\<close>

definition btc_ticker :: json where
  "btc_ticker = ticker_json [] [(''XXBTZUSD'', [], [''50000.5''], [])]"

definition btc_reply :: http_reply where
  "btc_reply = \<lparr>reply_status = 200, reply_body = json_text btc_ticker, reply_broken = False\<rparr>"

lemma btc_request:
  "make_request sample_transport () c [''XXBTZUSD''] (sample_client [btc_reply]) =
     (Inr [(''XXBTZUSD'', Fin (500005 / 10))], (sample_client [btc_reply])\<lparr>net := []\<rparr>)"
proof -
  have "json_plain btc_ticker" and "json_depth btc_ticker \<le> max_nesting" by code_simp+
  from json_decode_text [OF this, of "[]"] have "json_decode (json_text btc_ticker) = Some btc_ticker" by simp
  moreover have "decode_ticker btc_ticker = (False, \<lparr>tr_error = [], tr_result = [(''XXBTZUSD'', \<lparr>te_c = [''50000.5'']\<rparr>)]\<rparr>)"
    by code_simp
  ultimately have "decode_reply sample_transport btc_reply =
      Inr \<lparr>tr_error = [], tr_result = [(''XXBTZUSD'', \<lparr>te_c = [''50000.5'']\<rparr>)]\<rparr>"
    by (simp add: decode_reply_def btc_reply_def)
  then show ?thesis
    by (simp add: make_request_def sample_transport_def sample_client_def new_client_def sample_price gm_put_def btc_reply_def)
qed

definition btc_quote :: quote where
  "btc_quote = \<lparr>quote_pair = ''BTC/USD'', quote_amount = Fin (500005 / 10)\<rparr>"

lemma btc_api: "fst (kraken_of sample_platform (\<lambda>_. 0) [''XXBTZUSD''] (sample_client [btc_reply])) =
    Inr [(''XXBTZUSD'', Fin (500005 / 10))]"
proof -
  have "fst (get_ticker_prices sample_transport () (\<lambda>_. 0) [''XXBTZUSD''] (sample_client [btc_reply])) =
      Inr [(''XXBTZUSD'', Fin (500005 / 10))]"
    by (rule get_prices_first [OF btc_request [unfolded in_call_const]])
      (simp_all add: sample_client_def new_client_def new_backoff_def default_backoff_config_def)
  then show ?thesis by (simp add: kraken_of_def sample_platform_def)
qed

lemma btc_served:
  "fst (service sample_platform (\<lambda>_. 0) [''BTC/USD'']
     (MemoryCache (new_in_memory_cache default_cache_config), sample_client [btc_reply])) = Inr [btc_quote]"
proof -
  let ?m = "new_in_memory_cache default_cache_config"
  obtain s where miss: "pc_get (cache_of sample_platform) (\<lambda>_. 0) ''XXBTZUSD'' (MemoryCache ?m) = (None, s)"
  proof -
    have "fst (mem_get (\<lambda>_. 0) ''XXBTZUSD'' ?m) \<noteq> Some v" for v by (simp add: mem_get_hit new_cache_held)
    then have "fst (mem_get (\<lambda>_. 0) ''XXBTZUSD'' ?m) = None" by fastforce
    then show ?thesis
      by (intro that) (simp add: cache_of_def legacy_cache_def legacy_get_def cache_impl_def any_ops_def memory_ops_def split_beta)
  qed
  show ?thesis
    using btc_api
    by (simp add: service_def get_ltp_def normalize_btc_usd to_kraken_btc_usd miss sorted_quotes_def gm_get_def gm_put_def
        btc_quote_def split_beta)
qed

theorem service_prices_are_fresh_witness:
  "\<exists>symb. to_kraken_symbol (pf_unicode sample_platform) (quote_pair btc_quote) = Inr symb \<and>
    (answered (pf_unicode sample_platform) (cache_of sample_platform) (kraken_of sample_platform) (\<lambda>_. 0) [''BTC/USD'']
       (MemoryCache (new_in_memory_cache default_cache_config), sample_client [btc_reply]) symb (quote_amount btc_quote) \<or>
     (\<exists>c' j. fetched (pf_unicode sample_platform) (cache_of sample_platform) (kraken_of sample_platform) []
        (MemoryCache (new_in_memory_cache default_cache_config), sample_client [btc_reply]) c' symb (quote_amount btc_quote) \<and>
        0 \<le> c' [j, 0] + 6 * minute + 4 * second))"
proof -
  let ?env = "(\<lambda>_. []) :: environment" and ?m = "MemoryCache (new_in_memory_cache default_cache_config)"
  have laws: "redis_laws (pf_redis sample_platform) (\<lambda>r. r)" by (simp add: sample_platform_def sample_laws)
  have cfg: "load_config_from_env ?env = default_cache_config" by (simp add: load_config_from_env_def from_env_def)
  have made: "create_cache_from_env (pf_redis sample_platform) (pf_url_parse sample_platform) ?env (\<lambda>_. 0) = Inr ?m"
    by (simp add: create_cache_from_env_def create_cache_def get_cache_type_from_config_def cache_type_defs cfg Let_def)
      (simp add: default_cache_config_def)
  have within: "cache_calls_within second (\<lambda>_. 0)" by (simp add: cache_calls_within_def second_def)
  obtain st' where res: "service sample_platform (\<lambda>_. 0) [''BTC/USD'']
      (run_ltp (pf_unicode sample_platform) (cache_of sample_platform) (kraken_of sample_platform) []
        (?m, sample_client [btc_reply])) = (Inr [btc_quote], st')"
    using btc_served by (metis prod.collapse run_ltp.simps(1))
  have "btc_quote \<in> set [btc_quote]" by simp
  from service_prices_are_fresh [OF laws made _ _ _ _ within mono_const_clock res this] show ?thesis by simp
qed

end
