(* ===== verification/Kraken_Traffic.thy ===== *)
theory Kraken_Traffic
  imports Service_Main
begin

text \<open>
  The running service as a whole: runs of it over sequences of events, the limiter inside
  it as a refinement of the limiter alone, and how many requests it sends to Kraken.  The
  number of requests that the network has seen is a function \<open>sent\<close> of the state of the
  network, which a call of \<open>http.Client.Do\<close> raises by at most one.
\<close>

declare One_nat_def [simp del]

subsection \<open>Runs\<close>

text \<open>The steps of \<open>reachable\<close>, as a function; the answer says whether the limiter admitted a request.\<close>

datatype service_event =
    Arrives clock http_request
  | RefreshRuns worker_event
  | CleanupRuns cleanup_worker_event
  | Forgets instant
  | Reads instant

definition unlimited :: "http_request \<Rightarrow> bool" where
  "unlimited r \<longleftrightarrow> req_method r = ''OPTIONS'' \<or> req_path r \<in> {''/health'', ''/ready'', ''/metrics''}"

definition admits :: "clock \<Rightarrow> http_request \<Rightarrow> 'w server \<Rightarrow> bool" where
  "admits c r s \<longleftrightarrow> \<not> unlimited r \<and> fst (limiter_allow (limiter_clock c) (extract_ip r) (limiter s)) = Inr True"

definition on_fallback :: "('r redis_cache fallback_cache \<Rightarrow> 'h client \<Rightarrow> 'r redis_cache fallback_cache \<times> 'h client) \<Rightarrow>
    ('r, 'h) app_world server \<Rightarrow> ('r, 'h) app_world server" where
  "on_fallback g s =
     (case world s of
        (FallbackCache f, k) \<Rightarrow> (let (f', k') = g f k in s\<lparr>world := (FallbackCache f', k')\<rparr>)
      | _ \<Rightarrow> s)"

fun service_step ::
  "('c, 'h, 'r) platform \<Rightarrow> environment \<Rightarrow> ('r, 'h) app_world externals \<Rightarrow> service_event \<Rightarrow>
   ('r, 'h) app_world server \<Rightarrow> bool \<times> ('r, 'h) app_world server" where
  "service_step p env ext (Arrives c r) s =
     (admits c r s, snd (snd (server_handler (pf_unicode p) ext c r (new_response, s))))"
| "service_step p env ext (RefreshRuns e) s =
     (False, on_fallback (\<lambda>f k. refresh_worker_loop (redis_ops (pf_redis p)) (pf_order p)
        (fallback_refresh p (load_config_from_env env)) [e] (f, k)) s)"
| "service_step p env ext (CleanupRuns e) s =
     (False, on_fallback (\<lambda>f k. (cleanup_worker (redis_ops (pf_redis p)) (pf_order p) [e] f, k)) s)"
| "service_step p env ext (Forgets now) s = (False, s\<lparr>limiter := cleanup now (limiter s)\<rparr>)"
| "service_step p env ext (Reads now) s = (False, update_rate_limit_metrics now s)"

fun service_run ::
  "('c, 'h, 'r) platform \<Rightarrow> environment \<Rightarrow> ('r, 'h) app_world externals \<Rightarrow> service_event list \<Rightarrow>
   ('r, 'h) app_world server \<Rightarrow> ('r, 'h) app_world server" where
  "service_run p env ext [] s = s"
| "service_run p env ext (e # es) s = service_run p env ext es (snd (service_step p env ext e s))"

lemma service_step_reachable:
  assumes "reachable p env ext s"
  shows "reachable p env ext (snd (service_step p env ext e s))"
proof (cases e)
  case (Arrives c r)
  obtain out w s' where h: "server_handler (pf_unicode p) ext c r (new_response, s) = (out, w, s')" by (metis prod_cases3)
  then show ?thesis using reachable.request [OF assms h] Arrives by simp
next
  case (RefreshRuns e)
  obtain cache k where w: "world s = (cache, k)" by fastforce
  show ?thesis
  proof (cases cache)
    case (FallbackCache f)
    obtain f' k' where l: "refresh_worker_loop (redis_ops (pf_redis p)) (pf_order p)
        (fallback_refresh p (load_config_from_env env)) [e] (f, k) = (f', k')" by fastforce
    show ?thesis using reachable.refresh [OF assms w [unfolded FallbackCache] l] w FallbackCache l RefreshRuns by (simp add: on_fallback_def)
  qed (use assms w RefreshRuns in \<open>simp_all add: on_fallback_def\<close>)
next
  case (CleanupRuns e)
  obtain cache k where w: "world s = (cache, k)" by fastforce
  show ?thesis
  proof (cases cache)
    case (FallbackCache f)
    show ?thesis using reachable.evict [OF assms w [unfolded FallbackCache], of e] w FallbackCache CleanupRuns by (simp add: on_fallback_def)
  qed (use assms w CleanupRuns in \<open>simp_all add: on_fallback_def\<close>)
next
  case (Forgets now)
  then show ?thesis using reachable.forget [OF assms] by simp
next
  case (Reads now)
  then show ?thesis using reachable.gauges [OF assms] by simp
qed

subsection \<open>What a request does to the limiter and to the world\<close>

text \<open>One of the two calls that the server makes into its world, or none.\<close>

definition world_step :: "http_request \<Rightarrow> 'w server \<Rightarrow> 'w \<Rightarrow> bool" where
  "world_step r s x \<longleftrightarrow> x = world s \<or>
     (req_path r = ''/api/v1/ltp'' \<and> (\<exists>c ps. x = snd (svc s c ps (world s)))) \<or>
     (req_path r = ''/ready'' \<and> (\<exists>c. x = snd (readiness_check (health_checker s) c (world s))))"

lemma world_step_same [simp]: "world_step r s (world s)"
  by (simp add: world_step_def)

lemma mux_world:
  assumes "foreign_handlers ext" and "mux u ext c r (w, s) = (out, w', s')"
  shows "limiter s' = limiter s \<and> world_step r s (world s')"
proof -
  have f: "snd (snd (ext_metrics ext c r (w, s))) = s" "snd (snd (ext_other_path ext c r (w, s))) = s"
    using assms(1) by (simp_all add: foreign_handlers_def)
  show ?thesis
    using assms(2) f
    by (auto simp: mux_def world_step_def handle_ltp_def handle_health_def handle_ready_def handle_open_api_def
        handle_swagger_ui_def Let_def split_beta split: if_splits sum.splits option.splits) blast+
qed

lemma recovery_world: "limiter (snd (snd (recovery h c r st))) = limiter (snd (snd (h (in_call c 0) r st)))"
  "world (snd (snd (recovery h c r st))) = world (snd (snd (h (in_call c 0) r st)))"
  by (simp_all add: recovery_def split: prod.split outcome.split)

lemma metrics_world:
  "limiter (snd (snd (metrics_middleware v h c r (w, s)))) = limiter (snd (snd (h (in_call c 1) r (w\<lparr>captured := 200\<rparr>, s))))"
  "world (snd (snd (metrics_middleware v h c r (w, s)))) = world (snd (snd (h (in_call c 1) r (w\<lparr>captured := 200\<rparr>, s))))"
  by (simp_all add: metrics_middleware_def Let_def split: prod.split outcome.split)

lemma logging_world: "limiter (snd (snd (logging h c r st))) = limiter (snd (snd (h (in_call c 1) r st)))"
  "world (snd (snd (logging h c r st))) = world (snd (snd (h (in_call c 1) r st)))"
  by (simp_all add: logging_def split: prod.split outcome.split)

lemma behind_gate:
  assumes "foreign_handlers ext"
  shows "limiter (snd (snd (metrics_middleware v (recovery (mux u ext)) c r (w, s)))) = limiter s"
    and "world_step r s (world (snd (snd (metrics_middleware v (recovery (mux u ext)) c r (w, s)))))"
proof -
  obtain out w' s' where m: "mux u ext (in_call (in_call c 1) 0) r (w\<lparr>captured := 200\<rparr>, s) = (out, w', s')"
    by (metis prod_cases3)
  show "limiter (snd (snd (metrics_middleware v (recovery (mux u ext)) c r (w, s)))) = limiter s"
    and "world_step r s (world (snd (snd (metrics_middleware v (recovery (mux u ext)) c r (w, s)))))"
    using mux_world [OF assms m] by (simp_all add: metrics_world recovery_world m)
qed

lemma world_step_limiter: "world_step r (s\<lparr>limiter := rl\<rparr>) x = world_step r s x"
  by (simp add: world_step_def)

lemma request_world:
  assumes "foreign_handlers ext" and "per_ip_refill_rate (config (limiter s)) \<noteq> 0"
    and "server_handler u ext c r (w, s) = (out, w', s')"
  shows "limiter s' = (if unlimited r then limiter s
      else snd (limiter_allow (limiter_clock c) (extract_ip r) (limiter s)))"
    and "if unlimited r \<or> admits c r s then world_step r s (world s') else world s' = world s"
    and "req_method r = ''OPTIONS'' \<Longrightarrow> world s' = world s"
proof -
  let ?h = "metrics_middleware (ext_valid_label ext) (recovery (mux u ext))"
  obtain b rl where rl: "limiter_allow (limiter_clock c) (extract_ip r) (limiter s) = (Inr b, rl)"
    using assms(2) by (rule limiter_no_panic)
  let ?w = "set_header ''Access-Control-Allow-Headers'' ''Content-Type''
      (set_header ''Access-Control-Allow-Methods'' ''GET, OPTIONS'' (set_header ''Access-Control-Allow-Origin'' ''*'' w))"
  have s': "s' = (if req_method r = ''OPTIONS'' then s
      else snd (snd (logging (rate_limit_middleware ?h) (in_call c 0) r (?w, s))))"
    using assms(3) by (auto simp: server_handler_def cors_def Let_def split: if_splits)
  have gate: "snd (snd (rate_limit_middleware ?h (in_call (in_call c 0) 1) r (?w, s))) =
      (if req_path r \<in> {''/health'', ''/ready'', ''/metrics''} then snd (snd (?h (in_call (in_call (in_call c 0) 1) 0) r (?w, s)))
       else if b then snd (snd (?h (in_call (in_call (in_call c 0) 1) 1) r (?w, s\<lparr>limiter := rl\<rparr>)))
       else s\<lparr>limiter := rl\<rparr>)"
    using rl by (simp add: rate_limit_middleware_def limiter_clock_def Let_def)
  show "limiter s' = (if unlimited r then limiter s
      else snd (limiter_allow (limiter_clock c) (extract_ip r) (limiter s)))"
    using rl by (simp add: s' logging_world gate unlimited_def behind_gate [OF assms(1)])
  show "if unlimited r \<or> admits c r s then world_step r s (world s') else world s' = world s"
    using rl behind_gate(2) [OF assms(1)] behind_gate(2) [OF assms(1), of r "s\<lparr>limiter := rl\<rparr>", unfolded world_step_limiter]
    by (auto simp: s' logging_world gate unlimited_def admits_def)
  show "req_method r = ''OPTIONS'' \<Longrightarrow> world s' = world s" by (simp add: s')
qed

subsection \<open>The limiter inside the service\<close>

text \<open>The operations on the limiter that an event stands for.\<close>

fun limiter_ops :: "service_event \<Rightarrow> limiter_op list" where
  "limiter_ops (Arrives c r) = (if unlimited r then [] else [LAllow (limiter_clock c) (extract_ip r)])"
| "limiter_ops (RefreshRuns e) = []"
| "limiter_ops (CleanupRuns e) = []"
| "limiter_ops (Forgets now) = [LCleanup now]"
| "limiter_ops (Reads now) = [LStats now]"

lemma run_limiter_append: "run_limiter (xs @ ys) rl = run_limiter ys (run_limiter xs rl)"
  by (induction xs arbitrary: rl) simp_all

lemma admitted_append:
  "admitted limiter_step ch rl (xs @ ys) = admitted limiter_step ch rl xs + admitted limiter_step ch (run_limiter xs rl) ys"
  by (induction xs arbitrary: rl) (simp_all add: split_beta Let_def)

lemma on_fallback_limiter [simp]: "limiter (on_fallback g s) = limiter s"
  by (simp add: on_fallback_def split_beta Let_def split: any_cache.split)

lemma step_limiter:
  assumes "foreign_handlers ext" and "app_inv p s"
  shows "limiter (snd (service_step p env ext e s)) = run_limiter (limiter_ops e) (limiter s)"
    and "admitted limiter_step is_request (limiter s) (limiter_ops e) = (if fst (service_step p env ext e s) then 1 else 0)"
proof -
  have rate: "per_ip_refill_rate (config (limiter s)) \<noteq> 0"
    using assms(2) by (simp add: app_inv_def default_rl_config_def)
  show "limiter (snd (service_step p env ext e s)) = run_limiter (limiter_ops e) (limiter s)"
  proof (cases e)
    case (Arrives c r)
    obtain out w s' where h: "server_handler (pf_unicode p) ext c r (new_response, s) = (out, w, s')" by (metis prod_cases3)
    show ?thesis using request_world(1) [OF assms(1) rate h] h Arrives by (simp del: limiter_step.simps)
  qed (simp_all add: update_rate_limit_metrics_def split_beta Let_def)
  show "admitted limiter_step is_request (limiter s) (limiter_ops e) = (if fst (service_step p env ext e s) then 1 else 0)"
    by (cases e) (simp_all add: admits_def split_beta Let_def)
qed

lemma run_limiter_inside:
  assumes "is_order (pf_order p)" and "keeps_slashes (pf_unicode p)" and "foreign_handlers ext"
    and "reachable p env ext s"
  shows "limiter (service_run p env ext es s) = run_limiter (concat (map limiter_ops es)) (limiter s) \<and>
    admitted (service_step p env ext) (\<lambda>_. True) s es =
      admitted limiter_step is_request (limiter s) (concat (map limiter_ops es))"
  using assms(4)
proof (induction es arbitrary: s)
  case (Cons e es)
  note inv = reachable_inv [OF assms(1-3) Cons.prems]
  show ?case
    using Cons.IH [OF service_step_reachable [OF Cons.prems]] step_limiter [OF assms(3) inv, where env = env and e = e]
    by (simp add: run_limiter_append admitted_append split_beta Let_def)
qed simp

subsection \<open>Requests to Kraken\<close>

text \<open>
  A call of \<open>http.Client.Do\<close> sends at most \<open>hops\<close> requests: one, and those to which it is
  redirected, of which the default policy of \<open>net/http\<close> stops after ten.
\<close>

definition counts_requests :: "nat \<Rightarrow> ('h \<Rightarrow> nat) \<Rightarrow> ('c, 'h) transport \<Rightarrow> bool" where
  "counts_requests hops sent tr \<longleftrightarrow> (\<forall>ctx c timeout url h. sent (snd (http_do tr ctx c timeout url h)) \<le> sent h + hops)"

text \<open>The client keeps the configuration of its retries, which is the default one.\<close>

definition default_retries :: "'h client \<Rightarrow> bool" where
  "default_retries k \<longleftrightarrow> bo_config (cl_backoff k) = default_backoff_config"

lemma make_request_sends:
  assumes "counts_requests hops sent tr"
  shows "sent (net (snd (make_request tr ctx c symbols k))) \<le> sent (net k) + hops"
    and "cl_backoff (snd (make_request tr ctx c symbols k)) = cl_backoff k"
proof -
  have "sent (snd (http_do tr ctx c' d url (net k))) \<le> sent (net k) + hops" for c' d url
    using assms by (simp add: counts_requests_def)
  then show "sent (net (snd (make_request tr ctx c symbols k))) \<le> sent (net k) + hops"
    by (simp add: make_request_def Let_def split_beta split: option.split sum.split)
  show "cl_backoff (snd (make_request tr ctx c symbols k)) = cl_backoff k"
    by (simp add: make_request_def Let_def split_beta split: option.split sum.split)
qed

lemma ticker_prices_sends:
  assumes "counts_requests hops sent tr" and "default_retries k"
  shows "sent (net (snd (get_ticker_prices tr ctx c symbols k))) \<le> sent (net k) + 5 * hops"
    and "default_retries (snd (get_ticker_prices tr ctx c symbols k))"
proof -
  let ?fn = "attempt_request tr ctx (in_call c 1) symbols" and ?k' = "snd (get_ticker_prices tr ctx c symbols k)"
  let ?cost = "\<lambda>st :: 'a attempt. sent (net (snd (snd st)))"
  have fn: "?cost (snd (?fn st)) \<le> ?cost st + hops" for st
    using make_request_sends(1) [OF assms(1)]
    by (auto simp: attempt_request_def Let_def split_beta split: sum.split)
  obtain err b m i cl ms where loop: "retry_loop ''kraken'' ?fn is_retryable_http_error (wait_ends tr ctx (in_call c 1))
      1 None (cl_backoff k) ([], 0, k) [] = (err, b, (m, i, cl), ms)" by (metis prod_cases3 prod_cases4)
  have "sent (net cl) \<le> sent (net k) + 5 * hops" "bo_config b = default_backoff_config"
    using retry_loop_cost [where cost = ?cost, OF fn loop] assms(2)
    by (simp_all add: default_retries_def default_backoff_config_def)
  then show "sent (net ?k') \<le> sent (net k) + 5 * hops" and "default_retries ?k'"
    using assms(2) loop
    by (auto simp: get_ticker_prices_def retry_def observe_request_def default_retries_def Let_def split: option.splits)
qed

lemma get_ltp_client:
  "snd (snd (get_ltp u pc api c ps (s, k))) = k \<or>
    (\<exists>c' symbols. snd (snd (get_ltp u pc api c ps (s, k))) = snd (api c' symbols k))"
  by (auto simp: get_ltp_def Let_def split: sum.split prod.split) (metis snd_conv)+

text \<open>A call into the world leaves the client alone or is one call of it.\<close>

definition client_call :: "('c, 'h, 'r) platform \<Rightarrow> 'h client \<Rightarrow> 'h client \<Rightarrow> bool" where
  "client_call p k k' \<longleftrightarrow> k' = k \<or> (\<exists>ctx c symbols. k' = snd (get_ticker_prices (pf_transport p) ctx c symbols k))"

lemma service_client: "client_call p (snd w) (snd (snd (service p c ps w)))"
  using get_ltp_client [of "pf_unicode p" "cache_of p" "kraken_of p" c ps "fst w" "snd w"]
  by (auto simp: client_call_def service_def kraken_of_def)

lemma checks_client: "client_call p (snd w) (snd (snd (readiness_check (main_checks p) c w)))"
proof -
  let ?c = "in_call (in_call c 1) 0"
  have "snd (snd (readiness_check (main_checks p) c w)) = snd (get_ticker_prices (pf_transport p)
      (pf_with_timeout p (pf_ctx p ?c) (2 * second)) ?c [''XBTUSD''] (snd w))"
    by (simp add: readiness_check_def main_checks_def on_cache_state_def on_client_state_def
        kraken_check_def Let_def split_beta split: sum.split prod.split)
  then show ?thesis unfolding client_call_def by blast
qed

lemma world_step_client:
  assumes "app_inv p s" and "world_step r s x"
  shows "client_call p (snd (world s)) (snd x)"
proof -
  have "client_call p k k" for k by (simp add: client_call_def)
  then show ?thesis
    using assms service_client [of p "world s"] checks_client [of p "world s"] by (auto simp: world_step_def app_inv_def)
qed

lemma world_step_sends:
  assumes "counts_requests hops sent (pf_transport p)" and "app_inv p s"
    and "world_step r s x" and "default_retries (snd (world s))"
  shows "sent (net (snd x)) \<le> sent (net (snd (world s))) + 5 * hops \<and> default_retries (snd x)"
  using world_step_client [OF assms(2,3)] ticker_prices_sends [OF assms(1,4)] assms(4)
  by (auto simp: client_call_def)

text \<open>An event that may send requests without the limiter's consent.\<close>

fun asks_readiness :: "service_event \<Rightarrow> bool" where
  "asks_readiness (Arrives c r) \<longleftrightarrow> req_path r = ''/ready''"
| "asks_readiness _ \<longleftrightarrow> False"

lemma step_sends:
  assumes "is_order (pf_order p)" and "keeps_slashes (pf_unicode p)" and "foreign_handlers ext"
    and "counts_requests hops sent (pf_transport p)" and "app_inv p s" and "default_retries (snd (world s))"
  shows "sent (net (snd (world (snd (service_step p env ext e s))))) \<le> sent (net (snd (world s))) +
      5 * hops * ((if fst (service_step p env ext e s) then 1 else 0) + (if asks_readiness e then 1 else 0))"
    and "default_retries (snd (world (snd (service_step p env ext e s))))"
proof -
  let ?s' = "snd (service_step p env ext e s)"
  have "sent (net (snd (world ?s'))) \<le> sent (net (snd (world s))) +
      5 * hops * ((if fst (service_step p env ext e s) then 1 else 0) + (if asks_readiness e then 1 else 0)) \<and>
    default_retries (snd (world ?s'))"
  proof (cases e)
    case (Arrives c r)
    have rate: "per_ip_refill_rate (config (limiter s)) \<noteq> 0"
      using assms(5) by (simp add: app_inv_def default_rl_config_def)
    obtain out w s' where h: "server_handler (pf_unicode p) ext c r (new_response, s) = (out, w, s')" by (metis prod_cases3)
    note w = request_world(2,3) [OF assms(3) rate h]
    note sends = world_step_sends [OF assms(4,5) _ assms(6), of r "world s'"]
    consider "world s' = world s" | "world_step r s (world s')" and "admits c r s \<or> req_path r = ''/ready''"
      using w by (auto simp: unlimited_def world_step_def admits_def split: if_splits)
    then show ?thesis using sends assms(6) h by cases (auto simp: Arrives)
  next
    case (RefreshRuns ev)
    obtain cache k where w: "world s = (cache, k)" by fastforce
    show ?thesis
    proof (cases cache)
      case (FallbackCache f)
      obtain f' k' where l: "refresh_worker_loop (redis_ops (pf_redis p)) (pf_order p)
          (fallback_refresh p (load_config_from_env env)) [ev] (f, k) = (f', k')" by fastforce
      have "slash_free f" using assms(5) w FallbackCache by (simp add: app_inv_def)
      from worker_moves_keys_only [OF assms(1,2) this l] have "k' = k" by simp
      then show ?thesis using assms(6) w FallbackCache l RefreshRuns by (simp add: on_fallback_def)
    qed (use assms(6) w RefreshRuns in \<open>simp_all add: on_fallback_def\<close>)
  qed (use assms(6) in \<open>auto simp: on_fallback_def update_rate_limit_metrics_def split_beta Let_def split: any_cache.split\<close>)
  then show "sent (net (snd (world ?s'))) \<le> sent (net (snd (world s))) +
      5 * hops * ((if fst (service_step p env ext e s) then 1 else 0) + (if asks_readiness e then 1 else 0))"
    and "default_retries (snd (world ?s'))" by simp_all
qed

lemma run_sends:
  assumes "is_order (pf_order p)" and "keeps_slashes (pf_unicode p)" and "foreign_handlers ext"
    and "counts_requests hops sent (pf_transport p)" and "reachable p env ext s" and "default_retries (snd (world s))"
  shows "sent (net (snd (world (service_run p env ext es s)))) \<le> sent (net (snd (world s))) +
      5 * hops * (admitted (service_step p env ext) (\<lambda>_. True) s es + length (filter asks_readiness es))"
  using assms(5,6)
proof (induction es arbitrary: s)
  case (Cons e es)
  note inv = reachable_inv [OF assms(1-3) Cons.prems(1)]
  note st = step_sends [OF assms(1-4) inv Cons.prems(2), where env = env and e = e]
  show ?case
    using Cons.IH [OF service_step_reachable [OF Cons.prems(1)] st(2)] st(1)
    by (cases "fst (service_step p env ext e s)"; cases "asks_readiness e")
      (simp_all add: split_beta Let_def distrib_left)
qed simp

lemma setup_starts:
  assumes "main_setup p env c h = Inr s"
  shows "new_rate_limiter (now_at c 1) default_rl_config = Inr (limiter s)" and "net (snd (world s)) = h"
    and "default_retries (snd (world s))"
proof -
  have kept: "limiter (fold add_health_check cs x) = limiter x" for cs and x :: "('a, 'b) app_world server"
    by (induction cs arbitrary: x) (simp_all add: add_health_check_def)
  show "new_rate_limiter (now_at c 1) default_rl_config = Inr (limiter s)" and "net (snd (world s)) = h"
    and "default_retries (snd (world s))"
    using assms kept
    by (auto simp: main_setup_def new_server_def new_client_def new_backoff_def default_retries_def Let_def
        split: sum.splits)
qed

subsection \<open>Properties\<close>

text \<open>
  C5: What the service asks of Kraken.  Whatever requests arrive, in whatever order with the
  workers, the cleanups and the gauges, the service calls \<open>http.Client.Do\<close> from its start to
  \<open>T\<close> at most five times for every request that the global limit can admit in that time, and
  five times for every request to \<open>/ready\<close>, which the limiter does not see.  One call sends
  \<open>hops\<close> requests at most: one when Kraken does not redirect, ten under the default policy of
  \<open>net/http\<close>.
\<close>

theorem kraken_traffic_bound:
  assumes "is_order (pf_order p)" and "keeps_slashes (pf_unicode p)" and "foreign_handlers ext"
    and "counts_requests hops sent (pf_transport p)" and "main_setup p env c h = Inr s"
    and "in_order op_begins op_ends (now_at c 1) (concat (map limiter_ops es)) T"
  shows "int (sent (net (snd (world (service_run p env ext es s))))) \<le> int (sent h) +
    5 * int hops * (1000 + 100 * (T - now_at c 1) div 10 ^ 9 + int (length (filter asks_readiness es)))"
proof -
  note start = setup_starts [OF assms(5)]
  have r: "reachable p env ext s" using assms(5) by (rule started)
  have cfg: "global_config_ok default_rl_config" by (simp add: global_config_ok_def default_rl_config_def)
  have "10 ^ 9 * int (admitted limiter_step is_request (limiter s) (concat (map limiter_ops es))) \<le>
      1000 * 10 ^ 9 + 100 * (T - now_at c 1)"
    using global_meter.admitted_bound [OF new_rate_limiter_global(1) [OF start(1) cfg] assms(6)]
      new_rate_limiter_global(2) [OF start(1) cfg] by (simp add: default_rl_config_def)
  then have "int (admitted (service_step p env ext) (\<lambda>_. True) s es) \<le> 1000 + 100 * (T - now_at c 1) div 10 ^ 9"
    using run_limiter_inside [OF assms(1-3) r, of es] by (intro scaled_bound) simp
  then have "5 * int hops * (int (admitted (service_step p env ext) (\<lambda>_. True) s es) + int (length (filter asks_readiness es))) \<le>
      5 * int hops * (1000 + 100 * (T - now_at c 1) div 10 ^ 9 + int (length (filter asks_readiness es)))"
    by (intro mult_left_mono) simp_all
  moreover have "int (sent (net (snd (world (service_run p env ext es s))))) \<le> int (sent h +
      5 * hops * (admitted (service_step p env ext) (\<lambda>_. True) s es + length (filter asks_readiness es)))"
    using run_sends [OF assms(1-4) r start(3), of es] by (simp only: of_nat_le_iff start(2))
  ultimately show ?thesis by simp
qed

text \<open>A pre-flight, a request for prices, a probe and the workers, on the process of the sample platform.\<close>

definition sample_events :: "service_event list" where
  "sample_events =
     [Arrives (\<lambda>_. 0) (sample_request ''GET'' ''/api/v1/ltp''), RefreshRuns (RefreshTick (\<lambda>_. 0)),
      Arrives (\<lambda>_. 0) (sample_request ''GET'' ''/ready''), Forgets second, Reads (2 * second)]"

lemma sample_counts: "0 < hops \<Longrightarrow> counts_requests hops (\<lambda>h. n - length h) sample_transport"
  by (auto simp: counts_requests_def sample_transport_def split: list.split)

theorem kraken_traffic_bound_witness:
  "\<exists>s. main_setup sample_platform fallback_env (\<lambda>_. 0) [busy_reply, sample_reply, sample_reply] = Inr s \<and>
     int (3 - length (net (snd (world (service_run sample_platform fallback_env quiet_externals sample_events s)))))
       \<le> 5 * int 10 * (1000 + 100 * (2 * second) div 10 ^ 9 + 1)"
proof -
  obtain s where s: "main_setup sample_platform fallback_env (\<lambda>_. 0) [busy_reply, sample_reply, sample_reply] = Inr s"
    by (rule sample_start)
  have counts: "counts_requests 10 (\<lambda>h. 3 - length h) (pf_transport sample_platform)"
    using sample_counts [of 10 3] by (simp add: sample_platform_def)
  have order: "in_order op_begins op_ends (now_at (\<lambda>_. 0) 1) (concat (map limiter_ops sample_events)) (2 * second)"
    by (simp add: sample_events_def unlimited_def sample_path duration_defs limiter_clock_def now_at_def in_call_def)
  have probes: "length (filter asks_readiness sample_events) = 1"
    by (simp add: sample_events_def sample_path)
  have zero: "now_at (\<lambda>_. 0) 1 = 0" by (simp add: now_at_def)
  show ?thesis
    using kraken_traffic_bound [OF sample_platform_ok quiet_foreign counts s order] s
    unfolding probes zero by simp
qed

end
