(* ===== verification/Metrics.thy ===== *)
theory Metrics
  imports Kraken_Traffic
begin

text \<open>
  \<open>internal/metrics/metrics.go\<close>: the families of metrics in the order of the source, their
  registration when the package is initialised, and the series that the recorded
  observations belong to.  The registry is that of the Prometheus client library, a
  parameter; \<open>DefBuckets\<close> stands for the buckets that the library provides.
\<close>

declare One_nat_def [simp del]

subsection \<open>The families\<close>

datatype histogram_buckets = DefBuckets | Buckets "f64 list"

datatype metric_kind = Counter | Gauge | Histogram histogram_buckets

record metric_family =
  family_kind :: metric_kind
  family_name :: string
  family_help :: string
  family_labels :: "string list"

definition http_requests_family :: metric_family where
  "http_requests_family =
     \<lparr>family_kind = Counter, family_name = ''http_requests_total'',
      family_help = ''Total number of HTTP requests'', family_labels = [''method'', ''endpoint'', ''status'']\<rparr>"

definition http_duration_family :: metric_family where
  "http_duration_family =
     \<lparr>family_kind = Histogram DefBuckets, family_name = ''http_request_duration_seconds'',
      family_help = ''HTTP request latency'', family_labels = [''method'', ''endpoint'', ''status'']\<rparr>"

definition kraken_requests_family :: metric_family where
  "kraken_requests_family =
     \<lparr>family_kind = Counter, family_name = ''kraken_requests_total'',
      family_help = ''Total number of Kraken API requests'', family_labels = [''status'']\<rparr>"

definition kraken_duration_family :: metric_family where
  "kraken_duration_family =
     \<lparr>family_kind = Histogram DefBuckets, family_name = ''kraken_request_duration_seconds'',
      family_help = ''Kraken API request latency'', family_labels = [''status'']\<rparr>"

definition cache_hits_family :: metric_family where
  "cache_hits_family =
     \<lparr>family_kind = Counter, family_name = ''cache_hits_total'',
      family_help = ''Total number of cache hits'', family_labels = []\<rparr>"

definition cache_misses_family :: metric_family where
  "cache_misses_family =
     \<lparr>family_kind = Counter, family_name = ''cache_misses_total'',
      family_help = ''Total number of cache misses'', family_labels = []\<rparr>"

definition cache_size_family :: metric_family where
  "cache_size_family =
     \<lparr>family_kind = Gauge, family_name = ''cache_size'',
      family_help = ''Current number of items in cache'', family_labels = []\<rparr>"

definition rate_limit_allows_family :: metric_family where
  "rate_limit_allows_family =
     \<lparr>family_kind = Counter, family_name = ''rate_limit_allows_total'',
      family_help = ''Total number of requests allowed by rate limiter'', family_labels = []\<rparr>"

definition rate_limit_rejects_family :: metric_family where
  "rate_limit_rejects_family =
     \<lparr>family_kind = Counter, family_name = ''rate_limit_rejects_total'',
      family_help = ''Total number of requests rejected by rate limiter'', family_labels = [''type'']\<rparr>"

definition rate_limit_ips_tracked_family :: metric_family where
  "rate_limit_ips_tracked_family =
     \<lparr>family_kind = Gauge, family_name = ''rate_limit_ips_tracked'',
      family_help = ''Current number of IPs being tracked by rate limiter'', family_labels = []\<rparr>"

definition rate_limit_global_tokens_family :: metric_family where
  "rate_limit_global_tokens_family =
     \<lparr>family_kind = Gauge, family_name = ''rate_limit_global_tokens'',
      family_help = ''Current number of available global rate limit tokens'', family_labels = []\<rparr>"

definition rate_limit_global_utilization_family :: metric_family where
  "rate_limit_global_utilization_family =
     \<lparr>family_kind = Gauge, family_name = ''rate_limit_global_utilization'',
      family_help = ''Global rate limit utilization (0.0 to 1.0)'', family_labels = []\<rparr>"

definition backoff_attempts_family :: metric_family where
  "backoff_attempts_family =
     \<lparr>family_kind = Counter, family_name = ''backoff_attempts_total'',
      family_help = ''Total number of backoff attempts'', family_labels = [''service'', ''attempt'']\<rparr>"

definition backoff_delay_family :: metric_family where
  "backoff_delay_family =
     \<lparr>family_kind = Histogram (Buckets (map to_f64 [1 / 10, 1 / 4, 1 / 2, 1, 2, 4, 8, 16, 32])),
      family_name = ''backoff_delay_seconds'',
      family_help = ''Backoff delay duration in seconds'', family_labels = [''service'', ''attempt'']\<rparr>"

definition metric_families :: "metric_family list" where
  "metric_families =
     [http_requests_family, http_duration_family, kraken_requests_family, kraken_duration_family,
      cache_hits_family, cache_misses_family, cache_size_family,
      rate_limit_allows_family, rate_limit_rejects_family, rate_limit_ips_tracked_family,
      rate_limit_global_tokens_family, rate_limit_global_utilization_family,
      backoff_attempts_family, backoff_delay_family]"

lemmas family_defs =
  http_requests_family_def http_duration_family_def kraken_requests_family_def kraken_duration_family_def
  cache_hits_family_def cache_misses_family_def cache_size_family_def
  rate_limit_allows_family_def rate_limit_rejects_family_def rate_limit_ips_tracked_family_def
  rate_limit_global_tokens_family_def rate_limit_global_utilization_family_def
  backoff_attempts_family_def backoff_delay_family_def

subsection \<open>Registration\<close>

text \<open>
  The variables are initialised in the order of the source, each of them by a call of
  \<open>promauto\<close>, which panics when the registry refuses the family.
\<close>

fun register_all :: "(metric_family \<Rightarrow> 'reg \<Rightarrow> string + 'reg) \<Rightarrow> metric_family list \<Rightarrow> 'reg \<Rightarrow> string + 'reg" where
  "register_all register [] reg = Inr reg"
| "register_all register (fam # fams) reg =
     (case register fam reg of Inl panic \<Rightarrow> Inl panic | Inr reg \<Rightarrow> register_all register fams reg)"

text \<open>What the documentation of the library asks of a family.\<close>

definition name_char :: "char \<Rightarrow> bool" where
  "name_char c \<longleftrightarrow> in_bytes 65 90 c \<or> in_bytes 97 122 c \<or> c = CHR ''_''"

fun legal_name :: "string \<Rightarrow> bool" where
  "legal_name [] = False"
| "legal_name (c # cs) \<longleftrightarrow> name_char c \<and> list_all (\<lambda>d. name_char d \<or> is_digit d) cs"

definition legal_label :: "string \<Rightarrow> bool" where
  "legal_label l \<longleftrightarrow> legal_name l \<and> take 2 l \<noteq> ''__''"

fun buckets_ok :: "histogram_buckets \<Rightarrow> bool" where
  "buckets_ok DefBuckets = True"
| "buckets_ok (Buckets bs) = sorted_wrt (<) bs"

fun kind_ok :: "metric_kind \<Rightarrow> string list \<Rightarrow> bool" where
  "kind_ok (Histogram bs) labels \<longleftrightarrow> buckets_ok bs \<and> ''le'' \<notin> set labels"
| "kind_ok _ labels \<longleftrightarrow> True"

definition family_ok :: "metric_family \<Rightarrow> bool" where
  "family_ok fam \<longleftrightarrow> legal_name (family_name fam) \<and> list_all legal_label (family_labels fam) \<and>
     distinct (family_labels fam) \<and> kind_ok (family_kind fam) (family_labels fam)"

text \<open>The registry takes every such family whose name it does not have.\<close>

definition is_registry :: "('reg \<Rightarrow> string set) \<Rightarrow> (metric_family \<Rightarrow> 'reg \<Rightarrow> string + 'reg) \<Rightarrow> bool" where
  "is_registry names register \<longleftrightarrow> (\<forall>fam reg. family_ok fam \<longrightarrow> family_name fam \<notin> names reg \<longrightarrow>
     (\<exists>reg'. register fam reg = Inr reg' \<and> names reg' = insert (family_name fam) (names reg)))"

lemma rnd_eighths: "rnd (1 / 4) = 1 / 4" "rnd (1 / 8) = 1 / 8" "rnd (1 / 2) = 1 / 2"
proof -
  have p: "(1 / 4 :: rat) = of_int 1 * 2 powi (- 2)" "(1 / 8 :: rat) = of_int 1 * 2 powi (- 3)"
    "(1 / 2 :: rat) = of_int 1 * 2 powi (- 1)"
    by (simp_all add: power_int_def power2_eq_square power3_eq_cube)
  show "rnd (1 / 4) = 1 / 4" unfolding p by (rule rnd_exact) simp_all
  show "rnd (1 / 8) = 1 / 8" unfolding p by (rule rnd_exact) simp_all
  show "rnd (1 / 2) = 1 / 2" unfolding p by (rule rnd_exact) simp_all
qed

lemma delay_buckets: "sorted_wrt (<) (map to_f64 [1 / 10, 1 / 4, 1 / 2, 1, 2, 4, 8, 16, 32])"
proof -
  have "rnd (1 / 10) \<le> rnd (1 / 8)" by (rule rnd_mono) simp
  then have "rnd (1 / 10) < 1 / 4" by (simp add: rnd_eighths)
  moreover have "0 \<le> rnd (1 / 10)" by (rule rnd_nonneg) simp
  ultimately show ?thesis by (simp add: to_f64_Fin rnd_eighths float_simps)
qed

lemma names_legal:
  "list_all legal_name
     [''http_requests_total'', ''http_request_duration_seconds'', ''kraken_requests_total'',
      ''kraken_request_duration_seconds'', ''cache_hits_total'', ''cache_misses_total'', ''cache_size'',
      ''rate_limit_allows_total'', ''rate_limit_rejects_total'', ''rate_limit_ips_tracked'',
      ''rate_limit_global_tokens'', ''rate_limit_global_utilization'', ''backoff_attempts_total'', ''backoff_delay_seconds'']"
  "list_all legal_label [''method'', ''endpoint'', ''status'', ''type'', ''service'', ''attempt'']"
  by code_simp+

lemma families_ok: "list_all family_ok metric_families"
  using names_legal delay_buckets
  by (simp add: metric_families_def family_defs family_ok_def del: legal_name.simps list.map sorted_wrt.simps)

lemma family_names:
  "map family_name metric_families =
     [''http_requests_total'', ''http_request_duration_seconds'', ''kraken_requests_total'',
      ''kraken_request_duration_seconds'', ''cache_hits_total'', ''cache_misses_total'', ''cache_size'',
      ''rate_limit_allows_total'', ''rate_limit_rejects_total'', ''rate_limit_ips_tracked'',
      ''rate_limit_global_tokens'', ''rate_limit_global_utilization'', ''backoff_attempts_total'', ''backoff_delay_seconds'']"
  by (simp only: metric_families_def family_defs list.map metric_family.select_convs)

lemma names_distinct:
  "distinct
     [''http_requests_total'', ''http_request_duration_seconds'', ''kraken_requests_total'',
      ''kraken_request_duration_seconds'', ''cache_hits_total'', ''cache_misses_total'', ''cache_size'',
      ''rate_limit_allows_total'', ''rate_limit_rejects_total'', ''rate_limit_ips_tracked'',
      ''rate_limit_global_tokens'', ''rate_limit_global_utilization'', ''backoff_attempts_total'', ''backoff_delay_seconds'']"
  by (simp only: distinct.simps list.set insert_iff empty_iff list.inject list.distinct char.inject simp_thms)

lemma families_distinct: "distinct (map family_name metric_families)"
  by (simp only: family_names names_distinct)

lemma register_all_ok:
  assumes "is_registry names register"
    and "list_all family_ok fams" and "distinct (map family_name fams)"
    and "names reg \<inter> set (map family_name fams) = {}"
  shows "\<exists>reg'. register_all register fams reg = Inr reg' \<and> names reg' = names reg \<union> set (map family_name fams)"
  using assms(2-4)
proof (induction fams arbitrary: reg)
  case (Cons fam fams)
  have "family_ok fam" and "family_name fam \<notin> names reg" using Cons.prems(1,3) by auto
  then obtain reg1 where r: "register fam reg = Inr reg1" "names reg1 = insert (family_name fam) (names reg)"
    using assms(1) unfolding is_registry_def by blast
  have "names reg1 \<inter> set (map family_name fams) = {}" using Cons.prems(2,3) r(2) by auto
  then obtain reg' where "register_all register fams reg1 = Inr reg'"
    "names reg' = names reg1 \<union> set (map family_name fams)"
    using Cons.IH [of reg1] Cons.prems(1,2) by auto
  then show ?case using r by auto
qed simp

subsection \<open>Series\<close>

text \<open>A family and the values of its labels: what an observation is added to.\<close>

type_synonym series = "metric_family \<times> string list"

definition series_ok :: "series \<Rightarrow> bool" where
  "series_ok x \<longleftrightarrow> fst x \<in> set metric_families \<and> length (snd x) = length (family_labels (fst x))"

fun http_series :: "http_metric \<Rightarrow> series" where
  "http_series (HTTPRequests meth endpoint status) = (http_requests_family, [meth, endpoint, status])"
| "http_series (HTTPDuration meth endpoint status d) = (http_duration_family, [meth, endpoint, status])"

fun kraken_series :: "kraken_metric \<Rightarrow> series" where
  "kraken_series (KrakenRequests status) = (kraken_requests_family, [status])"
| "kraken_series (KrakenDuration status d) = (kraken_duration_family, [status])"

fun rl_series :: "rl_metric \<Rightarrow> series" where
  "rl_series (RateLimitRejects type) = (rate_limit_rejects_family, [type])"
| "rl_series RateLimitAllows = (rate_limit_allows_family, [])"
| "rl_series (RateLimitIPsTracked n) = (rate_limit_ips_tracked_family, [])"

fun backoff_series :: "backoff_metric \<Rightarrow> series" where
  "backoff_series (BackoffAttempts name attempt) = (backoff_attempts_family, [name, attempt])"
| "backoff_series (BackoffDelay name attempt d) = (backoff_delay_family, [name, attempt])"

text \<open>What the limiter and the client of a server have recorded.\<close>

definition inner_series :: "('r, 'h) app_world server \<Rightarrow> series list" where
  "inner_series s = map rl_series (metric_log (limiter s)) @ map kraken_series (kraken_metrics (snd (world s))) @
     map backoff_series (backoff_metrics (snd (world s)))"

definition limiter_series :: "series list" where
  "limiter_series =
     [(rate_limit_allows_family, []), (rate_limit_rejects_family, [''global'']),
      (rate_limit_rejects_family, [''per_ip'']), (rate_limit_ips_tracked_family, [])]"

definition client_series :: "series list" where
  "client_series =
     [(kraken_requests_family, [''success'']), (kraken_requests_family, [''error'']),
      (kraken_duration_family, [''success'']), (kraken_duration_family, [''error'']),
      (backoff_attempts_family, [''kraken'', ''1'']), (backoff_attempts_family, [''kraken'', ''2'']),
      (backoff_attempts_family, [''kraken'', ''3'']), (backoff_attempts_family, [''kraken'', ''4'']),
      (backoff_attempts_family, [''kraken'', ''5'']),
      (backoff_delay_family, [''kraken'', ''1'']), (backoff_delay_family, [''kraken'', ''2'']),
      (backoff_delay_family, [''kraken'', ''3'']), (backoff_delay_family, [''kraken'', ''4''])]"

lemma client_series_in:
  "status \<in> {''success'', ''error''} \<Longrightarrow> (kraken_requests_family, [status]) \<in> set client_series"
  "status \<in> {''success'', ''error''} \<Longrightarrow> (kraken_duration_family, [status]) \<in> set client_series"
  by (auto simp: client_series_def)

lemma small_itoa: "itoa 1 = ''1''" "itoa 2 = ''2''" "itoa 3 = ''3''" "itoa 4 = ''4''" "itoa 5 = ''5''"
  by code_simp+

lemma attempt_series_in:
  assumes "1 \<le> i"
  shows "i \<le> 5 \<Longrightarrow> (backoff_attempts_family, [''kraken'', itoa i]) \<in> set client_series"
    and "i \<le> 4 \<Longrightarrow> (backoff_delay_family, [''kraken'', itoa i]) \<in> set client_series"
proof -
  assume "i \<le> 5"
  then consider "i = 1" | "i = 2" | "i = 3" | "i = 4" | "i = 5" using assms by linarith
  then show "(backoff_attempts_family, [''kraken'', itoa i]) \<in> set client_series"
    by cases (simp_all add: small_itoa client_series_def)
next
  assume "i \<le> 4"
  then consider "i = 1" | "i = 2" | "i = 3" | "i = 4" using assms by linarith
  then show "(backoff_delay_family, [''kraken'', itoa i]) \<in> set client_series"
    by cases (simp_all add: small_itoa client_series_def)
qed

definition client_metrics_ok :: "'h client \<Rightarrow> bool" where
  "client_metrics_ok k \<longleftrightarrow> default_retries k \<and>
     list_all (\<lambda>m. kraken_series m \<in> set client_series) (kraken_metrics k) \<and>
     list_all (\<lambda>m. backoff_series m \<in> set client_series) (backoff_metrics k)"

lemma make_request_metrics:
  "kraken_metrics (snd (make_request tr ctx c symbols k)) = kraken_metrics k"
  "backoff_metrics (snd (make_request tr ctx c symbols k)) = backoff_metrics k"
  by (simp_all add: make_request_def Let_def split_beta split: option.split sum.split)

lemma ticker_prices_metrics:
  assumes "client_metrics_ok k"
  shows "client_metrics_ok (snd (get_ticker_prices tr ctx c symbols k))"
proof -
  let ?fn = "attempt_request tr ctx (in_call c 1) symbols"
  let ?ok = "\<lambda>m. backoff_series m \<in> set client_series"
  define kept where "kept cl \<longleftrightarrow> kraken_metrics cl = kraken_metrics k \<and> backoff_metrics cl = backoff_metrics k" for cl :: "'a client"
  obtain err b m i cl ms where loop: "retry_loop ''kraken'' ?fn is_retryable_http_error (wait_ends tr ctx (in_call c 1))
      1 None (cl_backoff k) ([], 0, k) [] = (err, b, (m, i, cl), ms)" by (metis prod_cases3 prod_cases4)
  have cfg: "bo_config (cl_backoff k) = default_backoff_config"
    using assms by (simp add: client_metrics_ok_def default_retries_def)
  have "list_all ?ok ms \<and> kept cl \<and> bo_config b = default_backoff_config"
    using retry_loop_metrics [OF _ _ _ _ loop, where P = ?ok and Inv = "\<lambda>st. kept (snd (snd st))"]
    by (auto simp: attempt_series_in cfg default_backoff_config_def kept_def attempt_request_def make_request_metrics
        Let_def split_beta split: sum.split)
  then show ?thesis
    using assms loop client_series_in
    by (auto simp: get_ticker_prices_def retry_def observe_request_def default_retries_def client_metrics_ok_def
        kept_def Let_def split: option.splits)
qed

definition metrics_inv :: "('c, 'h, 'r) platform \<Rightarrow> ('r, 'h) app_world server \<Rightarrow> bool" where
  "metrics_inv p s \<longleftrightarrow> app_inv p s \<and> client_metrics_ok (snd (world s)) \<and>
     list_all (\<lambda>m. rl_series m \<in> set limiter_series) (metric_log (limiter s))"

lemma client_call_metrics: "client_call p k k' \<Longrightarrow> client_metrics_ok k \<Longrightarrow> client_metrics_ok k'"
  using ticker_prices_metrics by (auto simp: client_call_def)

lemma limiter_series_in [simp]:
  "(rate_limit_allows_family, []) \<in> set limiter_series" "(rate_limit_rejects_family, [''global'']) \<in> set limiter_series"
  "(rate_limit_rejects_family, [''per_ip'']) \<in> set limiter_series" "(rate_limit_ips_tracked_family, []) \<in> set limiter_series"
  by (simp_all add: limiter_series_def)

lemma allow_metrics:
  assumes "per_ip_refill_rate (config rl) \<noteq> 0" and "list_all (\<lambda>m. rl_series m \<in> set limiter_series) (metric_log rl)"
  shows "list_all (\<lambda>m. rl_series m \<in> set limiter_series) (metric_log (snd (limiter_allow c ip rl)))"
  using assms(1) by (rule limiter_allow_cases [of rl c ip]) (use assms(2) in auto)

lemma metrics_inv_stable: "stable (metrics_inv p)"
  unfolding stable_def
proof (intro allI impI conjI)
  fix s
  assume s: "metrics_inv p s"
  then have app: "app_inv p s" by (simp add: metrics_inv_def)
  note st = stableD [OF app_inv_stable app]
  have rate: "per_ip_refill_rate (config (limiter s)) \<noteq> 0" using app by (simp add: app_inv_def default_rl_config_def)
  have world: "metrics_inv p (s\<lparr>world := x\<rparr>)" if "app_inv p (s\<lparr>world := x\<rparr>)" and "client_call p (snd (world s)) (snd x)" for x
    using that s client_call_metrics by (auto simp: metrics_inv_def)
  show "metrics_inv p (s\<lparr>world := snd (svc s c ps (world s))\<rparr>)" for c ps
    using service_client [of p "world s" c ps] app by (intro world st(1)) (simp add: app_inv_def)
  show "metrics_inv p (s\<lparr>world := snd (readiness_check (health_checker s) c (world s))\<rparr>)" for c
    using checks_client [of p "world s" c] app by (intro world st(2)) (simp add: app_inv_def)
  show "metrics_inv p (s\<lparr>limiter := snd (limiter_allow c ip (limiter s))\<rparr>)" for c ip
    using st(3) s allow_metrics [OF rate] by (simp add: metrics_inv_def)
  show "metrics_inv p (s\<lparr>server_log := xs\<rparr>)" and "metrics_inv p (s\<lparr>http_metrics := ms\<rparr>)" for xs ms
    using st(4,5) s by (simp_all add: metrics_inv_def)
qed

lemma setup_metrics:
  assumes "main_setup p env c h = Inr s"
  shows "metrics_inv p s"
proof -
  have kept: "limiter (fold add_health_check cs x) = limiter x" for cs and x :: "('a, 'b) app_world server"
    by (induction cs arbitrary: x) (simp_all add: add_health_check_def)
  have "client_metrics_ok (snd (world s)) \<and> metric_log (limiter s) = []"
    using assms kept
    by (auto simp: main_setup_def new_server_def new_rate_limiter_def new_client_def new_backoff_def client_metrics_ok_def
        default_retries_def Let_def split: sum.splits)
  then show ?thesis using main_setup_inv [OF assms] by (simp add: metrics_inv_def)
qed

lemma reachable_metrics:
  assumes "is_order (pf_order p)" and "keeps_slashes (pf_unicode p)" and "foreign_handlers ext"
  shows "reachable p env ext s \<Longrightarrow> metrics_inv p s"
proof (induction rule: reachable.induct)
  case (started c h s)
  then show ?case by (rule setup_metrics)
next
  case (request s c r out w s')
  have "handler_keeps (metrics_inv p) (server_handler (pf_unicode p) ext)"
    using assms(3) by (intro keeps_server_handler metrics_inv_stable) (simp_all add: handler_keeps_def foreign_handlers_def)
  then show ?case using request by (blast intro: keeps_result)
next
  case (refresh s f k e f' k')
  from reachable.refresh [OF refresh.hyps]
  have app: "app_inv p (s\<lparr>world := (FallbackCache f', k')\<rparr>)" by (rule reachable_inv [OF assms])
  have "slash_free f" using refresh.IH refresh.hyps(2) by (simp add: metrics_inv_def app_inv_def)
  then have "k' = k" using worker_moves_keys_only [OF assms(1,2) _ refresh.hyps(3)] by blast
  then show ?case using app refresh.IH refresh.hyps(2) by (simp add: metrics_inv_def)
next
  case (evict s f k ce)
  from reachable.evict [OF evict.hyps]
  have "app_inv p (s\<lparr>world := (FallbackCache (cleanup_worker (redis_ops (pf_redis p)) (pf_order p) [ce] f), k)\<rparr>)"
    by (rule reachable_inv [OF assms])
  then show ?case using evict.IH evict.hyps(2) by (simp add: metrics_inv_def)
next
  case (forget s now)
  then show ?case by (simp add: metrics_inv_def app_inv_def) (simp add: cleanup_def Let_def)
next
  case (gauges s now)
  then show ?case
    by (simp add: metrics_inv_def app_inv_def update_rate_limit_metrics_def get_stats_def split_beta Let_def)
qed

subsection \<open>Properties\<close>

text \<open>
  The package starts: a registry that has none of the names, and that takes every family
  its library's documentation allows, takes all fourteen, so that no variable panics when
  it is initialised, and has exactly their names more.
\<close>

theorem metrics_initialise:
  assumes "is_registry names register" and "names reg \<inter> set (map family_name metric_families) = {}"
  shows "\<exists>reg'. register_all register metric_families reg = Inr reg' \<and>
    names reg' = names reg \<union> set (map family_name metric_families)"
  using register_all_ok [OF assms(1) families_ok families_distinct assms(2)] .

text \<open>A registry that checks what the documentation says, and knows the families by their names.\<close>

definition strict_register :: "metric_family \<Rightarrow> string list \<Rightarrow> string + string list" where
  "strict_register fam reg =
     (if family_ok fam \<and> family_name fam \<notin> set reg then Inr (family_name fam # reg)
      else Inl ''duplicate metrics collector registration attempted'')"

theorem metrics_initialise_witness:
  "\<exists>reg. register_all strict_register metric_families [''go_goroutines''] = Inr reg \<and> ''cache_size'' \<in> set reg"
proof -
  have "is_registry set strict_register" by (simp add: is_registry_def strict_register_def)
  moreover have "set [''go_goroutines''] \<inter> set (map family_name metric_families) = {}"
    by (simp add: family_names)
  ultimately obtain reg where "register_all strict_register metric_families [''go_goroutines''] = Inr reg"
    "set reg = set [''go_goroutines''] \<union> set (map family_name metric_families)"
    using metrics_initialise [of set strict_register "[''go_goroutines'']"] by blast
  then show ?thesis by (simp add: family_names)
qed

lemma inner_series_ok: "x \<in> set limiter_series \<union> set client_series \<Longrightarrow> series_ok x"
  by (auto simp: limiter_series_def client_series_def series_ok_def metric_families_def family_defs)

text \<open>
  C25: The metrics of limiter and client are bounded: in every reachable state, every
  observation they have made belongs to one of seventeen series, whatever addresses, pairs
  and errors the service has met, and each of them has as many label values as its family
  has labels.  No observation belongs to a cache family.
\<close>

theorem inner_series_bounded:
  assumes "is_order (pf_order p)" and "keeps_slashes (pf_unicode p)" and "foreign_handlers ext"
    and "reachable p env ext s"
  shows "set (inner_series s) \<subseteq> set (limiter_series @ client_series) \<and> list_all series_ok (inner_series s)"
proof -
  have "set (inner_series s) \<subseteq> set limiter_series \<union> set client_series"
    using reachable_metrics [OF assms] by (auto simp: metrics_inv_def client_metrics_ok_def inner_series_def list_all_iff)
  then show ?thesis using inner_series_ok by (auto simp: list_all_iff)
qed

theorem inner_series_bounded_witness:
  "\<exists>s. reachable sample_platform fallback_env quiet_externals s \<and> set (inner_series s) \<subseteq> set (limiter_series @ client_series)"
proof -
  obtain s where s: "main_setup sample_platform fallback_env (\<lambda>_. 0) [busy_reply, sample_reply] = Inr s" by (rule sample_start)
  have "reachable sample_platform fallback_env quiet_externals s" using s by (rule started)
  with inner_series_bounded [OF sample_platform_ok quiet_foreign this] show ?thesis by blast
qed

end
