(* ===== verification/Concurrent_Limiter.thy ===== *)
theory Concurrent_Limiter
  imports Rate_Limiter
begin

text \<open>
  \<open>RateLimiter.Allow\<close> as goroutines run it.  An \<open>Allow\<close> is not atomic: it takes the
  lock of the global bucket, then the lock of the map of addresses, and, when the address is
  refused, the lock of the global bucket again.  The steps of this theory are the sections
  between \<open>Lock\<close> and \<open>Unlock\<close>; those of any number of goroutines are interleaved with
  each other, with the cleanup and with the reading of the statistics.
\<close>

declare One_nat_def [simp del]

subsection \<open>Goroutines and their steps\<close>

text \<open>Where a goroutine stands: outside \<open>Allow\<close>, after the global limit, after a refusal of its address.\<close>

datatype allow_pc = Outside | HoldsToken string | MustReturn string

record concurrent_limiter =
  cl_shared :: rate_limiter
  cl_pc :: "nat \<Rightarrow> allow_pc"
  cl_answers :: "(string \<times> bool) list"

definition start_limiter :: "rate_limiter \<Rightarrow> concurrent_limiter" where
  "start_limiter rl = \<lparr>cl_shared = rl, cl_pc = (\<lambda>_. Outside), cl_answers = []\<rparr>"

datatype allow_act =
    TakeToken nat instant string
  | AskAddress nat clock
  | ReturnToken nat
  | RunCleanup instant
  | ReadStats instant

definition goes :: "nat \<Rightarrow> allow_pc \<Rightarrow> rate_limiter \<Rightarrow> concurrent_limiter \<Rightarrow> concurrent_limiter" where
  "goes g pc rl s = s\<lparr>cl_shared := rl, cl_pc := (cl_pc s)(g := pc)\<rparr>"

definition answers :: "nat \<Rightarrow> string \<Rightarrow> bool \<Rightarrow> rl_metric \<Rightarrow> rate_limiter \<Rightarrow> concurrent_limiter \<Rightarrow> concurrent_limiter" where
  "answers g ip b metric rl s = (goes g Outside (log_metric metric rl) s)\<lparr>cl_answers := cl_answers s @ [(ip, b)]\<rparr>"

inductive allow_step :: "concurrent_limiter \<Rightarrow> allow_act \<Rightarrow> concurrent_limiter \<Rightarrow> bool" where
  token_taken: "cl_pc s g = Outside \<Longrightarrow> bucket_allow now (global_bucket (cl_shared s)) = (True, gb) \<Longrightarrow>
    allow_step s (TakeToken g now ip) (goes g (HoldsToken ip) ((cl_shared s)\<lparr>global_bucket := gb\<rparr>) s)"
| no_token: "cl_pc s g = Outside \<Longrightarrow> bucket_allow now (global_bucket (cl_shared s)) = (False, gb) \<Longrightarrow>
    allow_step s (TakeToken g now ip)
      (answers g ip False (RateLimitRejects ''global'') ((cl_shared s)\<lparr>global_bucket := gb\<rparr>) s)"
| admitted: "cl_pc s g = HoldsToken ip \<Longrightarrow> allow_ip c ip (cl_shared s) = (Inr True, rl) \<Longrightarrow>
    allow_step s (AskAddress g c) (answers g ip True RateLimitAllows rl s)"
| refused: "cl_pc s g = HoldsToken ip \<Longrightarrow> allow_ip c ip (cl_shared s) = (Inr False, rl) \<Longrightarrow>
    allow_step s (AskAddress g c) (goes g (MustReturn ip) rl s)"
| token_returned: "cl_pc s g = MustReturn ip \<Longrightarrow>
    allow_step s (ReturnToken g)
      (answers g ip False (RateLimitRejects ''per_ip'') (return_global_token (cl_shared s)) s)"
| cleaned: "allow_step s (RunCleanup now) (s\<lparr>cl_shared := cleanup now (cl_shared s)\<rparr>)"
| stats_read: "allow_step s (ReadStats now) (s\<lparr>cl_shared := snd (get_stats now (cl_shared s))\<rparr>)"

inductive_cases take_stepE: "allow_step s (TakeToken g now ip) s'"
inductive_cases ask_stepE: "allow_step s (AskAddress g c) s'"
inductive_cases return_stepE: "allow_step s (ReturnToken g) s'"
inductive_cases cleanup_stepE: "allow_step s (RunCleanup now) s'"
inductive_cases stats_stepE: "allow_step s (ReadStats now) s'"

inductive allow_run :: "concurrent_limiter \<Rightarrow> allow_act list \<Rightarrow> concurrent_limiter \<Rightarrow> bool" where
  run_nil: "allow_run s [] s"
| run_step: "allow_step s a s' \<Longrightarrow> allow_run s' as s'' \<Longrightarrow> allow_run s (a # as) s''"

inductive_cases run_ConsE: "allow_run s (a # as) s''"
inductive_cases run_NilE: "allow_run s [] s''"

text \<open>
  The sections under one lock follow one another in time; sections under different locks
  may overlap.  \<open>d\<close> bounds the duration of a section.
\<close>

fun global_order :: "instant \<Rightarrow> allow_act list \<Rightarrow> instant \<Rightarrow> bool" where
  "global_order t [] T \<longleftrightarrow> t \<le> T"
| "global_order t (TakeToken g now ip # as) T \<longleftrightarrow> t \<le> now \<and> global_order now as T"
| "global_order t (ReadStats now # as) T \<longleftrightarrow> t \<le> now \<and> global_order now as T"
| "global_order t (_ # as) T \<longleftrightarrow> global_order t as T"

fun address_order :: "duration \<Rightarrow> instant \<Rightarrow> allow_act list \<Rightarrow> instant \<Rightarrow> bool" where
  "address_order d t [] T \<longleftrightarrow> t \<le> T"
| "address_order d t (AskAddress g c # as) T \<longleftrightarrow>
     mono_clock c \<and> t \<le> now_at c 0 \<and> now_at c 2 - now_at c 0 \<le> d \<and> address_order d (now_at c 2) as T"
| "address_order d t (RunCleanup now # as) T \<longleftrightarrow> t \<le> now \<and> address_order d now as T"
| "address_order d t (_ # as) T \<longleftrightarrow> address_order d t as T"

lemma goes_fields [simp]:
  "cl_shared (goes g pc rl s) = rl" "cl_pc (goes g pc rl s) = (cl_pc s)(g := pc)"
  "cl_answers (goes g pc rl s) = cl_answers s"
  "cl_shared (answers g ip b metric rl s) = log_metric metric rl"
  "cl_pc (answers g ip b metric rl s) = (cl_pc s)(g := Outside)"
  "cl_answers (answers g ip b metric rl s) = cl_answers s @ [(ip, b)]"
  by (simp_all add: goes_def answers_def)

subsection \<open>The global limit\<close>

text \<open>What the global bucket is entitled to, the tokens that goroutines hold, and the tokens spent.\<close>

definition token_holders :: "concurrent_limiter \<Rightarrow> nat set" where
  "token_holders s = {g. cl_pc s g \<noteq> Outside}"

definition admissions :: "concurrent_limiter \<Rightarrow> nat" where
  "admissions s = length (filter snd (cl_answers s))"

definition tokens_spent :: "concurrent_limiter \<Rightarrow> int" where
  "tokens_spent s = 10 ^ 9 * (int (card (token_holders s)) + int (admissions s))"

definition global_sound :: "rl_config \<Rightarrow> concurrent_limiter \<Rightarrow> instant \<Rightarrow> bool" where
  "global_sound cfg s t \<longleftrightarrow> global_metered cfg (cl_shared s) t \<and> finite (token_holders s)"

lemma holders_goes: "token_holders (goes g pc rl s) =
    (if pc = Outside then token_holders s - {g} else insert g (token_holders s))"
  by (auto simp: token_holders_def)

lemma holders_answers: "token_holders (answers g ip b metric rl s) = token_holders s - {g}"
  by (auto simp: token_holders_def)

lemma admissions_answers [simp]:
  "admissions (goes g pc rl s) = admissions s"
  "admissions (answers g ip b metric rl s) = admissions s + (if b then 1 else 0)"
  by (simp_all add: admissions_def)

lemma global_metered_cong: "config rl' = config rl \<Longrightarrow> global_bucket rl' = global_bucket rl \<Longrightarrow>
    global_metered cfg rl' t = global_metered cfg rl t \<and> global_entitled rl' t = global_entitled rl t"
  by (simp add: global_metered_def global_entitled_def)

lemma allow_ip_keeps_global:
  assumes "per_ip_refill_rate (config rl) \<noteq> 0"
  shows "config (snd (allow_ip c ip rl)) = config rl" and "global_bucket (snd (allow_ip c ip rl)) = global_bucket rl"
  using assms by (rule allow_ip_eq [of rl c ip]; simp)+

fun global_time :: "instant \<Rightarrow> allow_act \<Rightarrow> instant" where
  "global_time t (TakeToken g now ip) = now"
| "global_time t (ReadStats now) = now"
| "global_time t _ = t"

lemma global_order_Cons: "global_order t (a # as) T \<longleftrightarrow> t \<le> global_time t a \<and> global_order (global_time t a) as T"
  by (cases a) simp_all

definition global_account :: "concurrent_limiter \<Rightarrow> instant \<Rightarrow> int" where
  "global_account s t = global_entitled (cl_shared s) t + tokens_spent s"

lemma card_out: "finite A \<Longrightarrow> g \<in> A \<Longrightarrow> int (card A - 1) = int (card A) - 1"
  using card_gt_0_iff [of A] by (auto simp: of_nat_diff)

lemma global_act:
  assumes "allow_step s a s'" and sound: "global_sound cfg s t" and time: "t \<le> global_time t a"
  shows "global_sound cfg s' (global_time t a) \<and>
    global_account s' (global_time t a) \<le> global_account s t + global_refill_rate cfg * (global_time t a - t)"
proof -
  have m: "global_metered cfg (cl_shared s) t" and fin: "finite (token_holders s)"
    using sound by (auto simp: global_sound_def)
  let ?rl = "cl_shared s" and ?R = "global_refill_rate cfg"
  have nz: "per_ip_refill_rate (config ?rl) \<noteq> 0" using m by (simp add: global_metered_def)
  from assms(1) show ?thesis
  proof cases
    case (token_taken g now gb ip)
    have now: "global_metered cfg ?rl now" "global_entitled ?rl now = global_entitled ?rl t + ?R * (now - t)"
      using global_later [OF m, of now] global_grows [OF m, of now] time by (simp_all add: token_taken)
    have b: "bucket_metered (global_capacity cfg) ?R (global_bucket ?rl) now" using now(1) by (simp add: global_metered_def)
    have "g \<notin> token_holders s" using token_taken by (simp add: token_holders_def)
    then show ?thesis
      using allow_metered [OF b] now m fin token_taken
      by (simp add: global_sound_def global_account_def global_metered_def global_entitled_def tokens_spent_def holders_goes)
  next
    case (no_token g now gb ip)
    have now: "global_metered cfg ?rl now" "global_entitled ?rl now = global_entitled ?rl t + ?R * (now - t)"
      using global_later [OF m, of now] global_grows [OF m, of now] time by (simp_all add: no_token)
    have b: "bucket_metered (global_capacity cfg) ?R (global_bucket ?rl) now" using now(1) by (simp add: global_metered_def)
    have "token_holders s - {g} = token_holders s" using no_token by (auto simp: token_holders_def)
    then show ?thesis
      using allow_metered [OF b] now m fin no_token
      by (simp add: global_sound_def global_account_def global_metered_def global_entitled_def tokens_spent_def holders_answers)
  next
    case (admitted g ip c rl)
    have rl: "config rl = config ?rl" "global_bucket rl = global_bucket ?rl"
      using allow_ip_keeps_global [OF nz, of c ip] admitted by simp_all
    have "g \<in> token_holders s" using admitted by (simp add: token_holders_def)
    note out = card_out [OF fin this] this
    then show ?thesis
      using m fin admitted global_metered_cong [of "log_metric RateLimitAllows rl" ?rl cfg t] rl
      by (simp add: global_sound_def global_account_def tokens_spent_def holders_answers out)
  next
    case (refused g ip c rl)
    have rl: "config rl = config ?rl" "global_bucket rl = global_bucket ?rl"
      using allow_ip_keeps_global [OF nz, of c ip] refused by simp_all
    have "insert g (token_holders s) = token_holders s" using refused by (auto simp: token_holders_def)
    then show ?thesis
      using m fin refused global_metered_cong [of rl ?rl cfg t] rl
      by (simp add: global_sound_def global_account_def tokens_spent_def holders_goes)
  next
    case (token_returned g ip)
    have b: "bucket_metered (global_capacity cfg) ?R (global_bucket ?rl) t" using m by (simp add: global_metered_def)
    have "g \<in> token_holders s" using token_returned by (simp add: token_holders_def)
    note out = card_out [OF fin this] this
    then show ?thesis
      using return_token_metered [OF b] m fin token_returned
      by (simp add: global_sound_def global_account_def global_metered_def global_entitled_def tokens_spent_def
          holders_answers out)
  next
    case (cleaned now)
    then show ?thesis using m fin global_metered_cong [of "cleanup now ?rl" ?rl cfg t]
      by (simp add: global_sound_def global_account_def tokens_spent_def token_holders_def admissions_def)
  next
    case (stats_read now)
    have now: "global_metered cfg ?rl now" "global_entitled ?rl now = global_entitled ?rl t + ?R * (now - t)"
      using global_later [OF m, of now] global_grows [OF m, of now] time by (simp_all add: stats_read)
    have b: "bucket_metered (global_capacity cfg) ?R (global_bucket ?rl) now" using now(1) by (simp add: global_metered_def)
    then show ?thesis
      using refill_metered [OF b] refill_entitled [OF b] now m fin stats_read
      by (simp add: global_sound_def global_account_def global_metered_def global_entitled_def tokens_spent_def
          token_holders_def admissions_def)
  qed
qed

lemma global_run:
  assumes "allow_run s as s'" and "global_sound cfg s t" and "global_order t as T"
  shows "global_sound cfg s' T \<and> global_account s' T \<le> global_account s t + global_refill_rate cfg * (T - t)"
  using assms
proof (induction arbitrary: t rule: allow_run.induct)
  case (run_nil s)
  then have m: "global_metered cfg (cl_shared s) t" and le: "t \<le> T" by (simp_all add: global_sound_def)
  then show ?case using run_nil global_later [OF m, of T] global_grows [OF m, of T] by (simp add: global_sound_def global_account_def)
next
  case (run_step s a s' as s'')
  let ?t = "global_time t a"
  have time: "t \<le> ?t" and rest: "global_order ?t as T" using run_step.prems(2) by (simp_all add: global_order_Cons)
  note act = global_act [OF run_step.hyps(1) run_step.prems(1) time]
  have "global_sound cfg s' ?t" using act by simp
  from run_step.IH [OF this rest] act show ?case by (simp add: algebra_simps)
qed

subsection \<open>The limit of one address\<close>

lemma ask_metered:
  assumes m: "ip_metered d cfg rl t" and c: "mono_clock c" "t \<le> now_at c 0" "now_at c 2 - now_at c 0 \<le> d"
  shows "ip_metered d cfg (snd (allow_ip c ip rl)) (now_at c 2)"
    and "ip_entitled a (snd (allow_ip c ip rl)) (now_at c 2)
        + (if fst (allow_ip c ip rl) = Inr True \<and> ip = a then 10 ^ 9 else 0)
      \<le> ip_entitled a rl t + per_ip_refill_rate cfg * (now_at c 2 - t)"
proof -
  let ?t = "now_at c 2" and ?B = "bucket_of c ip rl" and ?R = "per_ip_refill_rate cfg"
  have times: "now_at c 0 \<le> now_at c 1" "now_at c 1 \<le> ?t" by (auto intro: now_at_le [OF c(1)])
  then have le: "t \<le> ?t" "t \<le> now_at c 1" using c(2) by linarith+
  have nz: "per_ip_refill_rate (config rl) \<noteq> 0" using m by (auto simp: ip_metered_def config_ok_def)
  have later: "ip_metered d cfg rl ?t" using m le(1) by (rule ip_later)
  note grow = ip_grows [OF m le(1)]
  note B = bucket_of_metered [OF m le(2) times(2), of ip]
  note A = allow_metered [OF B(1)]
  obtain rl' where st: "allow_ip c ip rl = (Inr (fst (bucket_allow ?t ?B)), rl')"
    and get: "\<And>ip'. gm_get (ip_buckets rl') ip' =
      (if ip' = ip then Some \<lparr>ip_bucket = snd (bucket_allow ?t ?B), last_seen = now_at c 0\<rparr> else gm_get (ip_buckets rl) ip')"
    and rl': "gm_ok (ip_buckets rl) \<Longrightarrow> gm_ok (ip_buckets rl')" "config rl' = config rl"
    using nz by (rule allow_ip_eq [of rl c ip]) blast
  have "last_refill (snd (bucket_allow ?t ?B)) \<le> now_at c 0 + d"
    using A(1) c(3) by (auto simp: bucket_metered_def)
  then show "ip_metered d cfg (snd (allow_ip c ip rl)) ?t"
    using later rl' get A(1) by (auto simp: st ip_metered_def entry_metered_def)
  show "ip_entitled a (snd (allow_ip c ip rl)) ?t + (if fst (allow_ip c ip rl) = Inr True \<and> ip = a then 10 ^ 9 else 0)
      \<le> ip_entitled a rl t + ?R * (?t - t)"
  proof (cases "ip = a")
    case True
    then show ?thesis using A(2) B(2) by (simp add: st ip_entitled_def get True [symmetric])
  next
    case False
    then have "ip_entitled a rl' ?t = ip_entitled a rl ?t" using rl'(2) by (simp add: ip_entitled_def get split: option.split)
    then show ?thesis using grow [of a] False by (simp add: st)
  qed
qed

fun address_time :: "instant \<Rightarrow> allow_act \<Rightarrow> instant" where
  "address_time t (AskAddress g c) = now_at c 2"
| "address_time t (RunCleanup now) = now"
| "address_time t _ = t"

fun address_section :: "duration \<Rightarrow> instant \<Rightarrow> allow_act \<Rightarrow> bool" where
  "address_section d t (AskAddress g c) \<longleftrightarrow> mono_clock c \<and> t \<le> now_at c 0 \<and> now_at c 2 - now_at c 0 \<le> d"
| "address_section d t (RunCleanup now) \<longleftrightarrow> t \<le> now"
| "address_section d t _ \<longleftrightarrow> True"

lemma address_order_Cons: "address_order d t (a # as) T \<longleftrightarrow> address_section d t a \<and> address_order d (address_time t a) as T"
  by (cases a) simp_all

definition admissions_of :: "string \<Rightarrow> concurrent_limiter \<Rightarrow> nat" where
  "admissions_of a s = count_list (cl_answers s) (a, True)"

definition address_account :: "string \<Rightarrow> concurrent_limiter \<Rightarrow> instant \<Rightarrow> int" where
  "address_account a s t = ip_entitled a (cl_shared s) t + 10 ^ 9 * int (admissions_of a s)"

lemma admissions_of_answers [simp]:
  "admissions_of a (goes g pc rl s) = admissions_of a s"
  "admissions_of a (answers g ip b metric rl s) = admissions_of a s + (if b \<and> ip = a then 1 else 0)"
  by (simp_all add: admissions_of_def)

lemma address_act:
  assumes "allow_step s a s'" and m: "ip_metered d cfg (cl_shared s) t" and sec: "address_section d t a"
  shows "ip_metered d cfg (cl_shared s') (address_time t a) \<and>
    address_account x s' (address_time t a) \<le> address_account x s t + per_ip_refill_rate cfg * (address_time t a - t)"
proof -
  let ?rl = "cl_shared s"
  note cong = ip_metered_cong [where d = d and cfg = cfg and a = x]
  from assms(1) show ?thesis
  proof cases
    case (token_taken g now gb ip)
    then show ?thesis using m cong [of "?rl\<lparr>global_bucket := gb\<rparr>" ?rl t] by (simp add: address_account_def)
  next
    case (no_token g now gb ip)
    then show ?thesis
      using m cong [of "log_metric (RateLimitRejects ''global'') (?rl\<lparr>global_bucket := gb\<rparr>)" ?rl t]
      by (simp add: address_account_def)
  next
    case (admitted g ip c rl)
    have c: "mono_clock c" "t \<le> now_at c 0" "now_at c 2 - now_at c 0 \<le> d" using sec admitted by simp_all
    show ?thesis
      using ask_metered(1) [OF m c, of ip] ask_metered(2) [OF m c, where ip = ip and a = x] admitted cong [of "log_metric RateLimitAllows rl" rl "now_at c 2"]
      by (cases "ip = x") (simp_all add: address_account_def algebra_simps)
  next
    case (refused g ip c rl)
    have c: "mono_clock c" "t \<le> now_at c 0" "now_at c 2 - now_at c 0 \<le> d" using sec refused by simp_all
    show ?thesis using ask_metered(1) [OF m c, of ip] ask_metered(2) [OF m c, where ip = ip and a = x] refused by (simp add: address_account_def)
  next
    case (token_returned g ip)
    then show ?thesis
      using m cong [of "log_metric (RateLimitRejects ''per_ip'') (return_global_token ?rl)" ?rl t]
      by (simp add: address_account_def)
  next
    case (cleaned now)
    then have le: "t \<le> now" using sec by simp
    show ?thesis
      using ip_cleanup_step(1) [OF ip_later [OF m le]] ip_cleanup_step(2) [OF ip_later [OF m le], of x] ip_grows [OF m le, of x] cleaned
      by (simp add: address_account_def admissions_of_def)
  next
    case (stats_read now)
    then show ?thesis using m cong [of "snd (get_stats now ?rl)" ?rl t]
      by (simp add: address_account_def admissions_of_def)
  qed
qed

lemma address_run:
  assumes "allow_run s as s'" and "ip_metered d cfg (cl_shared s) t" and "address_order d t as T"
  shows "ip_metered d cfg (cl_shared s') T \<and>
    address_account x s' T \<le> address_account x s t + per_ip_refill_rate cfg * (T - t)"
  using assms
proof (induction arbitrary: t rule: allow_run.induct)
  case (run_nil s)
  then show ?case using ip_later [of d cfg "cl_shared s" t T] ip_grows [of d cfg "cl_shared s" t T x]
    by (simp add: address_account_def)
next
  case (run_step s a s' as s'')
  have sec: "address_section d t a" and rest: "address_order d (address_time t a) as T"
    using run_step.prems(2) by (simp_all add: address_order_Cons)
  note act = address_act [OF run_step.hyps(1) run_step.prems(1) sec, of x]
  have "ip_metered d cfg (cl_shared s') (address_time t a)" using act by simp
  from run_step.IH [OF this rest] act show ?case by (simp add: algebra_simps)
qed

subsection \<open>An address that is left alone\<close>

text \<open>A run in which nobody asks for the address \<open>a\<close>.\<close>

definition nobody_asks :: "string \<Rightarrow> concurrent_limiter \<Rightarrow> allow_act list \<Rightarrow> bool" where
  "nobody_asks a s acts \<longleftrightarrow> (\<forall>g. cl_pc s g \<noteq> HoldsToken a) \<and> (\<forall>g now. TakeToken g now a \<notin> set acts)"

text \<open>The bucket is the one of time \<open>t\<close> or is gone.\<close>

definition left_alone :: "string \<Rightarrow> concurrent_limiter \<Rightarrow> concurrent_limiter \<Rightarrow> bool" where
  "left_alone a s s' \<longleftrightarrow> gm_get (ip_buckets (cl_shared s')) a \<in> {gm_get (ip_buckets (cl_shared s)) a, None}"

lemma left_alone_step:
  assumes "allow_step s act s'" and "nobody_asks a s (act # acts)" and m: "ip_metered d cfg (cl_shared s) t"
    and sec: "address_section d t act"
  shows "left_alone a s s' \<and> nobody_asks a s' acts"
  using assms(1)
proof cases
  case (admitted g ip c rl)
  have "per_ip_refill_rate (config (cl_shared s)) \<noteq> 0" using m by (auto simp: ip_metered_def config_ok_def)
  moreover have "ip \<noteq> a" using assms(2) admitted by (auto simp: nobody_asks_def)
  ultimately have "gm_get (ip_buckets rl) a = gm_get (ip_buckets (cl_shared s)) a"
    using admitted(4) by (metis (no_types, lifting) allow_ip_eq snd_conv)
  then show ?thesis using admitted assms(2) by (auto simp: left_alone_def nobody_asks_def)
next
  case (refused g ip c rl)
  have "per_ip_refill_rate (config (cl_shared s)) \<noteq> 0" using m by (auto simp: ip_metered_def config_ok_def)
  moreover have "ip \<noteq> a" using assms(2) refused by (auto simp: nobody_asks_def)
  ultimately have "gm_get (ip_buckets rl) a = gm_get (ip_buckets (cl_shared s)) a"
    using refused(4) by (metis (no_types, lifting) allow_ip_eq snd_conv)
  then show ?thesis using refused assms(2) by (auto simp: left_alone_def nobody_asks_def)
next
  case (cleaned now)
  then have "t \<le> now" using sec by simp
  then show ?thesis using ip_cleanup_get [OF ip_later [OF m], of now a] cleaned assms(2)
    by (auto simp: left_alone_def nobody_asks_def split: option.split)
qed (use assms(2) in \<open>auto simp: left_alone_def nobody_asks_def\<close>)

lemma left_alone_run:
  assumes "allow_run s acts s'" and "nobody_asks a s acts" and "ip_metered d cfg (cl_shared s) t" and "address_order d t acts T"
  shows "left_alone a s s'"
  using assms
proof (induction arbitrary: t rule: allow_run.induct)
  case (run_nil s)
  then show ?case by (simp add: left_alone_def)
next
  case (run_step s act s' acts s'')
  have sec: "address_section d t act" and rest: "address_order d (address_time t act) acts T"
    using run_step.prems(3) by (simp_all add: address_order_Cons)
  have m: "ip_metered d cfg (cl_shared s') (address_time t act)"
    using address_act [OF run_step.hyps(1) run_step.prems(2) sec] by blast
  note step = left_alone_step [OF run_step.hyps(1) run_step.prems(1,2) sec]
  have "left_alone a s' s''" using step m rest by (intro run_step.IH) auto
  then show ?case using step by (auto simp: left_alone_def)
qed

subsection \<open>The steps as a function\<close>

text \<open>The steps of a goroutine as functions, for evaluation.\<close>

fun allow_next :: "concurrent_limiter \<Rightarrow> allow_act \<Rightarrow> concurrent_limiter option" where
  "allow_next s (TakeToken g now ip) =
     (if cl_pc s g \<noteq> Outside then None
      else
        (let (ok, gb) = bucket_allow now (global_bucket (cl_shared s)); rl = (cl_shared s)\<lparr>global_bucket := gb\<rparr>
         in Some (if ok then goes g (HoldsToken ip) rl s else answers g ip False (RateLimitRejects ''global'') rl s)))"
| "allow_next s (AskAddress g c) =
     (case cl_pc s g of
        HoldsToken ip \<Rightarrow>
          (case allow_ip c ip (cl_shared s) of
             (Inl panic, rl) \<Rightarrow> None
           | (Inr ok, rl) \<Rightarrow> Some (if ok then answers g ip True RateLimitAllows rl s else goes g (MustReturn ip) rl s))
      | _ \<Rightarrow> None)"
| "allow_next s (ReturnToken g) =
     (case cl_pc s g of
        MustReturn ip \<Rightarrow>
          Some (answers g ip False (RateLimitRejects ''per_ip'') (return_global_token (cl_shared s)) s)
      | _ \<Rightarrow> None)"
| "allow_next s (RunCleanup now) = Some (s\<lparr>cl_shared := cleanup now (cl_shared s)\<rparr>)"
| "allow_next s (ReadStats now) = Some (s\<lparr>cl_shared := snd (get_stats now (cl_shared s))\<rparr>)"

fun allow_path :: "concurrent_limiter \<Rightarrow> allow_act list \<Rightarrow> concurrent_limiter option" where
  "allow_path s [] = Some s"
| "allow_path s (a # as) = (case allow_next s a of Some s' \<Rightarrow> allow_path s' as | None \<Rightarrow> None)"

lemma allow_step_next: "allow_step s a s' \<longleftrightarrow> allow_next s a = Some s'"
proof
  assume "allow_step s a s'"
  then show "allow_next s a = Some s'" by cases simp_all
next
  assume "allow_next s a = Some s'"
  then show "allow_step s a s'"
    by (cases a) (auto simp: Let_def intro: allow_step.intros split: if_splits allow_pc.splits sum.splits prod.splits)
qed

lemma allow_run_path: "allow_run s as s' \<longleftrightarrow> allow_path s as = Some s'"
proof
  assume "allow_run s as s'"
  then show "allow_path s as = Some s'" by induction (simp_all add: allow_step_next)
next
  assume "allow_path s as = Some s'"
  then show "allow_run s as s'"
    by (induction as arbitrary: s) (auto simp: allow_step_next intro: run_nil run_step split: option.splits)
qed

lemma path_of_allow:
  assumes "cl_pc s g = Outside" and "limiter_allow c ip (cl_shared s) = (Inr b, rl)"
  shows "\<exists>acts s'. allow_path s acts = Some s' \<and> length acts \<le> 3 \<and> cl_shared s' = rl \<and> cl_pc s' = cl_pc s \<and>
    cl_answers s' = cl_answers s @ [(ip, b)]"
proof -
  have pc: "(cl_pc s)(g := Outside) = cl_pc s" using assms(1) by (simp add: fun_upd_idem)
  obtain ok gb where t: "bucket_allow (now_at c 0) (global_bucket (cl_shared s)) = (ok, gb)" by fastforce
  show ?thesis
  proof (cases ok)
    case False
    then show ?thesis using assms t pc
      by (intro exI [of _ "[TakeToken g (now_at c 0) ip]"]) (auto simp: limiter_allow_def)
  next
    case True
    obtain r rl' where a: "allow_ip (in_call c 1) ip ((cl_shared s)\<lparr>global_bucket := gb\<rparr>) = (r, rl')" by fastforce
    then obtain b' where r: "r = Inr b'" using assms(2) t True by (cases r) (auto simp: limiter_allow_def)
    show ?thesis
    proof (cases b')
      case True
      then show ?thesis using assms t \<open>ok\<close> a r pc
        by (intro exI [of _ "[TakeToken g (now_at c 0) ip, AskAddress g (in_call c 1)]"]) (auto simp: limiter_allow_def)
    next
      case False
      then show ?thesis using assms t \<open>ok\<close> a r pc
        by (intro exI [of _ "[TakeToken g (now_at c 0) ip, AskAddress g (in_call c 1), ReturnToken g]"])
          (auto simp: limiter_allow_def)
    qed
  qed
qed

text \<open>Evaluation on the sample limiter, whose buckets need no refill at time 0.\<close>

lemma full_bucket_allows: "last_refill tb = now \<Longrightarrow> bucket_allow now tb =
    (if 1 \<le> tokens tb then (True, tb\<lparr>tokens := wrap64 (tokens tb - 1)\<rparr>) else (False, tb))"
  by (simp add: bucket_allow_def allow_n_def refill_def time_sub_def Let_def)

lemma refill_now: "last_refill tb = now \<Longrightarrow> refill now tb = tb"
  by (simp add: refill_def time_sub_def Let_def)

lemmas sample_limiter_simps = sample_limiter_def full_bucket_allows refill_now allow_ip_def new_token_bucket_def
  default_rl_config_def Let_def gm_get_def gm_put_def return_global_token_def log_metric_def wrap64_def

subsection \<open>Properties\<close>

text \<open>
  C9: Both limits hold for goroutines that run \<open>Allow\<close> at the same time.  However their
  sections are interleaved, with each other, with cleanups and with readings of the
  statistics, the requests admitted from one address in the time from \<open>t\<close> to \<open>T\<close> are at
  most its capacity plus its rate times the time, and those admitted from all addresses at
  most the global capacity plus the global rate times the time.
\<close>

theorem concurrent_admission_bounds:
  assumes "new_rate_limiter t cfg = Inr rl" and "config_ok d cfg" and "global_config_ok cfg"
    and "allow_run (start_limiter rl) acts s" and "global_order t acts T" and "address_order d t acts T"
  shows "int (count_list (cl_answers s) (a, True)) \<le> per_ip_capacity cfg + per_ip_refill_rate cfg * (T - t) div 10 ^ 9 \<and>
    int (length (filter snd (cl_answers s))) \<le> global_capacity cfg + global_refill_rate cfg * (T - t) div 10 ^ 9"
proof
  have m: "ip_metered d cfg (cl_shared (start_limiter rl)) t" and e: "ip_entitled a rl t = per_ip_capacity cfg * 10 ^ 9"
    using new_rate_limiter_metered [OF assms(1,2)] by (simp_all add: start_limiter_def)
  have "10 ^ 9 * int (count_list (cl_answers s) (a, True)) \<le> address_account a s T"
    using address_run [OF assms(4) m assms(6), of a] ip_nonneg [of d cfg "cl_shared s" T a]
    by (simp add: address_account_def admissions_of_def)
  also have "\<dots> \<le> per_ip_capacity cfg * 10 ^ 9 + per_ip_refill_rate cfg * (T - t)"
    using address_run [OF assms(4) m assms(6), of a] e by (simp add: address_account_def admissions_of_def start_limiter_def)
  finally show "int (count_list (cl_answers s) (a, True)) \<le> per_ip_capacity cfg + per_ip_refill_rate cfg * (T - t) div 10 ^ 9"
    by (rule scaled_bound)
  have g: "global_sound cfg (start_limiter rl) t"
    and e: "global_account (start_limiter rl) t = global_capacity cfg * 10 ^ 9"
    using new_rate_limiter_global [OF assms(1,3)]
    by (simp_all add: global_sound_def global_account_def start_limiter_def token_holders_def tokens_spent_def admissions_def)
  note run = global_run [OF assms(4) g assms(5)]
  have "10 ^ 9 * int (length (filter snd (cl_answers s))) \<le> global_account s T"
    using run global_nonneg [of cfg "cl_shared s" T]
    by (simp add: global_account_def global_sound_def tokens_spent_def admissions_def)
  also have "\<dots> \<le> global_capacity cfg * 10 ^ 9 + global_refill_rate cfg * (T - t)" using run e by simp
  finally show "int (length (filter snd (cl_answers s))) \<le> global_capacity cfg + global_refill_rate cfg * (T - t) div 10 ^ 9"
    by (rule scaled_bound)
qed

definition two_addresses :: "allow_act list" where
  "two_addresses =
     [TakeToken 1 0 ''10.0.0.1'', TakeToken 2 0 ''10.0.0.2'', AskAddress 2 (\<lambda>_. 0), ReadStats 0, RunCleanup 0,
      AskAddress 1 (\<lambda>_. 0)]"

theorem concurrent_admission_bounds_witness:
  "\<exists>s. allow_run (start_limiter sample_limiter) two_addresses s \<and>
     cl_answers s = [(''10.0.0.2'', True), (''10.0.0.1'', True)] \<and>
     int (count_list (cl_answers s) (''10.0.0.1'', True)) \<le> 100 + 10 * (second - 0) div 10 ^ 9"
proof -
  obtain s where p: "allow_path (start_limiter sample_limiter) two_addresses = Some s"
    and ans: "cl_answers s = [(''10.0.0.2'', True), (''10.0.0.1'', True)]"
    by (simp add: two_addresses_def start_limiter_def goes_def answers_def sample_limiter_simps get_stats_def bucket_tokens_def duration_defs
        cleanup_def)
  then have run: "allow_run (start_limiter sample_limiter) two_addresses s" by (simp add: allow_run_path)
  have times: "global_order 0 two_addresses second" "address_order (580 * second) 0 two_addresses second"
    by (simp_all add: two_addresses_def duration_defs)
  have "global_config_ok default_rl_config" by (simp add: global_config_ok_def default_rl_config_def)
  from concurrent_admission_bounds [OF new_sample_limiter default_config_ok this run times, of "''10.0.0.1''"] run ans
  show ?thesis by (auto simp: default_rl_config_def)
qed

text \<open>
  The atomic \<open>Allow\<close> of the sequential model is one of the executions of the goroutines: a
  goroutine that is not disturbed takes at most three steps, gives the same answer and
  leaves the same limiter.
\<close>

theorem atomic_allow_is_a_run:
  assumes "cl_pc s g = Outside" and "limiter_allow c ip (cl_shared s) = (Inr b, rl)"
  shows "\<exists>acts s'. allow_run s acts s' \<and> length acts \<le> 3 \<and> cl_shared s' = rl \<and> cl_pc s' = cl_pc s \<and>
    cl_answers s' = cl_answers s @ [(ip, b)]"
  using path_of_allow [OF assms] by (simp add: allow_run_path)

lemma sample_allow: "limiter_allow (\<lambda>_. 0) ip sample_limiter = (Inr True, snd (limiter_allow (\<lambda>_. 0) ip sample_limiter))"
  by (simp add: limiter_allow_def sample_limiter_def full_bucket_allows allow_ip_def new_token_bucket_def
      default_rl_config_def Let_def gomap_simps)

theorem atomic_allow_is_a_run_witness:
  "\<exists>acts s'. allow_run (start_limiter sample_limiter) acts s' \<and> length acts \<le> 3 \<and>
     cl_answers s' = [(''10.0.0.1'', True)]"
proof -
  have "cl_pc (start_limiter sample_limiter) 1 = Outside" by (simp add: start_limiter_def)
  moreover have "limiter_allow (\<lambda>_. 0) ''10.0.0.1'' (cl_shared (start_limiter sample_limiter)) =
      (Inr True, snd (limiter_allow (\<lambda>_. 0) ''10.0.0.1'' sample_limiter))"
    using sample_allow by (simp add: start_limiter_def)
  ultimately show ?thesis
    using atomic_allow_is_a_run [of "start_limiter sample_limiter" 1] by (fastforce simp: start_limiter_def)
qed

text \<open>A limiter with one global token left, and an address that has used up its own.\<close>

definition contended :: rate_limiter where
  "contended =
     sample_limiter
       \<lparr>global_bucket := (global_bucket sample_limiter)\<lparr>tokens := 1\<rparr>,
        ip_buckets := [(''10.0.0.1'',
          \<lparr>ip_bucket = \<lparr>capacity = 100, tokens = 0, refill_rate = 10, last_refill = 0, refill_period = second sdiv 10\<rparr>,
           last_seen = 0\<rparr>)]\<rparr>"

lemmas contended_simps = contended_def sample_limiter_simps

text \<open>
  \<open>Allow\<close> as a whole is not atomic.  With one global token left, a request of an
  exhausted address that is refused anyway holds the token for a moment; a request of
  another address is refused meanwhile, although in both orders of the two requests it is
  admitted.
\<close>

theorem allow_is_not_atomic:
  "(\<exists>acts s. allow_run (start_limiter contended) acts s \<and>
      cl_answers s = [(''10.0.0.2'', False), (''10.0.0.1'', False)]) \<and>
   fst (limiter_allow (\<lambda>_. 0) ''10.0.0.2'' contended) = Inr True \<and>
   fst (limiter_allow (\<lambda>_. 0) ''10.0.0.2'' (snd (limiter_allow (\<lambda>_. 0) ''10.0.0.1'' contended))) = Inr True"
proof (intro conjI)
  let ?acts = "[TakeToken 1 0 ''10.0.0.1'', TakeToken 2 0 ''10.0.0.2'', AskAddress 1 (\<lambda>_. 0), ReturnToken 1]"
  obtain s where "allow_path (start_limiter contended) ?acts = Some s"
    and "cl_answers s = [(''10.0.0.2'', False), (''10.0.0.1'', False)]"
    by (simp add: start_limiter_def goes_def answers_def contended_simps)
  then show "\<exists>acts s. allow_run (start_limiter contended) acts s \<and>
      cl_answers s = [(''10.0.0.2'', False), (''10.0.0.1'', False)]"
    unfolding allow_run_path by blast
  show "fst (limiter_allow (\<lambda>_. 0) ''10.0.0.2'' contended) = Inr True"
    by (simp add: limiter_allow_def contended_simps)
  show "fst (limiter_allow (\<lambda>_. 0) ''10.0.0.2'' (snd (limiter_allow (\<lambda>_. 0) ''10.0.0.1'' contended))) = Inr True"
    by (simp add: limiter_allow_def contended_simps)
qed

text \<open>
  C22: A refused client recovers.  When nobody asks for an address while the other goroutines
  run, then after the time in which two tokens are earned the address no longer stands in the
  way, whatever its bucket held before: \<open>Allow\<close> admits its next request exactly when the global
  bucket has a token.  (One token's time may not be enough: the \<open>float64\<close> credit can be one less
  than the exact one.)
\<close>

theorem refused_address_recovers:
  assumes "ip_metered d cfg (cl_shared s) t" and "1 \<le> per_ip_capacity cfg"
    and "allow_run s acts s'" and "nobody_asks a s acts" and "address_order d t acts T"
    and "mono_clock c" and "T \<le> now_at c 0"
    and "2 * 10 ^ 9 \<le> per_ip_refill_rate cfg * (now_at (in_call c 1) 2 - t)"
  shows "fst (limiter_allow c a (cl_shared s')) = Inr (1 \<le> tokens (refill (now_at c 0) (global_bucket (cl_shared s'))))"
proof -
  let ?rl = "cl_shared s'" and ?t = "now_at (in_call c 1) 2"
  have m: "ip_metered d cfg ?rl T" using address_run [OF assms(3,1,5)] by blast
  have nz: "per_ip_refill_rate (config ?rl) \<noteq> 0" using m by (auto simp: ip_metered_def config_ok_def)
  have "1 \<le> tokens (refill ?t (bucket_of (in_call c 1) a ?rl))"
  proof (cases "gm_get (ip_buckets ?rl) a")
    case None
    then show ?thesis using bucket_of_fresh [OF m None] assms(2) by simp
  next
    case (Some e)
    have "gm_get (ip_buckets (cl_shared s)) a = Some e"
      using left_alone_run [OF assms(3,4,1,5)] Some by (auto simp: left_alone_def)
    then have e: "entry_metered d cfg e t" using assms(1) by (simp add: ip_metered_def)
    then have b: "bucket_ok (ip_bucket e)" "capacity (ip_bucket e) = per_ip_capacity cfg"
      "refill_rate (ip_bucket e) = per_ip_refill_rate cfg" "last_refill (ip_bucket e) \<le> t"
      by (auto simp: entry_metered_def bucket_metered_def)
    have "0 < per_ip_refill_rate cfg" using assms(1) by (auto simp: ip_metered_def config_ok_def)
    then have "per_ip_refill_rate cfg * (?t - t) \<le> per_ip_refill_rate cfg * (?t - last_refill (ip_bucket e))"
      using b(4) by (intro mult_left_mono) auto
    then have "1 \<le> tokens (refill ?t (ip_bucket e))" using b assms(2,8) by (intro refill_earns) simp_all
    then show ?thesis using Some by (simp add: bucket_of_def)
  qed
  then show ?thesis by (simp add: limiter_allow_result [OF nz] ip_ok_def global_ok_def)
qed

theorem refused_address_recovers_witness:
  "fst (limiter_allow (\<lambda>_. 0) ''10.0.0.1'' contended) = Inr False \<and>
   fst (limiter_allow (\<lambda>_. second) ''10.0.0.1'' contended) = Inr True"
proof
  show "fst (limiter_allow (\<lambda>_. 0) ''10.0.0.1'' contended) = Inr False" by (simp add: limiter_allow_def contended_simps)
  have m: "ip_metered (580 * second) default_rl_config (cl_shared (start_limiter contended)) 0"
    using default_config_ok
    by (auto simp: ip_metered_def start_limiter_def contended_def sample_limiter_def gm_ok_def gm_get_def entry_metered_def
        bucket_metered_def bucket_ok_def default_rl_config_def second_def split: if_splits)
  have alone: "nobody_asks ''10.0.0.1'' (start_limiter contended) []" by (simp add: nobody_asks_def start_limiter_def)
  have "fst (limiter_allow (\<lambda>_. second) ''10.0.0.1'' (cl_shared (start_limiter contended))) =
      Inr (1 \<le> tokens (refill (now_at (\<lambda>_. second) 0) (global_bucket (cl_shared (start_limiter contended)))))"
    by (rule refused_address_recovers [where T = 0, OF m _ run_nil alone]) (simp_all add: default_rl_config_def second_def)
  moreover have "bucket_ok (global_bucket contended)" "tokens (global_bucket contended) = 1"
    by (simp_all add: contended_def sample_limiter_def bucket_ok_def)
  then have "1 \<le> tokens (refill (now_at (\<lambda>_. second) 0) (global_bucket contended))" by (metis refill_ok(2))
  ultimately show "fst (limiter_allow (\<lambda>_. second) ''10.0.0.1'' contended) = Inr True" by (simp add: start_limiter_def)
qed

end
