(* ===== verification/Concurrent_Cache.thy ===== *)
theory Concurrent_Cache
  imports Memory_Cache
begin

text \<open>
  \<open>InMemoryCache.Get\<close> and \<open>GetWithMetadata\<close> on goroutines that interleave: the lookup under the
  read lock and what follows are two steps, between which other goroutines run.  Every other
  operation holds the lock throughout and is one step.  A goroutine keeps the pointer to the entry
  that it found; \<open>Set\<close> puts a new entry in its place, and only \<open>Expire\<close> writes into an
  entry, so the model of a found entry as a value is exact for runs without it.
\<close>

declare One_nat_def [simp del]

record concurrent_cache =
  cc_shared :: memory_cache
  cc_found :: "nat \<Rightarrow> (string \<times> cache_entry option) option"

definition start_cache :: "cache_config \<Rightarrow> concurrent_cache" where
  "start_cache cfg = \<lparr>cc_shared = new_in_memory_cache cfg, cc_found = (\<lambda>_. None)\<rparr>"

datatype cache_act = LooksUp nat string | Finishes nat clock | FinishesMetadata nat clock | Does mem_op

text \<open>One step, and the answer of the \<open>Get\<close> that it ends.  Both methods begin with the same lookup.\<close>

fun cache_act_step :: "range_order \<Rightarrow> cache_act \<Rightarrow> concurrent_cache \<Rightarrow> go_any option option \<times> concurrent_cache" where
  "cache_act_step order (LooksUp g key) s =
     (None, s\<lparr>cc_found := (cc_found s)(g \<mapsto> (key, gm_get (mc_data (cc_shared s)) key))\<rparr>)"
| "cache_act_step order (Finishes g c) s =
     (case cc_found s g of
        None \<Rightarrow> (None, s)
      | Some (key, found) \<Rightarrow>
          (let (answer, m) = mem_get_finish c key found (cc_shared s)
           in (Some answer, s\<lparr>cc_shared := m, cc_found := (cc_found s)(g := None)\<rparr>)))"
| "cache_act_step order (FinishesMetadata g c) s =
     (case cc_found s g of
        None \<Rightarrow> (None, s)
      | Some (key, found) \<Rightarrow>
          (let (answer, m) = mem_get_with_metadata_finish c key found (cc_shared s)
           in (None, s\<lparr>cc_shared := m, cc_found := (cc_found s)(g := None)\<rparr>)))"
| "cache_act_step order (Does op) s = (None, s\<lparr>cc_shared := mem_step order op (cc_shared s)\<rparr>)"

fun cache_acts :: "range_order \<Rightarrow> cache_act list \<Rightarrow> concurrent_cache \<Rightarrow> concurrent_cache" where
  "cache_acts order [] s = s"
| "cache_acts order (a # as) s = cache_acts order as (snd (cache_act_step order a s))"

text \<open>The operations of a run, in their order, and the acts of one goroutine.\<close>

fun ops_of :: "cache_act list \<Rightarrow> mem_op list" where
  "ops_of [] = []"
| "ops_of (Does op # as) = op # ops_of as"
| "ops_of (LooksUp g key # as) = ops_of as"
| "ops_of (Finishes g c # as) = ops_of as"
| "ops_of (FinishesMetadata g c # as) = ops_of as"

fun by_goroutine :: "nat \<Rightarrow> cache_act \<Rightarrow> bool" where
  "by_goroutine g (LooksUp h key) \<longleftrightarrow> h = g"
| "by_goroutine g (Finishes h c) \<longleftrightarrow> h = g"
| "by_goroutine g (FinishesMetadata h c) \<longleftrightarrow> h = g"
| "by_goroutine g (Does op) \<longleftrightarrow> False"

fun expires :: "cache_act \<Rightarrow> bool" where
  "expires (Does (MExpire c key ttl)) \<longleftrightarrow> True"
| "expires _ \<longleftrightarrow> False"

lemma cache_acts_append: "cache_acts order (as @ bs) s = cache_acts order bs (cache_acts order as s)"
  by (induction as arbitrary: s) simp_all

lemma finish_data: "mc_data (snd (mem_get_finish c key found m)) =
    (if fst (mem_get_finish c key found m) = None \<and> found \<noteq> None then gm_del key (mc_data m) else mc_data m)"
  "mc_config (snd (mem_get_finish c key found m)) = mc_config m"
  by (simp_all add: mem_get_finish_def mem_delete_def record_miss_def record_hit_def split: option.split)

lemma finish_implements:
  assumes "mem_ok cfg m" and "implements m M"
  shows "mem_ok cfg (snd (mem_get_finish c key found m))" and "implements (snd (mem_get_finish c key found m)) M"
  using assms finish_data [of c key found m]
  by (auto simp: mem_ok_def implements_def gomap_simps split: if_splits)

lemma finish_metadata_snd:
  "snd (mem_get_with_metadata_finish c key found m) = snd (mem_get_finish c key found m)"
  by (simp add: mem_get_with_metadata_finish_def mem_get_finish_def split: option.split)

lemma act_implements:
  assumes "mem_ok cfg (cc_shared s)" and "implements (cc_shared s) M"
  shows "mem_ok cfg (cc_shared (snd (cache_act_step order a s))) \<and>
    implements (cc_shared (snd (cache_act_step order a s))) (ideal_run cfg (ops_of [a]) M)"
proof (cases a)
  case (Finishes g c)
  then show ?thesis using assms finish_implements [OF assms]
    by (auto simp: split_beta Let_def split: option.split)
next
  case (FinishesMetadata g c)
  then show ?thesis using assms finish_implements [OF assms]
    by (auto simp: split_beta Let_def finish_metadata_snd split: option.split)
next
  case (Does op)
  then show ?thesis using mem_step_ok [OF assms(1)] mem_step_implements [OF assms] by simp
qed (use assms in simp)

lemma ideal_run_append: "ideal_run cfg (xs @ ys) M = ideal_run cfg ys (ideal_run cfg xs M)"
  by (induction xs arbitrary: M) simp_all

lemma ops_of_Cons: "ops_of (a # as) = ops_of [a] @ ops_of as"
  by (cases a) simp_all

lemma acts_implement:
  assumes "mem_ok cfg (cc_shared s)" and "implements (cc_shared s) M"
  shows "mem_ok cfg (cc_shared (cache_acts order as s)) \<and>
    implements (cc_shared (cache_acts order as s)) (ideal_run cfg (ops_of as) M)"
  using assms
proof (induction as arbitrary: s M)
  case (Cons a as)
  note a = act_implements [OF Cons.prems, of order a]
  show ?case
    using Cons.IH a unfolding cache_acts.simps ops_of_Cons [of a as] ideal_run_append by blast
qed simp

lemma found_kept:
  "\<forall>a\<in>set as. \<not> by_goroutine g a \<Longrightarrow> cc_found (cache_acts order as s) g = cc_found s g"
proof (induction as arbitrary: s)
  case (Cons a as)
  have "cc_found (snd (cache_act_step order a s)) g = cc_found s g"
    using Cons.prems by (cases a) (auto simp: split_beta Let_def split: option.split)
  then show ?case using Cons by simp
qed simp

text \<open>
  C10: A hit is linearizable, although \<open>Get\<close> gives up the lock between the lookup and its
  answer.  However goroutines interleave, a \<open>Get\<close> that answers with a value answers with what
  a map that forgets nothing held for the key when the \<open>Get\<close> looked it up, and the lifetime
  of that value has not ended when the \<open>Get\<close> reads the clock.
\<close>

theorem concurrent_hit_is_linearizable:
  assumes "\<forall>a\<in>set (as @ bs). \<not> expires a" and "\<forall>b\<in>set bs. \<not> by_goroutine g b"
    and "fst (cache_act_step order (Finishes g c) (cache_acts order (as @ LooksUp g key # bs) (start_cache cfg))) =
      Some (Some v)"
  shows "\<exists>e. ideal_run cfg (ops_of as) Map.empty key = Some e \<and> entry_value e = v \<and> now_at c 0 \<le> expires_at e"
proof -
  define s where "s = cache_acts order as (start_cache cfg)"
  have start: "mem_ok cfg (cc_shared (start_cache cfg))" "implements (cc_shared (start_cache cfg)) Map.empty"
    by (simp_all add: start_cache_def new_cache_ok implements_def new_cache_held)
  have impl: "implements (cc_shared s) (ideal_run cfg (ops_of as) Map.empty)"
    using acts_implement [OF start] by (simp add: s_def)
  have "cc_found (cache_acts order (as @ LooksUp g key # bs) (start_cache cfg)) g =
      Some (key, held (cc_shared s) key)"
    using found_kept [OF assms(2)] by (simp add: cache_acts_append s_def)
  then obtain e where "held (cc_shared s) key = Some e" "entry_value e = v" "now_at c 0 \<le> expires_at e"
    using assms(3) by (auto simp: mem_get_finish_def is_expired_def Let_def not_less split: option.splits if_splits)
  then show ?thesis using impl unfolding implements_def by blast
qed

text \<open>A \<open>Get\<close> of goroutine 1, with a write and another \<open>Get\<close> of the same key in between.\<close>

theorem concurrent_hit_is_linearizable_witness:
  "\<exists>e. ideal_run default_cache_config [MSet (\<lambda>_. 0) ''XXBTZUSD'' (AnyFloat (Fin 1)) minute] Map.empty ''XXBTZUSD'' = Some e \<and>
     entry_value e = AnyFloat (Fin 1) \<and> second \<le> expires_at e"
proof -
  let ?as = "[Does (MSet (\<lambda>_. 0) ''XXBTZUSD'' (AnyFloat (Fin 1)) minute)]"
  let ?bs = "[LooksUp 2 ''XXBTZUSD'', Does (MSet (\<lambda>_. 5) ''XXBTZUSD'' (AnyFloat (Fin 2)) minute), Finishes 2 (\<lambda>_. 6)]"
  have "fst (cache_act_step rev (Finishes 1 (\<lambda>_. second)) (cache_acts rev (?as @ LooksUp 1 ''XXBTZUSD'' # ?bs)
      (start_cache default_cache_config))) = Some (Some (AnyFloat (Fin 1)))"
    by code_simp
  from concurrent_hit_is_linearizable [OF _ _ this] show ?thesis by simp
qed

end
