(* ===== verification/Fresh_Answers.thy ===== *)
theory Fresh_Answers
  imports Kraken_Traffic
begin

text \<open>
  The age of what clients are told, over runs of the whole service: every event may change
  the cache, the requests, the probe of \<open>/ready\<close>, which writes a key of its own, the workers
  and the cleanup.  A run keeps an account of the writes to the cache, and each price in it
  is one that Kraken gave to some request of the run.
\<close>

declare One_nat_def [simp del]

subsection \<open>What one request does, on its clocks\<close>

text \<open>The clocks on which a request calls \<open>GetLTP\<close>, and the probe of \<open>/ready\<close> the cache.\<close>

definition behind_chain :: "nat \<Rightarrow> clock \<Rightarrow> clock" where
  "behind_chain i c = in_call (in_call (in_call (in_call (in_call c 0) 1) i) 1) 0"

definition ltp_clock :: "clock \<Rightarrow> clock" where
  "ltp_clock c = in_call (behind_chain 1 c) 0"

definition probe_clock :: "clock \<Rightarrow> nat \<Rightarrow> clock" where
  "probe_clock c i = in_call (in_call (in_call (in_call (behind_chain 0 c) 0) 0) i) 0"

text \<open>A request for prices that gets as far as \<open>GetLTP\<close>.\<close>

definition asks_prices :: "go_unicode \<Rightarrow> clock \<Rightarrow> http_request \<Rightarrow> 'w server \<Rightarrow> bool" where
  "asks_prices u c r s \<longleftrightarrow> req_path r = ''/api/v1/ltp'' \<and> req_method r = ''GET'' \<and> requested_pairs u r \<noteq> [] \<and> admits c r s"

lemma ltp_request:
  assumes "req_path r = ''/api/v1/ltp''" and "per_ip_refill_rate (config (limiter s)) \<noteq> 0" and "res_body w = []"
    and "server_handler u ext c r (w, s) = (out, w', s')"
  shows "asks_prices u c r s \<Longrightarrow> world s' = snd (svc s (ltp_clock c) (requested_pairs u r) (world s)) \<and>
      (\<forall>qs. JsonQuotes qs \<in> set (res_body w') \<longrightarrow> fst (svc s (ltp_clock c) (requested_pairs u r) (world s)) = Inr qs)"
    and "\<not> asks_prices u c r s \<Longrightarrow> world s' = world s \<and> (\<forall>qs. JsonQuotes qs \<notin> set (res_body w'))"
proof -
  obtain b rl where rl: "limiter_allow (limiter_clock c) (extract_ip r) (limiter s) = (Inr b, rl)"
    using assms(2) by (rule limiter_no_panic)
  have rl': "limiter_allow (in_call (in_call (in_call c 0) 1) 0) (extract_ip r) (limiter s) = (Inr b, rl)"
    using rl by (simp add: limiter_clock_def)
  note chain = server_handler_def cors_def logging_def rate_limit_middleware_def metrics_middleware_def recovery_def
    mux_def handle_ltp_def Let_def encode_quotes_def behind_chain_def ltp_clock_def
  show "asks_prices u c r s \<Longrightarrow> world s' = snd (svc s (ltp_clock c) (requested_pairs u r) (world s)) \<and>
      (\<forall>qs. JsonQuotes qs \<in> set (res_body w') \<longrightarrow> fst (svc s (ltp_clock c) (requested_pairs u r) (world s)) = Inr qs)"
    using assms(1,3,4) rl rl'
    by (auto simp: asks_prices_def admits_def chain split: prod.splits sum.splits option.splits if_splits)
  show "\<not> asks_prices u c r s \<Longrightarrow> world s' = world s \<and> (\<forall>qs. JsonQuotes qs \<notin> set (res_body w'))"
    using assms(1,3,4) rl rl'
    by (auto simp: asks_prices_def admits_def unlimited_def chain split: prod.splits sum.splits option.splits if_splits)
qed

lemma ready_request:
  assumes "req_path r = ''/ready''" and "server_handler u ext c r (w, s) = (out, w', s')"
  shows "world s' = (if req_method r = ''GET''
      then snd (readiness_check (health_checker s) (in_call (behind_chain 0 c) 0) (world s)) else world s)"
  using assms
  by (auto simp: server_handler_def cors_def logging_def rate_limit_middleware_def metrics_middleware_def recovery_def
      mux_def handle_ready_def Let_def behind_chain_def split: prod.splits if_splits)

lemma other_request:
  assumes "foreign_handlers ext" and "per_ip_refill_rate (config (limiter s)) \<noteq> 0"
    and "req_path r \<noteq> ''/api/v1/ltp''" and "req_path r \<noteq> ''/ready''" and "server_handler u ext c r (w, s) = (out, w', s')"
  shows "world s' = world s"
  using request_world(2) [OF assms(1,2,5)] assms(3,4) by (simp add: world_step_def split: if_splits)

subsection \<open>The account of a run\<close>

text \<open>
  In the run of \<open>es\<close> from \<open>s0\<close>, Kraken gave the price \<open>v\<close> of \<open>symb\<close> to a request, which then
  could store it from \<open>t\<close> on.
\<close>

definition kraken_gave ::
  "('c, 'h, 'r) platform \<Rightarrow> environment \<Rightarrow> ('r, 'h) app_world externals \<Rightarrow> service_event list \<Rightarrow>
   ('r, 'h) app_world server \<Rightarrow> string \<Rightarrow> f64 \<Rightarrow> instant \<Rightarrow> bool" where
  "kraken_gave p env ext es s0 symb v t \<longleftrightarrow>
     (\<exists>as c r bs j. es = as @ Arrives c r # bs \<and> asks_prices (pf_unicode p) c r (service_run p env ext as s0) \<and>
        answered (pf_unicode p) (cache_of p) (kraken_of p) (ltp_clock c) (requested_pairs (pf_unicode p) r)
          (world (service_run p env ext as s0)) symb v \<and>
        t = ltp_clock c [j, 0])"

lemma kraken_gave_later: "kraken_gave p env ext es s0 symb v t \<Longrightarrow> kraken_gave p env ext (es @ fs) s0 symb v t"
  unfolding kraken_gave_def by (metis append.assoc append_Cons)

lemma service_run_append: "service_run p env ext (es @ fs) s = service_run p env ext fs (service_run p env ext es s)"
  by (induction es arbitrary: s) simp_all

lemma service_run_reachable: "reachable p env ext s \<Longrightarrow> reachable p env ext (service_run p env ext es s)"
  by (induction es arbitrary: s) (simp_all add: service_step_reachable)

text \<open>The calls of the cache take at most \<open>slack\<close>.\<close>

fun short_calls :: "duration \<Rightarrow> service_event \<Rightarrow> bool" where
  "short_calls slack (Arrives c r) \<longleftrightarrow>
     cache_calls_within slack (ltp_clock c) \<and> clock_within slack (probe_clock c 0) \<and> clock_within slack (probe_clock c 1)"
| "short_calls slack (CleanupRuns (CleanupTick c)) \<longleftrightarrow> clock_within slack c"
| "short_calls slack _ \<longleftrightarrow> True"

text \<open>A write of the history is the probe's, or stores for a minute what Kraken gave.\<close>

definition writes_given ::
  "('c, 'h, 'r) platform \<Rightarrow> environment \<Rightarrow> ('r, 'h) app_world externals \<Rightarrow> service_event list \<Rightarrow>
   ('r, 'h) app_world server \<Rightarrow> store_op list \<Rightarrow> bool" where
  "writes_given p env ext es s0 H \<longleftrightarrow> (\<forall>c' symb v ttl. SSet c' symb v ttl \<in> set H \<longrightarrow>
     symb = ''health_check'' \<or> (ttl = 60 * second \<and> (\<exists>x. v = AnyFloat x \<and> kraken_gave p env ext es s0 symb x (c' []))))"

lemma writes_given_later: "writes_given p env ext es s0 H \<Longrightarrow> writes_given p env ext (es @ fs) s0 H"
  unfolding writes_given_def using kraken_gave_later by blast

lemma writes_given_append:
  "writes_given p env ext es s0 (H @ xs) \<longleftrightarrow> writes_given p env ext es s0 H \<and> writes_given p env ext es s0 xs"
  unfolding writes_given_def set_append Un_iff by blast

text \<open>What an event does to the cache: operations of the store, or a change it does not see.\<close>

definition same_store :: "('c, 'h, 'r) platform \<Rightarrow> ('r \<Rightarrow> string \<Rightarrow> string option) \<Rightarrow> duration \<Rightarrow> cache_config \<Rightarrow>
    'r any_cache \<Rightarrow> 'r any_cache \<Rightarrow> bool" where
  "same_store p view slack cfg a b \<longleftrightarrow>
     price_serves p view slack cfg b = price_serves p view slack cfg a \<and> (price_ok cfg a \<longrightarrow> price_ok cfg b)"

lemma same_store_refl [simp]: "same_store p view slack cfg a a"
  by (simp add: same_store_def)

lemma same_store_channel: "same_store p view slack cfg (FallbackCache f) (FallbackCache (f\<lparr>refresh_ch := ch\<rparr>))"
  by (auto simp: same_store_def price_serves_def price_ok_def fb_serves_def fb_ok_def fun_eq_iff)

lemma same_store_start: "same_store p view slack cfg a (any_start_background_refresh a)"
  by (cases a) (auto simp: same_store_def price_serves_def price_ok_def fb_serves_def fb_ok_def fun_eq_iff
      start_background_refresh_def)

lemma probe_trace:
  "fst (snd (readiness_check (main_checks p) c (a, k))) =
     store_run (price_impl p)
       [SSet (in_call (in_call (in_call c 0) 0) 0) ''health_check'' (AnyFloat (to_f64 (12345 / 100))) (60 * second),
        SGet (in_call (in_call (in_call c 0) 1) 0) ''health_check''] a"
  by (simp add: readiness_check_def main_checks_def on_cache_state_def on_client_state_def legacy_cache_check_def
      cache_of_prices legacy_cache_def legacy_set_def legacy_get_def Let_def split_beta split: prod.split)

lemma cleanup_trace:
  "FallbackCache (snd (fb_evict_expired (redis_ops (pf_redis p)) (pf_order p) c f)) =
     store_run (price_impl p) [SEvict c] (FallbackCache f)"
  by (simp add: price_impl_def any_ops_def fallback_ops_def fb_evict_expired_def split_beta)

lemma price_trace:
  assumes "asks_prices (pf_unicode p) c r (service_run p env ext es s0)" and "world (service_run p env ext es s0) = (a, k)"
    and "cache_calls_within slack (ltp_clock c)"
  shows "\<exists>xs. fst (snd (service p (ltp_clock c) (requested_pairs (pf_unicode p) r) (a, k))) = store_run (price_impl p) xs a \<and>
    (\<forall>x\<in>set xs. clock_within slack (store_clock x)) \<and> writes_given p env ext (es @ [Arrives c r]) s0 xs"
proof -
  let ?ps = "requested_pairs (pf_unicode p) r"
  obtain xs where xs: "fst (snd (service p (ltp_clock c) ?ps (a, k))) = store_run (price_impl p) xs a"
    "service_ops (ltp_clock c) (answered (pf_unicode p) (cache_of p) (kraken_of p) (ltp_clock c) ?ps (a, k)) xs"
    using get_ltp_trace [of "pf_unicode p" "price_impl p" "kraken_of p" "ltp_clock c" ?ps a k]
    unfolding service_def cache_of_prices by blast
  have "writes_given p env ext (es @ [Arrives c r]) s0 xs"
    unfolding writes_given_def
  proof (intro allI impI disjI2)
    fix c' symb v ttl
    assume "SSet c' symb v ttl \<in> set xs"
    then obtain j x where x: "c' = in_call (in_call (ltp_clock c) j) 0" "v = AnyFloat x" "ttl = 60 * second"
      "answered (pf_unicode p) (cache_of p) (kraken_of p) (ltp_clock c) ?ps (a, k) symb x"
      using xs(2) unfolding service_ops_def by fastforce
    have "kraken_gave p env ext (es @ [Arrives c r]) s0 symb x (c' [])"
      unfolding kraken_gave_def using assms(1,2) x(1,4)
      by (intro exI [of _ es] exI [of _ c] exI [of _ r] exI [of _ "[]"] exI [of _ j]) (simp add: in_call_def)
    then show "ttl = 60 * second \<and> (\<exists>x. v = AnyFloat x \<and> kraken_gave p env ext (es @ [Arrives c r]) s0 symb x (c' []))"
      using x(2,3) by blast
  qed
  then show ?thesis using xs service_ops_within [OF xs(2) assms(3)] by blast
qed

lemma event_trace:
  assumes "is_order (pf_order p)" and "keeps_slashes (pf_unicode p)" and "foreign_handlers ext"
    and "app_inv p (service_run p env ext es s0)" and "short_calls slack e"
  shows "\<exists>xs. same_store p view slack cfg (store_run (price_impl p) xs (fst (world (service_run p env ext es s0))))
      (fst (world (service_run p env ext (es @ [e]) s0))) \<and>
    (\<forall>x\<in>set xs. clock_within slack (store_clock x)) \<and> writes_given p env ext (es @ [e]) s0 xs"
proof -
  define s where "s = service_run p env ext es s0"
  obtain a k where w: "world s = (a, k)" by fastforce
  have inv: "app_inv p s" using assms(4) by (simp add: s_def)
  then have rate: "per_ip_refill_rate (config (limiter s)) \<noteq> 0"
    and svc: "svc s = service p" "health_checker s = main_checks p"
    by (simp_all add: app_inv_def default_rl_config_def)
  have run: "service_run p env ext (es @ [e]) s0 = snd (service_step p env ext e s)"
    by (simp add: service_run_append s_def)
  have goal: ?thesis
    if "same_store p view slack cfg (store_run (price_impl p) xs a) (fst (world (snd (service_step p env ext e s))))"
      and "\<forall>x\<in>set xs. clock_within slack (store_clock x)" and "writes_given p env ext (es @ [e]) s0 xs" for xs
    using that w by (intro exI [of _ xs]) (simp add: run flip: s_def)
  have still: ?thesis if "same_store p view slack cfg a (fst (world (snd (service_step p env ext e s))))"
    using that by (intro goal [of "[]"]) (simp_all add: writes_given_def)
  show ?thesis
  proof (cases e)
    case (Arrives c r)
    obtain out w1 s' where h: "server_handler (pf_unicode p) ext c r (new_response, s) = (out, w1, s')" by (metis prod_cases3)
    have s': "snd (service_step p env ext e s) = s'" by (simp add: Arrives h)
    have short: "cache_calls_within slack (ltp_clock c)" "clock_within slack (probe_clock c 0)" "clock_within slack (probe_clock c 1)"
      using assms(5) by (simp_all add: Arrives)
    consider (ltp) "req_path r = ''/api/v1/ltp''" | (ready) "req_path r = ''/ready''"
      | (other) "req_path r \<noteq> ''/api/v1/ltp''" "req_path r \<noteq> ''/ready''" by blast
    then show ?thesis
    proof cases
      case ltp
      have empty: "res_body new_response = []" by (simp add: new_response_def)
      note l = ltp_request [OF ltp rate empty h]
      show ?thesis
      proof (cases "asks_prices (pf_unicode p) c r s")
        case True
        obtain xs where xs: "fst (snd (service p (ltp_clock c) (requested_pairs (pf_unicode p) r) (a, k))) = store_run (price_impl p) xs a"
          "\<forall>x\<in>set xs. clock_within slack (store_clock x)" "writes_given p env ext (es @ [e]) s0 xs"
          using price_trace [OF True [unfolded s_def] w [unfolded s_def] short(1)] by (auto simp: Arrives)
        show ?thesis
          by (rule goal [OF _ xs(2,3)]) (simp add: s' l(1) [OF True] svc w xs(1))
      next
        case False
        then show ?thesis using l(2) by (intro still) (simp add: s' w)
      qed
    next
      case ready
      note rd = ready_request [OF ready h]
      show ?thesis
      proof (cases "req_method r = ''GET''")
        case True
        let ?xs = "[SSet (probe_clock c 0) ''health_check'' (AnyFloat (to_f64 (12345 / 100))) (60 * second),
          SGet (probe_clock c 1) ''health_check'']"
        have "fst (world s') = store_run (price_impl p) ?xs a"
          unfolding rd if_P [OF True] svc w probe_trace probe_clock_def ..
        then show ?thesis using short by (intro goal [of ?xs]) (simp_all add: s' writes_given_def)
      next
        case False
        then show ?thesis using rd by (intro still) (simp add: s' w)
      qed
    next
      case other
      then show ?thesis using other_request [OF assms(3) rate other h] by (intro still) (simp add: s' w)
    qed
  next
    case (RefreshRuns ev)
    show ?thesis
    proof (cases a)
      case (FallbackCache f)
      obtain f' k' where l: "refresh_worker_loop (redis_ops (pf_redis p)) (pf_order p)
          (fallback_refresh p (load_config_from_env env)) [ev] (f, k) = (f', k')" by fastforce
      have "slash_free f" using inv w FallbackCache by (simp add: app_inv_def)
      from worker_moves_keys_only [OF assms(1,2) this l] obtain ch where "f' = f\<lparr>refresh_ch := ch\<rparr>" by blast
      then show ?thesis using w FallbackCache l same_store_channel
        by (intro still) (simp add: RefreshRuns on_fallback_def)
    qed (rule still; simp add: w RefreshRuns on_fallback_def)+
  next
    case (CleanupRuns ev)
    show ?thesis
    proof (cases a)
      case (FallbackCache f)
      show ?thesis
      proof (cases ev)
        case (CleanupTick c)
        then show ?thesis using assms(5) w FallbackCache cleanup_trace [of p c f]
          by (intro goal [of "[SEvict c]"]) (simp_all add: CleanupRuns on_fallback_def writes_given_def)
      qed (rule still; simp add: w FallbackCache CleanupRuns on_fallback_def)+
    qed (rule still; simp add: w CleanupRuns on_fallback_def)+
  qed (rule still; simp add: w update_rate_limit_metrics_def split_beta Let_def)+
qed

lemma same_store_accounted:
  assumes "redis_laws (pf_redis p) view" and "0 \<le> slack" and "same_store p view slack cfg a b"
    and "value_store.accounted (price_serves p view slack cfg) (price_life slack cfg) H a"
  shows "value_store.accounted (price_serves p view slack cfg) (price_life slack cfg) H b"
  using assms(3,4)
  unfolding value_store.accounted_def [OF price_store [OF assms(1,2)]] same_store_def by simp

lemma run_account:
  assumes "redis_laws (pf_redis p) view" and "0 \<le> slack"
    and "is_order (pf_order p)" and "keeps_slashes (pf_unicode p)" and "foreign_handlers ext"
    and start: "main_setup p env c0 h = Inr s0" and redis: "\<And>r. redis_of (fst (world s0)) = Some r \<Longrightarrow> view r = (\<lambda>_. None)"
    and "\<forall>e\<in>set es. short_calls slack e"
  shows "\<exists>H. value_store.accounted (price_serves p view slack (load_config_from_env env))
      (price_life slack (load_config_from_env env)) H (fst (world (service_run p env ext es s0))) \<and>
    price_ok (load_config_from_env env) (fst (world (service_run p env ext es s0))) \<and> writes_given p env ext es s0 H"
  using assms(8)
proof (induction es rule: rev_induct)
  case Nil
  obtain cache k where made: "create_cache_from_env (pf_redis p) (pf_url_parse p) env (in_call c0 0) = Inr cache"
    and w: "fst (world s0) = any_start_background_refresh cache"
    using start by (auto simp: main_setup_def Let_def split: sum.splits)
  have "redis_of (any_start_background_refresh cache) = redis_of cache"
    by (cases cache) (simp_all add: start_background_refresh_def)
  then have none: "\<And>r. redis_of cache = Some r \<Longrightarrow> view r = (\<lambda>_. None)" using redis w by simp
  have same: "same_store p view slack (load_config_from_env env) cache (fst (world s0))"
    by (simp add: w same_store_start)
  have "value_store.accounted (price_serves p view slack (load_config_from_env env))
      (price_life slack (load_config_from_env env)) [] cache"
    using created_serves_nothing [where view = view and p = p and slack = slack and cfg = "load_config_from_env env", OF made none]
    by (simp add: value_store.accounted_def [OF price_store [OF assms(1,2)]])
  from same_store_accounted [OF assms(1,2) same this] created_price_ok [OF made] same
  show ?case by (intro exI [of _ "[]"]) (simp add: writes_given_def same_store_def)
next
  case (snoc e es)
  let ?cfg = "load_config_from_env env" and ?a = "fst (world (service_run p env ext es s0))"
  obtain H where H: "value_store.accounted (price_serves p view slack ?cfg) (price_life slack ?cfg) H ?a"
    "price_ok ?cfg ?a" "writes_given p env ext es s0 H" using snoc by auto
  have inv: "app_inv p (service_run p env ext es s0)"
    using reachable_inv [OF assms(3-5)] service_run_reachable [OF started [OF start]] by blast
  have short: "short_calls slack e" using snoc.prems by simp
  obtain xs where xs: "same_store p view slack ?cfg (store_run (price_impl p) xs ?a) (fst (world (service_run p env ext (es @ [e]) s0)))"
    "\<forall>x\<in>set xs. clock_within slack (store_clock x)" "writes_given p env ext (es @ [e]) s0 xs"
    using event_trace [OF assms(3-5) inv short] by blast
  note run = value_store.accounted_run [OF price_store [OF assms(1,2)] H(2) xs(2) H(1)]
  from same_store_accounted [OF assms(1,2) xs(1) conjunct1 [OF run]] conjunct2 [OF run] xs(1,3)
    writes_given_later [OF H(3), of "[e]"]
  show ?case by (intro exI [of _ "H @ xs"]) (simp add: writes_given_append same_store_def)
qed

text \<open>
  C3: What a client is told over HTTP is fresh, whatever the service did before and whichever
  cache the environment selects.  After any run of a process that started on an empty Redis
  database with the default lifetimes, each price in the answer to a request for
  \<open>/api/v1/ltp\<close> is one that Kraken gave for the symbol of its pair, to this request or to an
  earlier one, which could store it at most six minutes before this one asked (and four times
  the duration \<open>slack\<close> of a cache call).
\<close>

theorem answers_are_fresh:
  assumes laws: "redis_laws (pf_redis p) view" "is_order (pf_order p)" "keeps_slashes (pf_unicode p)"
      "upper_law (pf_unicode p)" "foreign_handlers ext"
    and start: "main_setup p env c0 h = Inr s0" and redis: "\<And>r. redis_of (fst (world s0)) = Some r \<Longrightarrow> view r = (\<lambda>_. None)"
    and ttls: "env ''CACHE_MAX_TTL'' = []" "env ''CACHE_FALLBACK_TTL'' = []"
    and calls: "\<forall>e\<in>set (es @ [Arrives c r]). short_calls slack e" and c: "mono_clock c"
    and r: "req_path r = ''/api/v1/ltp''"
    and res: "server_handler (pf_unicode p) ext c r (new_response, service_run p env ext es s0) = (out, w, s')"
    and q: "JsonQuotes quotes \<in> set (res_body w)" "q \<in> set quotes"
  shows "\<exists>symb t. to_kraken_symbol (pf_unicode p) (quote_pair q) = Inr symb \<and>
    kraken_gave p env ext (es @ [Arrives c r]) s0 symb (quote_amount q) t \<and> ltp_clock c [] \<le> t + 6 * minute + 4 * slack"
proof -
  let ?cfg = "load_config_from_env env" and ?u = "pf_unicode p" and ?s = "service_run p env ext es s0"
  let ?c = "ltp_clock c" and ?ps = "requested_pairs (pf_unicode p) r"
  obtain a k where w: "world ?s = (a, k)" by fastforce
  have within: "cache_calls_within slack ?c" using calls by simp
  have slack: "0 \<le> slack" using within clock_within_nonneg unfolding cache_calls_within_def by blast
  have mono: "mono_clock ?c" using c unfolding ltp_clock_def behind_chain_def by (intro mono_in_call)
  have inv: "app_inv p ?s"
    using reachable_inv [OF laws(2,3,5)] service_run_reachable [OF started [OF start]] by blast
  then have rate: "per_ip_refill_rate (config (limiter ?s)) \<noteq> 0" and svc: "svc ?s = service p"
    by (simp_all add: app_inv_def default_rl_config_def)
  have empty: "res_body new_response = []" by (simp add: new_response_def)
  have asks: "asks_prices ?u c r ?s" using ltp_request(2) [OF r rate empty res] q(1) by blast
  have "fst (service p ?c ?ps (a, k)) = Inr quotes"
    using ltp_request(1) [OF r rate empty res asks] q(1) by (simp add: svc w)
  then obtain st' where got: "get_ltp ?u (legacy_cache (price_impl p)) (kraken_of p) ?c ?ps (a, k) = (Inr quotes, st')"
    by (metis service_def cache_of_prices prod.collapse)
  have "\<forall>e\<in>set es. short_calls slack e" using calls by simp
  from run_account [OF laws(1) slack laws(2,3,5) start redis this]
  obtain H where H: "value_store.accounted (price_serves p view slack ?cfg) (price_life slack ?cfg) H a"
    "price_ok ?cfg a" "writes_given p env ext es s0 H" by (auto simp: w)
  from value_store.quote_accounted [OF price_store [OF laws(1) slack] H(2,1) within mono got q(2)]
  obtain symb where symb: "to_kraken_symbol ?u (quote_pair q) = Inr symb"
    and src: "answered ?u (cache_of p) (kraken_of p) ?c ?ps (a, k) symb (quote_amount q) \<or>
      (\<exists>c' ttl. SSet c' symb (AnyFloat (quote_amount q)) ttl \<in> set H \<and> ?c [] \<le> c' [] + price_life slack ?cfg ttl)"
    by (auto simp: cache_of_prices)
  from src show ?thesis
  proof
    assume "answered ?u (cache_of p) (kraken_of p) ?c ?ps (a, k) symb (quote_amount q)"
    then have "kraken_gave p env ext (es @ [Arrives c r]) s0 symb (quote_amount q) (?c [0, 0])"
      using asks w unfolding kraken_gave_def by fastforce
    moreover have "?c [] \<le> ?c [0, 0]" using mono by (simp add: mono_clockD)
    ultimately show ?thesis using symb slack by (intro exI [of _ symb] exI [of _ "?c [0, 0]"]) (simp add: duration_defs)
  next
    assume "\<exists>c' ttl. SSet c' symb (AnyFloat (quote_amount q)) ttl \<in> set H \<and> ?c [] \<le> c' [] + price_life slack ?cfg ttl"
    then obtain c' ttl where set: "SSet c' symb (AnyFloat (quote_amount q)) ttl \<in> set H"
      and age: "?c [] \<le> c' [] + price_life slack ?cfg ttl" by blast
    then have "ttl = 60 * second" and gave: "kraken_gave p env ext es s0 symb (quote_amount q) (c' [])"
      using H(3) symbol_not_probe [OF laws(4) symb] unfolding writes_given_def by blast+
    then have "?c [] \<le> c' [] + 6 * minute + 4 * slack" using age default_price_life [OF ttls slack] by simp
    then show ?thesis using symb kraken_gave_later [OF gave] by blast
  qed
qed


text \<open>A request for a price to a process on its own memory cache, when Kraken answers.\<close>

lemma ltp_body:
  assumes "asks_prices u c r s" and "per_ip_refill_rate (config (limiter s)) \<noteq> 0"
    and "fst (svc s (ltp_clock c) (requested_pairs u r) (world s)) = Inr qs" and "\<forall>q\<in>set qs. is_finite (quote_amount q)"
  shows "JsonQuotes qs \<in> set (res_body (fst (snd (server_handler u ext c r (new_response, s)))))"
proof -
  obtain b rl where rl: "limiter_allow (limiter_clock c) (extract_ip r) (limiter s) = (Inr b, rl)"
    using assms(2) by (rule limiter_no_panic)
  have rl': "limiter_allow (in_call (in_call (in_call c 0) 1) 0) (extract_ip r) (limiter s) = (Inr b, rl)"
    using rl by (simp add: limiter_clock_def)
  show ?thesis
    using assms rl rl'
    by (auto simp: asks_prices_def admits_def server_handler_def cors_def logging_def rate_limit_middleware_def
        metrics_middleware_def recovery_def mux_def handle_ltp_def Let_def encode_quotes_def behind_chain_def ltp_clock_def
        split: prod.splits sum.splits option.splits if_splits)
qed

lemma memory_start:
  obtains s where "main_setup sample_platform (\<lambda>_. []) (\<lambda>_. 0) h = Inr s" and "svc s = service sample_platform"
    and "limiter s = sample_limiter" and "world s = (MemoryCache (new_in_memory_cache default_cache_config), sample_client h)"
proof -
  let ?m = "MemoryCache (new_in_memory_cache default_cache_config)"
  have cfg: "load_config_from_env (\<lambda>_. []) = default_cache_config" by (simp add: load_config_from_env_def from_env_def)
  have made: "create_cache_from_env sample_lib sample_url_parse (\<lambda>_. []) c = Inr ?m" for c
    by (simp add: create_cache_from_env_def create_cache_def get_cache_type_from_config_def cache_type_defs cfg Let_def)
      (simp add: default_cache_config_def)
  have url: "trim_right_func (\<lambda>c. c = CHR ''/'') ''https://api.kraken.com'' = trim_right_func (\<lambda>c. c = CHR ''/'') ''https://api.kraken.com/''"
    by code_simp
  have "\<exists>s. main_setup sample_platform (\<lambda>_. []) (\<lambda>_. 0) h = Inr s \<and> svc s = service sample_platform \<and>
      limiter s = sample_limiter \<and> world s = (?m, sample_client h)"
    using made [of "in_call (\<lambda>_. 0) 0"]
    by (simp add: main_setup_def Let_def new_server_def new_sample_limiter sample_platform_def sample_client_def
        new_client_def getenv_def get_duration_def url main_checks_def add_health_check_def)
  then show thesis using that by blast
qed

lemma sample_admits:
  assumes "limiter s = sample_limiter"
  shows "admits (\<lambda>_. 0) price_request s"
proof -
  have "\<not> unlimited price_request" by code_simp
  moreover have "fst (limiter_allow (limiter_clock (\<lambda>_. 0)) (extract_ip price_request) sample_limiter) = Inr True" by code_simp
  ultimately show ?thesis using assms by (simp add: admits_def)
qed

lemma sample_upper: "upper_law (pf_unicode sample_platform)"
  using upper_byte_not_lower by (auto simp: upper_law_def sample_platform_def no_unicode_def)

theorem answers_are_fresh_witness:
  "\<exists>s symb t. main_setup sample_platform (\<lambda>_. []) (\<lambda>_. 0) [btc_reply] = Inr s \<and>
     to_kraken_symbol (pf_unicode sample_platform) ''BTC/USD'' = Inr symb \<and>
     kraken_gave sample_platform (\<lambda>_. []) quiet_externals [Arrives (\<lambda>_. 0) price_request] s symb (Fin (500005 / 10)) t \<and>
     0 \<le> t + 6 * minute + 4 * second"
proof -
  obtain s where s: "main_setup sample_platform (\<lambda>_. []) (\<lambda>_. 0) [btc_reply] = Inr s" "svc s = service sample_platform"
    "limiter s = sample_limiter" "world s = (MemoryCache (new_in_memory_cache default_cache_config), sample_client [btc_reply])"
    by (rule memory_start)
  let ?run = "service_run sample_platform (\<lambda>_. []) quiet_externals [] s"
  obtain out w s' where h: "server_handler (pf_unicode sample_platform) quiet_externals (\<lambda>_. 0) price_request (new_response, ?run) =
      (out, w, s')" by (metis prod_cases3)
  have pairs: "requested_pairs (pf_unicode sample_platform) price_request = [''BTC/USD'']"
    by (simp add: requested_pairs_def price_request_def values_get_def)
  have path: "req_path price_request = ''/api/v1/ltp''" and "req_method price_request = ''GET''"
    by (simp_all add: price_request_def sample_request_def)
  then have asks: "asks_prices (pf_unicode sample_platform) (\<lambda>_. 0) price_request s"
    by (simp add: asks_prices_def pairs sample_admits s)
  have clock: "ltp_clock (\<lambda>_. 0) = (\<lambda>_. 0)" by (simp add: ltp_clock_def behind_chain_def)
  have "JsonQuotes [btc_quote] \<in> set (res_body w)"
    using ltp_body [OF asks, of "[btc_quote]" quiet_externals] h btc_served
    by (simp add: s pairs clock btc_quote_def sample_limiter_def default_rl_config_def)
  note body = this
  have laws: "redis_laws (pf_redis sample_platform) (\<lambda>r. r)" by (simp add: sample_platform_def sample_laws)
  have short: "\<forall>e\<in>set ([] @ [Arrives (\<lambda>_. 0) price_request]). short_calls second e"
    by (simp add: cache_calls_within_def clock probe_clock_def behind_chain_def second_def)
  have redis: "redis_of (fst (world s)) = Some r \<Longrightarrow> r = (\<lambda>_. None)" for r by (simp add: s)
  have q: "btc_quote \<in> set [btc_quote]" by simp
  from answers_are_fresh [OF laws sample_platform_ok sample_upper quiet_foreign s(1) redis _ _ short mono_const_clock path h body q]
  show ?thesis using s(1) by (auto simp: btc_quote_def clock)
qed

end
