(* ===== verification/Concurrent_Service.thy ===== *)
theory Concurrent_Service
  imports Fresh_Answers
begin

text \<open>
  \<open>GetLTP\<close> on goroutines that interleave.  Every request has a goroutine of its own, and between two calls
  of the cache or of Kraken another may run.  A call is a small machine whose steps are these
  calls; any number of them share the cache and the client with the probe of \<open>/ready\<close> and
  the cleanup.  An operation of the cache, and a call of the Kraken client, is one step.
\<close>

declare One_nat_def [simp del]

subsection \<open>One call in steps\<close>

text \<open>
  The places of \<open>GetLTP\<close>: in the pass over the cache with the pairs still to look up, the
  prices found and the pairs needed; in the pass over Kraken's prices; and after its return.
\<close>

datatype ltp_place =
    Looking nat "string list" "(string, f64) gomap" "(string \<times> string) list"
  | Storing nat "(string \<times> string) list" "(string, f64) gomap" "(string, f64) gomap"
  | Answered "go_error + quote list"

definition ltp_start :: "go_unicode \<Rightarrow> string list \<Rightarrow> ltp_place" where
  "ltp_start u user_pairs =
     (if user_pairs = [] then Answered (Inl (HandlerError 400 ''no pairs provided''))
      else
        (case normalize_all u user_pairs [] of
           Inl e \<Rightarrow> Answered (Inl e)
         | Inr normalized \<Rightarrow> Looking 0 normalized [] []))"

fun ltp_next :: "go_unicode \<Rightarrow> 's price_cache \<Rightarrow> 'k kraken_api \<Rightarrow> clock \<Rightarrow> ltp_place \<Rightarrow> 's \<times> 'k \<Rightarrow> ltp_place \<times> 's \<times> 'k" where
  "ltp_next u pc api c (Looking i (up # ups) results needed) (s, k) =
     (case to_kraken_symbol u up of
        Inl err \<Rightarrow> (Answered (Inl (HandlerError 400 (err_text err))), s, k)
      | Inr symb \<Rightarrow>
          (case pc_get pc (in_call c i) symb s of
             (Some v, s) \<Rightarrow> (Looking (i + 1) ups (gm_put up v results) needed, s, k)
           | (None, s) \<Rightarrow> (Looking (i + 1) ups results (needed @ [(up, symb)]), s, k)))"
| "ltp_next u pc api c (Looking i [] results needed) (s, k) =
     (if needed = [] then (Answered (Inr (sorted_quotes results)), s, k)
      else
        (case api (in_call c i) (map snd needed) k of
           (Inl err, k) \<Rightarrow> (Answered (Inl (WrapError ''kraken: '' err)), s, k)
         | (Inr prices, k) \<Rightarrow> (Storing (i + 1) needed prices results, s, k)))"
| "ltp_next u pc api c (Storing i ((up, symb) # needed) prices results) (s, k) =
     (case gm_get prices symb of
        None \<Rightarrow> (Answered (Inl (HandlerError 400 (''pair not found or unsupported: '' @ up))), s, k)
      | Some p \<Rightarrow> (Storing (i + 1) needed prices (gm_put up p results), pc_set pc (in_call c i) symb p s, k))"
| "ltp_next u pc api c (Storing i [] prices results) (s, k) = (Answered (Inr (sorted_quotes results)), s, k)"
| "ltp_next u pc api c (Answered r) (s, k) = (Answered r, s, k)"

text \<open>The steps a call has left at most.\<close>

fun steps_left :: "ltp_place \<Rightarrow> nat" where
  "steps_left (Looking i ups results needed) = 2 * length ups + length needed + 2"
| "steps_left (Storing i needed prices results) = length needed + 1"
| "steps_left (Answered r) = 0"

lemma steps_left_next: "steps_left (fst (ltp_next u pc api c l (s, k))) \<le> steps_left l - 1"
  by (cases "(u, pc, api, c, l, (s, k))" rule: ltp_next.cases)
    (auto split: sum.splits prod.splits option.splits)

lemma normalize_all_length: "normalize_all u ps ns = Inr ns' \<Longrightarrow> length ns' \<le> length ps + length ns"
proof (induction u ps ns rule: normalize_all.induct)
  case (2 u p ps ns)
  then show ?case by (cases "normalize_user_pair u p") (auto split: if_splits)
qed simp

lemma steps_left_start: "steps_left (ltp_start u ps) \<le> 2 * length ps + 2"
  using normalize_all_length [of u ps "[]"] by (auto simp: ltp_start_def split: sum.split)

lemma no_steps_left: "steps_left l = 0 \<longleftrightarrow> (\<exists>r. l = Answered r)"
  by (cases l) simp_all

subsection \<open>An undisturbed call\<close>

fun ltp_steps :: "nat \<Rightarrow> go_unicode \<Rightarrow> 's price_cache \<Rightarrow> 'k kraken_api \<Rightarrow> clock \<Rightarrow> ltp_place \<times> 's \<times> 'k \<Rightarrow> ltp_place \<times> 's \<times> 'k" where
  "ltp_steps 0 u pc api c (l, st) = (l, st)"
| "ltp_steps (Suc n) u pc api c (l, st) = ltp_steps n u pc api c (ltp_next u pc api c l st)"

lemma steps_answered [simp]: "ltp_steps n u pc api c (Answered r, st) = (Answered r, st)"
  by (cases st, induction n) simp_all

text \<open>What is left of \<open>GetLTP\<close> at a place, in one piece.\<close>

fun ltp_rest :: "go_unicode \<Rightarrow> 's price_cache \<Rightarrow> 'k kraken_api \<Rightarrow> clock \<Rightarrow> ltp_place \<Rightarrow> 's \<times> 'k \<Rightarrow>
    (go_error + quote list) \<times> 's \<times> 'k" where
  "ltp_rest u pc api c (Looking i ups results needed) (s, k) =
     (case from_cache u pc c i ups results needed s of
        (Inl e, s) \<Rightarrow> (Inl e, s, k)
      | (Inr (results, needed), s) \<Rightarrow>
          if needed = [] then (Inr (sorted_quotes results), s, k)
          else
            (case api (in_call c (i + length ups)) (map snd needed) k of
               (Inl err, k) \<Rightarrow> (Inl (WrapError ''kraken: '' err), s, k)
             | (Inr prices, k) \<Rightarrow>
                 (case from_prices pc c (i + length ups + 1) needed prices results s of
                    (Inl e, s) \<Rightarrow> (Inl e, s, k)
                  | (Inr results, s) \<Rightarrow> (Inr (sorted_quotes results), s, k))))"
| "ltp_rest u pc api c (Storing i needed prices results) (s, k) =
     (case from_prices pc c i needed prices results s of
        (Inl e, s) \<Rightarrow> (Inl e, s, k)
      | (Inr results, s) \<Rightarrow> (Inr (sorted_quotes results), s, k))"
| "ltp_rest u pc api c (Answered r) (s, k) = (r, s, k)"

lemma rest_start: "ltp_rest u pc api c (ltp_start u ps) (s, k) = get_ltp u pc api c ps (s, k)"
  by (simp add: ltp_start_def get_ltp_def split: sum.split prod.split)

lemma rest_next:
  "ltp_rest u pc api c (fst (ltp_next u pc api c l (s, k))) (snd (ltp_next u pc api c l (s, k))) =
     ltp_rest u pc api c l (s, k)"
  by (cases "(u, pc, api, c, l, (s, k))" rule: ltp_next.cases)
    (auto simp: Suc_eq_plus1 ac_simps split: sum.splits prod.splits option.splits)

lemma steps_rest:
  "steps_left l \<le> n \<Longrightarrow> ltp_steps n u pc api c (l, st) =
     (Answered (fst (ltp_rest u pc api c l st)), snd (ltp_rest u pc api c l st))"
proof (induction n arbitrary: l st)
  case 0
  then obtain r where "l = Answered r" by (auto simp: no_steps_left)
  then show ?case by (cases st) simp
next
  case (Suc n)
  obtain s k where st: "st = (s, k)" by fastforce
  obtain l' st' where n: "ltp_next u pc api c l (s, k) = (l', st')" by (rule prod.exhaust)
  have "steps_left l' \<le> n" using steps_left_next [of u pc api c l s k] Suc.prems by (simp add: n)
  then show ?case using Suc.IH [of l' st'] rest_next [of u pc api c l s k] by (simp add: st n)
qed

text \<open>
  The atomic \<open>GetLTP\<close> of the sequential model is the run of one call that no other
  disturbs: after as many steps as a call can take it has the same answer and has left the
  cache and the client in the same state.
\<close>

theorem get_ltp_is_a_run:
  "ltp_steps (2 * length ps + 2) u pc api c (ltp_start u ps, st) =
     (Answered (fst (get_ltp u pc api c ps st)), snd (get_ltp u pc api c ps st))"
  using steps_rest [OF steps_left_start [of u ps], of u pc api c st] by (cases st) (simp add: rest_start)

subsection \<open>Calls that interleave\<close>

record ('s, 'k) concurrent_service =
  cs_cache :: 's
  cs_api :: 'k
  cs_calls :: "nat \<Rightarrow> (clock \<times> ltp_place) option"

definition start_service :: "'s \<Rightarrow> 'k \<Rightarrow> ('s, 'k) concurrent_service" where
  "start_service cache k = \<lparr>cs_cache = cache, cs_api = k, cs_calls = (\<lambda>_. None)\<rparr>"

text \<open>A request starts a goroutine, a call takes a step, or another part uses the cache.\<close>

datatype service_act = Calls nat clock "string list" | Proceeds nat | Others store_op

fun service_act_step :: "go_unicode \<Rightarrow> 's cache_ops \<Rightarrow> 'k kraken_api \<Rightarrow> service_act \<Rightarrow>
    ('s, 'k) concurrent_service \<Rightarrow> ('s, 'k) concurrent_service" where
  "service_act_step u ops api (Calls g c user_pairs) s =
     (if cs_calls s g = None then s\<lparr>cs_calls := (cs_calls s)(g \<mapsto> (c, ltp_start u user_pairs))\<rparr> else s)"
| "service_act_step u ops api (Proceeds g) s =
     (case cs_calls s g of
        None \<Rightarrow> s
      | Some (c, l) \<Rightarrow>
          (let (l, cache, k) = ltp_next u (legacy_cache ops) api c l (cs_cache s, cs_api s)
           in \<lparr>cs_cache = cache, cs_api = k, cs_calls = (cs_calls s)(g \<mapsto> (c, l))\<rparr>))"
| "service_act_step u ops api (Others x) s = s\<lparr>cs_cache := store_step ops x (cs_cache s)\<rparr>"

fun service_acts :: "go_unicode \<Rightarrow> 's cache_ops \<Rightarrow> 'k kraken_api \<Rightarrow> service_act list \<Rightarrow>
    ('s, 'k) concurrent_service \<Rightarrow> ('s, 'k) concurrent_service" where
  "service_acts u ops api [] s = s"
| "service_acts u ops api (a # as) s = service_acts u ops api as (service_act_step u ops api a s)"

text \<open>The prices that Kraken gives in a run, with the symbol and the clock of the call that asked.\<close>

fun given_here :: "'k kraken_api \<Rightarrow> clock \<Rightarrow> ltp_place \<Rightarrow> 'k \<Rightarrow> (string \<times> f64 \<times> clock) list" where
  "given_here api c (Looking i [] results needed) k =
     (if needed = [] then []
      else
        (case fst (api (in_call c i) (map snd needed) k) of
           Inl err \<Rightarrow> []
         | Inr prices \<Rightarrow> map (\<lambda>(symb, v). (symb, v, c)) prices))"
| "given_here api c l k = []"

fun given_now :: "'k kraken_api \<Rightarrow> service_act \<Rightarrow> ('s, 'k) concurrent_service \<Rightarrow> (string \<times> f64 \<times> clock) list" where
  "given_now api (Proceeds g) s =
     (case cs_calls s g of None \<Rightarrow> [] | Some (c, l) \<Rightarrow> given_here api c l (cs_api s))"
| "given_now api a s = []"

fun given :: "go_unicode \<Rightarrow> 's cache_ops \<Rightarrow> 'k kraken_api \<Rightarrow> service_act list \<Rightarrow> ('s, 'k) concurrent_service \<Rightarrow>
    (string \<times> f64 \<times> clock) list" where
  "given u ops api [] s = []"
| "given u ops api (a # as) s = given_now api a s @ given u ops api as (service_act_step u ops api a s)"

subsection \<open>Every call ends\<close>

fun proceeds :: "nat \<Rightarrow> service_act \<Rightarrow> bool" where
  "proceeds g (Proceeds h) \<longleftrightarrow> h = g"
| "proceeds g a \<longleftrightarrow> False"

lemma call_progress:
  assumes "cs_calls s g = Some (c, l)"
  shows "\<exists>l'. cs_calls (service_act_step u ops api a s) g = Some (c, l') \<and>
    steps_left l' \<le> steps_left l - (if proceeds g a then 1 else 0)"
proof (cases a)
  case (Proceeds h)
  then show ?thesis
    using assms steps_left_next [of u "legacy_cache ops" api c l "cs_cache s" "cs_api s"]
    by (auto simp: Let_def split_beta split: option.split)
qed (use assms in auto)

lemma calls_progress:
  assumes "cs_calls s g = Some (c, l)"
  shows "\<exists>l'. cs_calls (service_acts u ops api as s) g = Some (c, l') \<and>
    steps_left l' \<le> steps_left l - length (filter (proceeds g) as)"
  using assms
proof (induction as arbitrary: s l)
  case (Cons a as)
  obtain l1 where l1: "cs_calls (service_act_step u ops api a s) g = Some (c, l1)"
    "steps_left l1 \<le> steps_left l - (if proceeds g a then 1 else 0)"
    using call_progress [OF Cons.prems] by blast
  obtain l2 where "cs_calls (service_acts u ops api as (service_act_step u ops api a s)) g = Some (c, l2)"
    "steps_left l2 \<le> steps_left l1 - length (filter (proceeds g) as)"
    using Cons.IH [OF l1(1)] by blast
  then show ?case using l1(2) by (intro exI [of _ l2]) (auto split: if_splits)
qed simp

text \<open>
  C21: A call of \<open>GetLTP\<close> ends whatever the others do: once it has taken two steps for each
  pair that it was asked for, and two more, it has its answer.
\<close>

theorem concurrent_call_ends:
  assumes "cs_calls s g = None" and "2 * length ps + 2 \<le> length (filter (proceeds g) as)"
  shows "\<exists>r. cs_calls (service_acts u ops api (Calls g c ps # as) s) g = Some (c, Answered r)"
proof -
  have "cs_calls (service_act_step u ops api (Calls g c ps) s) g = Some (c, ltp_start u ps)" using assms(1) by simp
  from calls_progress [OF this, of u ops api as] obtain l where
    l: "cs_calls (service_acts u ops api (Calls g c ps # as) s) g = Some (c, l)"
    "steps_left l \<le> steps_left (ltp_start u ps) - length (filter (proceeds g) as)" by auto
  then have "steps_left l = 0" using assms(2) steps_left_start [of u ps] by linarith
  then show ?thesis using l(1) by (auto simp: no_steps_left)
qed

subsection \<open>Where an amount comes from\<close>

text \<open>
  \<open>sourced\<close>: an amount for a pair was given by Kraken to a call that could store it at most \<open>d\<close>
  before the call on clock \<open>c\<close> started.  \<open>backed\<close>: a history stores only such amounts, for a
  minute, and the value of the probe.
\<close>

definition sourced :: "go_unicode \<Rightarrow> duration \<Rightarrow> (string \<times> f64 \<times> clock) set \<Rightarrow> clock \<Rightarrow> string \<Rightarrow> f64 \<Rightarrow> bool" where
  "sourced u d G c p v \<longleftrightarrow>
     (\<exists>symb c' j. to_kraken_symbol u p = Inr symb \<and> (symb, v, c') \<in> G \<and> c [] \<le> c' [j, 0] + d)"

definition backed :: "(string \<times> f64 \<times> clock) set \<Rightarrow> store_op list \<Rightarrow> bool" where
  "backed G H \<longleftrightarrow> (\<forall>c' symb v ttl. SSet c' symb v ttl \<in> set H \<longrightarrow> symb = ''health_check'' \<or>
     (ttl = 60 * second \<and> (\<exists>x c j. v = AnyFloat x \<and> c' = in_call (in_call c j) 0 \<and> (symb, x, c) \<in> G)))"

fun place_ok :: "go_unicode \<Rightarrow> duration \<Rightarrow> (string \<times> f64 \<times> clock) set \<Rightarrow> clock \<Rightarrow> ltp_place \<Rightarrow> bool" where
  "place_ok u d G c (Looking i ups results needed) \<longleftrightarrow>
     gm_ok results \<and> (\<forall>p v. gm_get results p = Some v \<longrightarrow> sourced u d G c p v) \<and>
     (\<forall>(up, symb)\<in>set needed. to_kraken_symbol u up = Inr symb)"
| "place_ok u d G c (Storing i needed prices results) \<longleftrightarrow>
     gm_ok results \<and> (\<forall>p v. gm_get results p = Some v \<longrightarrow> sourced u d G c p v) \<and>
     (\<forall>(up, symb)\<in>set needed. to_kraken_symbol u up = Inr symb) \<and>
     (\<forall>symb v. gm_get prices symb = Some v \<longrightarrow> (symb, v, c) \<in> G)"
| "place_ok u d G c (Answered r) \<longleftrightarrow>
     (\<forall>qs. r = Inr qs \<longrightarrow> (\<forall>q\<in>set qs. sourced u d G c (quote_pair q) (quote_amount q)))"

lemma sourced_more: "sourced u d G c p v \<Longrightarrow> sourced u d (G \<union> G') c p v"
  unfolding sourced_def by blast

lemma backed_more: "backed G H \<Longrightarrow> backed (G \<union> G') H"
  unfolding backed_def by blast

lemma backed_append: "backed G (H @ xs) \<longleftrightarrow> backed G H \<and> backed G xs"
  unfolding backed_def set_append Un_iff by blast

lemma place_ok_more: "place_ok u d G c l \<Longrightarrow> place_ok u d (G \<union> G') c l"
  by (cases l) (auto intro: sourced_more)

lemma place_ok_start: "place_ok u d G c (ltp_start u ps)"
  by (simp add: ltp_start_def gm.ok_empty gm.lookup_empty split: sum.split)

lemma sourced_put:
  assumes "gm_ok results" and "\<forall>p v. gm_get results p = Some v \<longrightarrow> sourced u d G c p v" and "sourced u d G c up v"
  shows "gm_ok (gm_put up v results) \<and> (\<forall>p w. gm_get (gm_put up v results) p = Some w \<longrightarrow> sourced u d G c p w)"
  using assms by (auto simp: gm.ok_put gm.lookup_put)

lemma sourced_quotes:
  assumes "gm_ok results" and "\<forall>p v. gm_get results p = Some v \<longrightarrow> sourced u d G c p v"
  shows "\<forall>q\<in>set (sorted_quotes results). sourced u d G c (quote_pair q) (quote_amount q)"
  using assms sorted_quotes_in by blast

lemma given_here_prices:
  assumes "needed \<noteq> []" and "api (in_call c i) (map snd needed) k = (Inr prices, k')" and "gm_get prices symb = Some v"
  shows "(symb, v, c) \<in> set (given_here api c (Looking i [] results needed) k)"
proof -
  have "(symb, v) \<in> set prices" using assms(3) by (simp add: gm_get_def map_of_SomeD)
  then show ?thesis using assms(1,2) by force
qed

text \<open>What a run may do: operations of the cache that take at most \<open>slack\<close>, of which only calls write prices.\<close>

fun act_ok :: "duration \<Rightarrow> service_act \<Rightarrow> bool" where
  "act_ok slack (Calls g c ps) \<longleftrightarrow> cache_calls_within slack c \<and> mono_clock c"
| "act_ok slack (Proceeds g) \<longleftrightarrow> True"
| "act_ok slack (Others (SSet c k v ttl)) \<longleftrightarrow> clock_within slack c \<and> k = ''health_check''"
| "act_ok slack (Others x) \<longleftrightarrow> clock_within slack (store_clock x)"

context value_store begin

text \<open>An amount that a hit gives was stored by a call to which Kraken gave it.\<close>

lemma hit_sourced:
  assumes "upper_law u" and "ok s" and "accounted H s" and "backed G H" and "cache_calls_within slack c" and "mono_clock c"
    and "to_kraken_symbol u up = Inr symb" and "fst (legacy_get ops (in_call c i) symb s) = Some v"
  shows "sourced u (life (60 * second)) G c up v"
proof -
  have within: "clock_within slack (in_call (in_call c i) 0)" using assms(5) by (simp add: cache_calls_within_def)
  have hit: "fst (op_get ops (in_call (in_call c i) 0) symb (store_run ops [] s)) = Inr (Some (AnyFloat v))"
    using assms(8) by (simp add: legacy_get_hit)
  obtain c' ttl where set: "SSet c' symb (AnyFloat v) ttl \<in> set H" and age: "in_call (in_call c i) 0 [] \<le> c' [] + life ttl"
    using accounted_hit [OF assms(2,3) _ within hit] by auto
  obtain c'' j where "ttl = 60 * second" "c' = in_call (in_call c'' j) 0" "(symb, v, c'') \<in> G"
    using assms(4) set symbol_not_probe [OF assms(1,7)] unfolding backed_def by blast
  moreover have "c [] \<le> in_call (in_call c i) 0 []" using assms(6) by (simp add: in_call_def mono_clockD)
  ultimately have "(symb, v, c'') \<in> G \<and> c [] \<le> c'' [j, 0] + life (60 * second)" using age by (simp add: in_call_def)
  then show ?thesis using assms(7) unfolding sourced_def by blast
qed

lemma place_next:
  assumes "upper_law u" and "0 \<le> life (60 * second)"
    and "ok s" and "accounted H s" and "backed G H" and "cache_calls_within slack c" and "mono_clock c"
    and "place_ok u (life (60 * second)) G c l" and "ltp_next u (legacy_cache ops) api c l (s, k) = (l', s', k')"
  shows "\<exists>xs. s' = store_run ops xs s \<and> (\<forall>x\<in>set xs. clock_within slack (store_clock x)) \<and> backed G xs \<and>
    place_ok u (life (60 * second)) (G \<union> set (given_here api c l k)) c l'"
proof -
  let ?d = "life (60 * second)" and ?G = "G \<union> set (given_here api c l k)"
  have still: ?thesis if "s' = s" and "place_ok u ?d ?G c l'"
    using that by (intro exI [of _ "[]"]) (simp add: backed_def)
  have within: "clock_within slack (in_call (in_call c i) 0)" for i using assms(6) by (simp add: cache_calls_within_def)
  have kept: "place_ok u ?d ?G c l" using assms(8) by (rule place_ok_more)
  show ?thesis
  proof (cases l)
    case (Looking i ups results needed)
    show ?thesis
    proof (cases ups)
      case Nil
      consider "needed = []" | err k1 where "needed \<noteq> []" "api (in_call c i) (map snd needed) k = (Inl err, k1)"
        | prices k1 where "needed \<noteq> []" "api (in_call c i) (map snd needed) k = (Inr prices, k1)"
        by (cases "api (in_call c i) (map snd needed) k"; cases "fst (api (in_call c i) (map snd needed) k)") auto
      then show ?thesis
      proof cases
        case 1
        then show ?thesis using assms(9) kept sourced_quotes [of results u ?d ?G c] by (intro still) (auto simp: Looking Nil)
      next
        case 2
        then show ?thesis using assms(9) by (intro still) (auto simp: Looking Nil)
      next
        case 3
        then show ?thesis using assms(9) kept given_here_prices [of needed api c i k prices k1 _ _ results]
          by (intro still) (auto simp: Looking Nil simp del: given_here.simps)
      qed
    next
      case (Cons up ups')
      show ?thesis
      proof (cases "to_kraken_symbol u up")
        case (Inl err)
        then show ?thesis using assms(9) by (intro still) (auto simp: Looking Cons)
      next
        case (Inr symb)
        let ?xs = "[SGet (in_call (in_call c i) 0) symb]"
        obtain r s1 where get: "legacy_get ops (in_call c i) symb s = (r, s1)" by fastforce
        have s1: "s1 = store_run ops ?xs s" using legacy_get_snd [of ops "in_call c i" symb s] get by simp
        have "s' = s1 \<and> place_ok u ?d ?G c l'"
        proof (cases r)
          case None
          then show ?thesis using assms(9) kept Inr get by (auto simp: Looking Cons legacy_cache_def)
        next
          case (Some v)
          have "sourced u ?d G c up v"
            using hit_sourced [OF assms(1,3-7) Inr, of i v] get Some by simp
          then have "sourced u ?d ?G c up v" by (rule sourced_more)
          then show ?thesis using assms(9) kept Inr get Some sourced_put [of results u ?d ?G c up v]
            by (auto simp: Looking Cons legacy_cache_def)
        qed
        then show ?thesis using s1 within by (intro exI [of _ ?xs]) (simp add: backed_def)
      qed
    qed
  next
    case (Storing i needed prices results)
    show ?thesis
    proof (cases needed)
      case Nil
      then show ?thesis using assms(9) kept sourced_quotes [of results u ?d ?G c] by (intro still) (auto simp: Storing)
    next
      case (Cons need needed')
      obtain up symb where need: "need = (up, symb)" by fastforce
      have symb: "to_kraken_symbol u up = Inr symb" using assms(8) by (simp add: Storing Cons need)
      show ?thesis
      proof (cases "gm_get prices symb")
        case None
        then show ?thesis using assms(9) by (intro still) (auto simp: Storing Cons need)
      next
        case (Some v)
        let ?xs = "[SSet (in_call (in_call c i) 0) symb (AnyFloat v) (60 * second)]"
        have given: "(symb, v, c) \<in> G" using assms(8) Some by (simp add: Storing)
        have "c [] \<le> c [0, 0] + ?d" using assms(2) mono_clockD [OF assms(7), of "[]" "[0, 0]"] by simp
        then have "sourced u ?d ?G c up v" using symb given unfolding sourced_def by blast
        then have "place_ok u ?d ?G c l'" using assms(9) kept Some sourced_put [of results u ?d ?G c up v]
          by (auto simp: Storing Cons need)
        moreover have "s' = store_run ops ?xs s" using assms(9) Some
          by (simp add: Storing Cons need legacy_cache_def legacy_set_def)
        moreover have "backed G ?xs" using given unfolding backed_def by simp blast
        ultimately show ?thesis using within by (intro exI [of _ ?xs]) simp
      qed
    qed
  next
    case (Answered r)
    then show ?thesis using assms(9) kept by (intro still) auto
  qed
qed

definition service_inv :: "go_unicode \<Rightarrow> (string \<times> f64 \<times> clock) set \<Rightarrow> ('s, 'k) concurrent_service \<Rightarrow> bool" where
  "service_inv u G s \<longleftrightarrow> ok (cs_cache s) \<and> (\<exists>H. accounted H (cs_cache s) \<and> backed G H) \<and>
     (\<forall>g c l. cs_calls s g = Some (c, l) \<longrightarrow>
        place_ok u (life (60 * second)) G c l \<and> cache_calls_within slack c \<and> mono_clock c)"

lemma service_inv_step:
  assumes "upper_law u" and "0 \<le> life (60 * second)" and "service_inv u G s" and "act_ok slack a"
  shows "service_inv u (G \<union> set (given_now api a s)) (service_act_step u ops api a s)"
proof (cases a)
  case (Calls g c ps)
  then show ?thesis using assms(3,4) place_ok_start by (auto simp: service_inv_def)
next
  case (Proceeds g)
  show ?thesis
  proof (cases "cs_calls s g")
    case None
    then show ?thesis using assms(3) Proceeds by simp
  next
    case (Some call)
    obtain c l where call: "cs_calls s g = Some (c, l)" using Some by (cases call) simp
    obtain H where H: "accounted H (cs_cache s)" "backed G H" and ok: "ok (cs_cache s)"
      using assms(3) by (auto simp: service_inv_def)
    have c: "place_ok u (life (60 * second)) G c l" "cache_calls_within slack c" "mono_clock c"
      using assms(3) call by (auto simp: service_inv_def)
    obtain l' s' k' where n: "ltp_next u (legacy_cache ops) api c l (cs_cache s, cs_api s) = (l', s', k')"
      by (metis prod_cases3)
    let ?G = "G \<union> set (given_here api c l (cs_api s))"
    obtain xs where xs: "s' = store_run ops xs (cs_cache s)" "\<forall>x\<in>set xs. clock_within slack (store_clock x)" "backed G xs"
      and l': "place_ok u (life (60 * second)) ?G c l'"
      using place_next [OF assms(1,2) ok H c(2,3,1) n] by blast
    have "accounted (H @ xs) s' \<and> ok s'" using accounted_run [OF ok xs(2) H(1)] xs(1) by simp
    moreover have "backed ?G (H @ xs)" using H(2) xs(3) backed_more by (simp add: backed_append)
    ultimately have "ok s' \<and> (\<exists>H. accounted H s' \<and> backed ?G H)" by blast
    moreover have "service_act_step u ops api a s = \<lparr>cs_cache = s', cs_api = k', cs_calls = (cs_calls s)(g \<mapsto> (c, l'))\<rparr>"
      by (simp add: Proceeds call n)
    ultimately show ?thesis using assms(3) l' c(2,3) place_ok_more
      by (auto simp: service_inv_def Proceeds call split: if_splits)
  qed
next
  case (Others x)
  obtain H where H: "accounted H (cs_cache s)" "backed G H" and ok: "ok (cs_cache s)"
    using assms(3) by (auto simp: service_inv_def)
  have x: "clock_within slack (store_clock x)" "backed G [x]"
    using assms(4) by (cases x; simp add: Others backed_def)+
  have "accounted (H @ [x]) (store_step ops x (cs_cache s)) \<and> ok (store_step ops x (cs_cache s))"
    using accounted_step [OF ok x(1) H(1)] step_ok [OF ok x(1)] by blast
  moreover have "backed G (H @ [x])" using H(2) x(2) by (simp add: backed_append)
  ultimately show ?thesis using assms(3) by (auto simp: service_inv_def Others)
qed

lemma service_inv_run:
  assumes "upper_law u" and "0 \<le> life (60 * second)" and "service_inv u G s" and "\<forall>a\<in>set as. act_ok slack a"
  shows "service_inv u (G \<union> set (given u ops api as s)) (service_acts u ops api as s)"
  using assms(3,4)
proof (induction as arbitrary: G s)
  case (Cons a as)
  have "service_inv u (G \<union> set (given_now api a s)) (service_act_step u ops api a s)"
    using service_inv_step [OF assms(1,2) Cons.prems(1)] Cons.prems(2) by simp
  from Cons.IH [OF this] Cons.prems(2) show ?case by (simp add: Un_assoc)
qed simp

text \<open>Every amount that a call of a run answers is sourced.\<close>

lemma run_sourced:
  assumes "upper_law u" and "0 \<le> life (60 * second)" and "ok cache" and "\<And>k. serves cache k = {}"
    and "\<forall>a\<in>set as. act_ok slack a"
    and "cs_calls (service_acts u ops api as (start_service cache k)) g = Some (c, Answered (Inr quotes))" and "q \<in> set quotes"
  shows "sourced u (life (60 * second)) (set (given u ops api as (start_service cache k))) c (quote_pair q) (quote_amount q)"
proof -
  have "accounted [] cache" using assms(4) by (simp add: accounted_def)
  then have "service_inv u {} (start_service cache k)"
    using assms(3) by (auto simp: service_inv_def start_service_def backed_def)
  from service_inv_run [OF assms(1,2) this assms(5), of api] show ?thesis
    using assms(6,7) by (fastforce simp: service_inv_def)
qed

end

text \<open>
  C4: What clients are told is fresh also when their requests interleave between any two
  calls of the cache and of Kraken, with each other and with the probe of \<open>/ready\<close> and the
  cleanup.  Whichever cache the environment selects, every amount that a call of \<open>GetLTP\<close>
  answers was given by Kraken for the symbol of its pair, to a call that could store it at
  most six minutes before this call started (and four times the duration \<open>slack\<close> of an
  operation of the cache).
\<close>

theorem concurrent_prices_are_fresh:
  assumes laws: "redis_laws (pf_redis p) view" "upper_law (pf_unicode p)" and slack: "0 \<le> slack"
    and cache: "create_cache_from_env (pf_redis p) (pf_url_parse p) env c0 = Inr cache"
    and redis: "\<And>r. redis_of cache = Some r \<Longrightarrow> view r = (\<lambda>_. None)"
    and ttls: "env ''CACHE_MAX_TTL'' = []" "env ''CACHE_FALLBACK_TTL'' = []"
    and acts: "\<forall>a\<in>set as. act_ok slack a"
    and res: "cs_calls (service_acts (pf_unicode p) (price_impl p) (kraken_of p) as (start_service cache k)) g =
      Some (c, Answered (Inr quotes))"
    and q: "q \<in> set quotes"
  shows "\<exists>symb c' j. to_kraken_symbol (pf_unicode p) (quote_pair q) = Inr symb \<and>
    (symb, quote_amount q, c') \<in> set (given (pf_unicode p) (price_impl p) (kraken_of p) as (start_service cache k)) \<and>
    c [] \<le> c' [j, 0] + 6 * minute + 4 * slack"
proof -
  let ?cfg = "load_config_from_env env"
  have life: "price_life slack ?cfg (60 * second) = 6 * minute + 4 * slack" by (rule default_price_life [OF ttls slack])
  then have pos: "0 \<le> price_life slack ?cfg (60 * second)" using slack by (simp add: duration_defs)
  from value_store.run_sourced [OF price_store [OF laws(1) slack] laws(2) pos created_price_ok [OF cache]
      created_serves_nothing [OF cache redis, where p = p and slack = slack and cfg = ?cfg] acts res q]
  show ?thesis unfolding life sourced_def by (simp add: add.assoc)
qed

text \<open>
  Two requests for the same pair: the first asks Kraken, the second starts before Kraken
  answers, looks the symbol up half a minute later, and is served from the cache.
\<close>

lemma memory_legacy:
  "legacy_get (price_impl p) c k (MemoryCache m) =
     ((case fst (mem_get (in_call c 0) k m) of Some (AnyFloat v) \<Rightarrow> Some v | _ \<Rightarrow> None),
      MemoryCache (snd (mem_get (in_call c 0) k m)))"
  "legacy_set (price_impl p) c k v (MemoryCache m) =
     MemoryCache (mem_set (pf_order p) (in_call c 0) k (AnyFloat v) (60 * second) m)"
  by (simp_all add: legacy_get_def legacy_set_def price_impl_def any_ops_def memory_ops_def split_beta)

definition sample_clock :: clock where
  "sample_clock = (\<lambda>_. 30 * second)"

definition sample_calls :: "service_act list" where
  "sample_calls = [Calls 1 (\<lambda>_. 0) [''BTC/USD''], Proceeds 1, Calls 2 sample_clock [''BTC/USD''], Others (SEvict (\<lambda>_. 0)),
     Proceeds 1, Proceeds 1, Proceeds 2, Proceeds 1, Proceeds 2]"

lemma sample_second_call:
  "cs_calls (service_acts (pf_unicode sample_platform) (price_impl sample_platform) (kraken_of sample_platform) sample_calls
     (start_service (MemoryCache (new_in_memory_cache default_cache_config)) (sample_client [btc_reply]))) 2 =
   Some (sample_clock, Answered (Inr [btc_quote]))"
proof -
  let ?k = "''XXBTZUSD''" and ?v = "Fin (100001 / 2)"
  define m0 where "m0 = new_in_memory_cache default_cache_config"
  define m1 where "m1 = snd (mem_get (\<lambda>_. 0) ?k m0)"
  define m2 where "m2 = snd (mem_evict_expired (pf_order sample_platform) (\<lambda>_. 0) m1)"
  define m3 where "m3 = mem_set (pf_order sample_platform) (\<lambda>_. 0) ?k (AnyFloat ?v) (60 * second) m2"
  note m = m3_def m2_def m1_def m0_def
  have miss: "fst (mem_get (\<lambda>_. 0) ?k m0) = None" unfolding m by code_simp
  have hit: "fst (mem_get sample_clock ?k m3) = Some (AnyFloat ?v)" unfolding m by code_simp
  have "fst (kraken_of sample_platform (\<lambda>_. 0) [?k] (sample_client [btc_reply])) = Inr [(?k, ?v)]" using btc_api by simp
  then obtain k1 where api: "kraken_of sample_platform (\<lambda>_. 0) [?k] (sample_client [btc_reply]) = (Inr [(?k, ?v)], k1)"
    by (metis prod.collapse)
  have evict: "snd (op_evict_expired (price_impl sample_platform) c (MemoryCache m)) =
      MemoryCache (snd (mem_evict_expired (pf_order sample_platform) c m))" for c m
    by (simp add: price_impl_def any_ops_def memory_ops_def split_beta)
  have clock: "in_call sample_clock i = sample_clock" for i by (simp add: sample_clock_def)
  have start: "ltp_start (pf_unicode sample_platform) [''BTC/USD''] = Looking 0 [''BTC/USD''] [] []"
    by (simp add: ltp_start_def normalize_btc_usd)
  show ?thesis
    using miss hit api
    by (simp add: sample_calls_def start_service_def start to_kraken_btc_usd legacy_cache_def memory_legacy
        evict clock btc_quote_def sorted_quotes_def gm_get_def gm_put_def Let_def flip: m)
qed

theorem concurrent_prices_are_fresh_witness:
  "\<exists>symb c' j. to_kraken_symbol (pf_unicode sample_platform) ''BTC/USD'' = Inr symb \<and>
     (symb, Fin (500005 / 10), c') \<in> set (given (pf_unicode sample_platform) (price_impl sample_platform)
        (kraken_of sample_platform) sample_calls
        (start_service (MemoryCache (new_in_memory_cache default_cache_config)) (sample_client [btc_reply]))) \<and>
     30 * second \<le> c' [j, 0] + 6 * minute + 4 * second"
proof -
  let ?env = "(\<lambda>_. []) :: environment" and ?m = "MemoryCache (new_in_memory_cache default_cache_config)"
  have laws: "redis_laws (pf_redis sample_platform) (\<lambda>r. r)" by (simp add: sample_platform_def sample_laws)
  have slack: "0 \<le> second" by (simp add: second_def)
  have cfg: "load_config_from_env ?env = default_cache_config" by (simp add: load_config_from_env_def from_env_def)
  have made: "create_cache_from_env (pf_redis sample_platform) (pf_url_parse sample_platform) ?env (\<lambda>_. 0) = Inr ?m"
    by (simp add: create_cache_from_env_def create_cache_def get_cache_type_from_config_def cache_type_defs cfg Let_def)
      (simp add: default_cache_config_def)
  have acts: "\<forall>a\<in>set sample_calls. act_ok second a"
    by (simp add: sample_calls_def sample_clock_def cache_calls_within_def duration_defs)
  have q: "btc_quote \<in> set [btc_quote]" by simp
  from concurrent_prices_are_fresh [OF laws sample_upper slack made _ _ _ acts sample_second_call q]
  show ?thesis by (simp add: btc_quote_def sample_clock_def)
qed

theorem concurrent_call_ends_witness:
  "\<exists>r. cs_calls (service_acts (pf_unicode sample_platform) (price_impl sample_platform) (kraken_of sample_platform)
     (Calls 1 (\<lambda>_. 0) [''BTC/USD''] # concat (replicate 4 [Proceeds 1, Others (SEvict (\<lambda>_. 0))]))
     (start_service (MemoryCache (new_in_memory_cache default_cache_config)) (sample_client [btc_reply]))) 1 =
     Some (\<lambda>_. 0, Answered r)"
  by (rule concurrent_call_ends) (simp_all add: start_service_def numeral_eq_Suc)

end
