(* ===== verification/Worker_Lifecycle.thy ===== *)
theory Worker_Lifecycle
  imports Service_Main
begin

text \<open>
  The goroutines behind a fallback cache, from \<open>StartBackgroundRefresh\<close> to the return of
  \<open>StopBackgroundRefresh\<close>: refresh workers and a cleanup worker that receive and then handle
  what they received, and any number of goroutines that stop them, wait for them under the
  lock \<open>mu\<close>, and return.  The counter of the \<open>sync.WaitGroup\<close> is the field \<open>workers\<close> of the cache.
  The refresh interval is positive here: with any other the first worker ends the process
  (\<open>refresh_worker\<close>).
\<close>

declare One_nat_def [simp del]

subsection \<open>The machine\<close>

datatype worker_kind = Refresher | Cleaner

text \<open>A worker is at its \<open>select\<close>, handles a key or a tick, or has returned.\<close>

datatype worker_place = AtSelect worker_kind | HandlesKey string | HandlesTick worker_kind | Gone

datatype worker_message = KeyMessage | TickMessage | StopMessage | CtxMessage

datatype stop_place = NotCalled | Waits | Stopped

record ('p, 'w) lifecycle =
  lc_cache :: "'p fallback_cache"
  lc_world :: 'w
  lc_ctx_done :: bool
  lc_workers :: "worker_place list"
  lc_mu_held :: bool
  lc_stops :: "nat \<Rightarrow> stop_place"

definition no_workers :: "'p fallback_cache \<Rightarrow> 'w \<Rightarrow> ('p, 'w) lifecycle" where
  "no_workers f w = \<lparr>lc_cache = f, lc_world = w, lc_ctx_done = False, lc_workers = [], lc_mu_held = False,
     lc_stops = (\<lambda>_. NotCalled)\<rparr>"

definition started_workers :: "'p fallback_cache \<Rightarrow> worker_place list" where
  "started_workers f =
     (if \<not> enable_fallback (fc_config f) then []
      else replicate (nat (refresh_workers (fc_config f))) (AtSelect Refresher) @ [AtSelect Cleaner])"

text \<open>
  The cases of a \<open>select\<close>.  A message that is not there is not received.  The deferred calls
  count the worker down when it returns.
\<close>

definition worker_returns :: "'p fallback_cache \<Rightarrow> worker_place \<times> 'p fallback_cache" where
  "worker_returns f = (Gone, f\<lparr>workers := workers f - 1\<rparr>)"

fun worker_receives :: "bool \<Rightarrow> worker_message \<Rightarrow> worker_kind \<Rightarrow> 'p fallback_cache \<Rightarrow> worker_place \<times> 'p fallback_cache" where
  "worker_receives ctx_done KeyMessage k f =
     (case (k, refresh_ch f) of
        (Refresher, key # keys) \<Rightarrow> (HandlesKey key, f\<lparr>refresh_ch := keys\<rparr>)
      | _ \<Rightarrow> (AtSelect k, f))"
| "worker_receives ctx_done TickMessage k f = (HandlesTick k, f)"
| "worker_receives ctx_done StopMessage k f = (if stop_ch_closed f then worker_returns f else (AtSelect k, f))"
| "worker_receives ctx_done CtxMessage k f = (if ctx_done then worker_returns f else (AtSelect k, f))"

fun worker_handles :: "'p cache_ops \<Rightarrow> range_order \<Rightarrow> ('p, 'w) refresh_func \<Rightarrow> clock \<Rightarrow> worker_place \<Rightarrow>
    'p fallback_cache \<times> 'w \<Rightarrow> worker_place \<times> 'p fallback_cache \<times> 'w" where
  "worker_handles ops order refresh c (HandlesKey key) (f, w) =
     (AtSelect Refresher, refresh_key ops order refresh c key (f, w))"
| "worker_handles ops order refresh c (HandlesTick Refresher) (f, w) =
     (AtSelect Refresher, refresh_expiring_keys order c f, w)"
| "worker_handles ops order refresh c (HandlesTick Cleaner) (f, w) =
     (AtSelect Cleaner, snd (fb_evict_expired ops order c f), w)"
| "worker_handles ops order refresh c l (f, w) = (l, f, w)"

text \<open>
  What happens: the workers are started, one receives or has handled something, the context
  is cancelled, a goroutine calls \<open>StopBackgroundRefresh\<close> or is released from its wait, or
  another goroutine uses the cache, without the lock \<open>mu\<close>.
\<close>

datatype lifecycle_act =
  StartsWorkers | Receives nat worker_message | Handles nat clock | Cancels | CallsStop nat | EndsWait nat | UsesCache store_op

fun lifecycle_step :: "'p cache_ops \<Rightarrow> range_order \<Rightarrow> ('p, 'w) refresh_func \<Rightarrow> lifecycle_act \<Rightarrow>
    ('p, 'w) lifecycle \<Rightarrow> ('p, 'w) lifecycle" where
  "lifecycle_step ops order refresh StartsWorkers s =
     s\<lparr>lc_workers := lc_workers s @ started_workers (lc_cache s), lc_cache := start_background_refresh (lc_cache s)\<rparr>"
| "lifecycle_step ops order refresh (Receives i m) s =
     (if i < length (lc_workers s) then
        (case lc_workers s ! i of
           AtSelect k \<Rightarrow>
             (let (l, f) = worker_receives (lc_ctx_done s) m k (lc_cache s)
              in s\<lparr>lc_workers := (lc_workers s)[i := l], lc_cache := f\<rparr>)
         | _ \<Rightarrow> s)
      else s)"
| "lifecycle_step ops order refresh (Handles i c) s =
     (if i < length (lc_workers s) then
        (let (l, f, w) = worker_handles ops order refresh c (lc_workers s ! i) (lc_cache s, lc_world s)
         in s\<lparr>lc_workers := (lc_workers s)[i := l], lc_cache := f, lc_world := w\<rparr>)
      else s)"
| "lifecycle_step ops order refresh Cancels s = s\<lparr>lc_ctx_done := True\<rparr>"
| "lifecycle_step ops order refresh (CallsStop g) s =
     (if lc_stops s g \<noteq> NotCalled \<or> lc_mu_held s then s
      else if stop_ch_closed (lc_cache s) then s\<lparr>lc_stops := (lc_stops s)(g := Stopped)\<rparr>
      else s\<lparr>lc_cache := stop_background_refresh (lc_cache s), lc_mu_held := True, lc_stops := (lc_stops s)(g := Waits)\<rparr>)"
| "lifecycle_step ops order refresh (EndsWait g) s =
     (if lc_stops s g = Waits \<and> workers (lc_cache s) = 0
      then s\<lparr>lc_mu_held := False, lc_stops := (lc_stops s)(g := Stopped)\<rparr> else s)"
| "lifecycle_step ops order refresh (UsesCache x) s =
     s\<lparr>lc_cache := store_step (fallback_ops ops order) x (lc_cache s)\<rparr>"

fun lifecycle_run :: "'p cache_ops \<Rightarrow> range_order \<Rightarrow> ('p, 'w) refresh_func \<Rightarrow> lifecycle_act list \<Rightarrow>
    ('p, 'w) lifecycle \<Rightarrow> ('p, 'w) lifecycle" where
  "lifecycle_run ops order refresh [] s = s"
| "lifecycle_run ops order refresh (a # as) s = lifecycle_run ops order refresh as (lifecycle_step ops order refresh a s)"

lemma lifecycle_run_append:
  "lifecycle_run ops order refresh (as @ bs) s = lifecycle_run ops order refresh bs (lifecycle_run ops order refresh as s)"
  by (induction as arbitrary: s) simp_all

subsection \<open>What the operations leave alone\<close>

definition control :: "'p fallback_cache \<Rightarrow> cache_config \<times> bool \<times> nat" where
  "control f = (fc_config f, stop_ch_closed f, workers f)"

definition keeps_control :: "('p, 'w) refresh_func \<Rightarrow> bool" where
  "keeps_control refresh \<longleftrightarrow> (\<forall>c key f w. control (fst (snd (refresh c key (f, w)))) = control f)"

lemma control_updates [simp]:
  "control (f\<lparr>primary := p\<rparr>) = control f" "control (f\<lparr>fallback := m\<rparr>) = control f" "control (f\<lparr>refresh_ch := ch\<rparr>) = control f"
  "control (set_fallback order c k v f) = control f"
  by (simp_all add: control_def set_fallback_def)

lemma fb_set_control [simp]: "control (snd (fb_set ops order c k v ttl f)) = control f"
  by (simp add: fb_set_def split_beta Let_def split: option.split)

lemma fb_get_control [simp]: "control (snd (fb_get ops order c k f)) = control f"
  by (simp add: fb_get_def split_beta Let_def split: sum.split option.split)

lemma fb_evict_control [simp]: "control (snd (fb_evict_expired ops order c f)) = control f"
  by (simp add: fb_evict_expired_def split_beta Let_def split: option.split)

lemma fallback_step_control [simp]: "control (store_step (fallback_ops ops order) x f) = control f"
  by (cases x) (simp_all add: fallback_ops_def fb_delete_def fb_clear_def split_beta)

lemma refresh_expiring_control [simp]: "control (refresh_expiring_keys order c f) = control f"
  unfolding refresh_expiring_keys_def using try_sends by (metis control_updates(3))

lemma refresh_key_control:
  assumes "keeps_control refresh"
  shows "control (fst (refresh_key ops order refresh c key (f, w))) = control f"
proof -
  have "control (fst (snd (refresh (in_call c 0) key (f, w)))) = control f" using assms by (simp add: keeps_control_def)
  then show ?thesis by (auto simp: refresh_key_def split: sum.split prod.split)
qed

lemma worker_handles_control:
  assumes "keeps_control refresh"
  shows "control (fst (snd (worker_handles ops order refresh c l (f, w)))) = control f"
proof (cases l)
  case (HandlesTick k)
  then show ?thesis by (cases k) simp_all
qed (use refresh_key_control [OF assms] in simp_all)

text \<open>The refresh function of \<open>main\<close>, which calls \<open>GetLTP\<close> on the same cache.\<close>

lemma price_run_control:
  "\<exists>f'. store_run (price_impl p) xs (FallbackCache f) = FallbackCache f' \<and> control f' = control f"
proof (induction xs arbitrary: f)
  case (Cons x xs)
  have "store_step (price_impl p) x (FallbackCache f) =
      FallbackCache (store_step (fallback_ops (float_only (redis_ops (pf_redis p))) (pf_order p)) x f)"
    by (cases x) (simp_all add: price_impl_def any_ops_def split_beta)
  then show ?case using Cons.IH by (metis fallback_step_control store_run.simps(2))
qed simp

lemma service_control:
  assumes "service p c ps (FallbackCache f, k) = (r, a, k')"
  shows "\<exists>f'. a = FallbackCache f' \<and> control f' = control f"
proof -
  obtain xs where "fst (snd (service p c ps (FallbackCache f, k))) = store_run (price_impl p) xs (FallbackCache f)"
    using get_ltp_trace [of "pf_unicode p" "price_impl p" "kraken_of p" c ps "FallbackCache f" k]
    unfolding service_def cache_of_prices by blast
  then show ?thesis using assms price_run_control [of p xs f] by simp
qed

lemma main_refresh_control: "keeps_control (fallback_refresh p cfg)"
  unfolding keeps_control_def
proof (intro allI)
  fix c key f w
  obtain r a k' where s: "service p (in_call c 0) [key] (FallbackCache f, w) = (r, a, k')" by (metis prod_cases3)
  then obtain f' where "a = FallbackCache f'" "control f' = control f" using service_control by blast
  then show "control (fst (snd (fallback_refresh p cfg c key (f, w)))) = control f"
    using s by (auto simp: fallback_refresh_def main_refresh_def split: sum.split list.split)
qed

subsection \<open>The counter and the lock\<close>

abbreviation (input) alive :: "worker_place \<Rightarrow> bool" where
  "alive l \<equiv> l \<noteq> Gone"

text \<open>
  The counter is the number of workers that have not returned.  The lock is held by the one
  goroutine that waits, and when a call has ended the channel is closed and no worker is left.
\<close>

definition lifecycle_inv :: "('p, 'w) lifecycle \<Rightarrow> bool" where
  "lifecycle_inv s \<longleftrightarrow>
     workers (lc_cache s) = length (filter alive (lc_workers s)) \<and>
     (lc_mu_held s \<longrightarrow> stop_ch_closed (lc_cache s)) \<and>
     (\<forall>g. lc_stops s g = Waits \<longrightarrow> lc_mu_held s) \<and>
     (\<forall>g h. lc_stops s g = Waits \<longrightarrow> lc_stops s h = Waits \<longrightarrow> g = h) \<and>
     (stop_ch_closed (lc_cache s) \<longrightarrow> lc_mu_held s \<or> workers (lc_cache s) = 0) \<and>
     (\<forall>g. lc_stops s g = Stopped \<longrightarrow> stop_ch_closed (lc_cache s) \<and> workers (lc_cache s) = 0)"

lemma alive_update:
  assumes "i < length ls"
  shows "length (filter alive (ls[i := l])) =
    length (filter alive ls) - (if alive (ls ! i) then 1 else 0) + (if alive l then 1 else 0)"
proof -
  have ls: "ls = take i ls @ ls ! i # drop (Suc i) ls" using assms by (rule id_take_nth_drop)
  have "ls[i := l] = take i ls @ l # drop (Suc i) ls" using assms by (rule upd_conv_take_nth_drop)
  moreover have "length (filter alive ls) =
      length (filter alive (take i ls)) + (if alive (ls ! i) then 1 else 0) + length (filter alive (drop (Suc i) ls))"
    by (subst ls) simp
  ultimately show ?thesis by simp
qed

lemma alive_count:
  assumes "i < length ls" and "alive (ls ! i)"
  shows "0 < length (filter alive ls)"
proof -
  have "ls ! i \<in> set (filter alive ls)" using assms by simp
  then show ?thesis by (rule length_pos_if_in_set)
qed

lemma started_alive: "length (filter alive (started_workers f)) = workers (start_background_refresh f) - workers f"
  by (simp add: started_workers_def start_background_refresh_def)

lemma worker_receives_cases:
  assumes "worker_receives d m k f = (l, f')"
  shows "(alive l \<and> control f' = control f) \<or> (l = Gone \<and> f' = f\<lparr>workers := workers f - 1\<rparr>)"
  using assms
  by (cases m) (auto simp: worker_returns_def split: worker_kind.splits list.splits if_splits)

lemma worker_handles_alive: "alive (fst (worker_handles ops order refresh c l (f, w))) \<longleftrightarrow> alive l"
  by (cases "(ops, order, refresh, c, l, (f, w))" rule: worker_handles.cases) simp_all

lemma lifecycle_inv_control:
  assumes "lifecycle_inv s" and "control f = control (lc_cache s)" and "length (filter alive ls) = length (filter alive (lc_workers s))"
  shows "lifecycle_inv (s\<lparr>lc_workers := ls, lc_cache := f, lc_world := w\<rparr>)"
  using assms by (auto simp: lifecycle_inv_def control_def)

lemma lifecycle_inv_step:
  assumes "keeps_control refresh" and "lifecycle_inv s" and "a \<noteq> StartsWorkers"
  shows "lifecycle_inv (lifecycle_step ops order refresh a s)"
proof (cases a)
  case (Receives i m)
  show ?thesis
  proof (cases "i < length (lc_workers s) \<and> (\<exists>k. lc_workers s ! i = AtSelect k)")
    case True
    then obtain k where i: "i < length (lc_workers s)" "lc_workers s ! i = AtSelect k" by blast
    obtain l f where r: "worker_receives (lc_ctx_done s) m k (lc_cache s) = (l, f)" by fastforce
    have mem: "0 < length (filter alive (lc_workers s))"
      using alive_count [OF i(1)] i(2) by simp
    from worker_receives_cases [OF r] show ?thesis
    proof
      assume "alive l \<and> control f = control (lc_cache s)"
      then show ?thesis using lifecycle_inv_control [OF assms(2), of f "(lc_workers s)[i := l]" "lc_world s"] i r mem
        by (simp add: Receives alive_update)
    next
      assume "l = Gone \<and> f = lc_cache s\<lparr>workers := workers (lc_cache s) - 1\<rparr>"
      then show ?thesis using assms(2) i r mem
        by (auto simp: Receives lifecycle_inv_def alive_update)
    qed
  next
    case False
    then have "lifecycle_step ops order refresh a s = s" by (auto simp: Receives split: worker_place.split)
    then show ?thesis using assms(2) by simp
  qed
next
  case (Handles i c)
  show ?thesis
  proof (cases "i < length (lc_workers s)")
    case True
    obtain l f w where h: "worker_handles ops order refresh c (lc_workers s ! i) (lc_cache s, lc_world s) = (l, f, w)"
      by (metis prod_cases3)
    have f: "control f = control (lc_cache s)" and l: "alive l \<longleftrightarrow> alive (lc_workers s ! i)"
      using worker_handles_control [OF assms(1), of ops order c "lc_workers s ! i" "lc_cache s" "lc_world s"]
        worker_handles_alive [of ops order refresh c "lc_workers s ! i" "lc_cache s" "lc_world s"] by (simp_all add: h)
    have "length (filter alive ((lc_workers s)[i := l])) = length (filter alive (lc_workers s))"
    proof (cases "alive l")
      case True
      have "0 < length (filter alive (lc_workers s))"
        using True l alive_count [OF \<open>i < length (lc_workers s)\<close>] by simp
      moreover have "length (filter alive ((lc_workers s)[i := l])) = length (filter alive (lc_workers s)) - 1 + 1"
        using True l alive_update [OF \<open>i < length (lc_workers s)\<close>, of l] by simp
      ultimately show ?thesis by linarith
    qed (use l True in \<open>simp add: alive_update\<close>)
    from lifecycle_inv_control [OF assms(2) f this] show ?thesis using True h by (simp add: Handles)
  next
    case False
    then show ?thesis using assms(2) by (simp add: Handles)
  qed
next
  case (CallsStop g)
  then show ?thesis using assms(2) by (auto simp: lifecycle_inv_def stop_background_refresh_def)
next
  case (EndsWait g)
  show ?thesis
  proof (cases "lc_stops s g = Waits \<and> workers (lc_cache s) = 0")
    case True
    then have "lc_stops s h \<noteq> Waits" if "h \<noteq> g" for h using that assms(2) unfolding lifecycle_inv_def by blast
    moreover have "stop_ch_closed (lc_cache s)" using assms(2) True unfolding lifecycle_inv_def by blast
    ultimately show ?thesis using assms(2) True by (simp add: EndsWait lifecycle_inv_def)
  next
    case False
    then have "lifecycle_step ops order refresh a s = s" by (auto simp: EndsWait)
    then show ?thesis using assms(2) by simp
  qed
next
  case (UsesCache x)
  then show ?thesis
    using lifecycle_inv_control [OF assms(2), of "store_step (fallback_ops ops order) x (lc_cache s)" "lc_workers s" "lc_world s"]
    by simp
next
  case Cancels
  then show ?thesis using assms(2) by (auto simp: lifecycle_inv_def)
qed (use assms(3) in simp)

lemma lifecycle_inv_run:
  assumes "keeps_control refresh" and "lifecycle_inv s" and "StartsWorkers \<notin> set as"
  shows "lifecycle_inv (lifecycle_run ops order refresh as s)"
  using assms(2,3)
proof (induction as arbitrary: s)
  case (Cons a as)
  then have "a \<noteq> StartsWorkers" and "StartsWorkers \<notin> set as" by auto
  then show ?case using Cons.IH lifecycle_inv_step [OF assms(1) Cons.prems(1)] by simp
qed simp

lemma lifecycle_inv_start:
  assumes "workers f = 0" and "\<not> stop_ch_closed f"
  shows "lifecycle_inv (lifecycle_step ops order refresh StartsWorkers (no_workers f w))"
  using assms started_alive [of f]
  by (simp add: lifecycle_inv_def no_workers_def start_background_refresh_def)

text \<open>A process as \<open>main\<close> runs it: the workers are started once, and then anything happens.\<close>

definition worker_run :: "('c, 'h, 'r) platform \<Rightarrow> cache_config \<Rightarrow> 'r redis_cache \<Rightarrow> 'h client \<Rightarrow> lifecycle_act list \<Rightarrow>
    ('r redis_cache, 'h client) lifecycle" where
  "worker_run p cfg r k as =
     lifecycle_run (redis_ops (pf_redis p)) (pf_order p) (fallback_refresh p cfg) (StartsWorkers # as)
       (no_workers (new_fallback_cache r cfg) k)"

lemma worker_run_inv: "StartsWorkers \<notin> set as \<Longrightarrow> lifecycle_inv (worker_run p cfg r k as)"
  unfolding worker_run_def lifecycle_run.simps
  by (intro lifecycle_inv_run main_refresh_control lifecycle_inv_start) (simp_all add: new_fallback_cache_def)

lemma gone_is_idle:
  assumes "\<forall>l\<in>set (lc_workers s). l = Gone"
  shows "lifecycle_step ops order refresh (Receives i m) s = s" and "lifecycle_step ops order refresh (Handles i c) s = s"
proof -
  have "lc_workers s ! i = Gone \<and> (lc_workers s)[i := Gone] = lc_workers s" if "i < length (lc_workers s)"
    using assms that by (metis list_update_id nth_mem)
  then show "lifecycle_step ops order refresh (Receives i m) s = s"
    and "lifecycle_step ops order refresh (Handles i c) s = s" by simp_all
qed

text \<open>
  C23: Once \<open>StopBackgroundRefresh\<close> has returned to any of its callers, every refresh worker
  and the cleanup worker have returned, so that none of them uses the cache again, which is
  then closed: whatever the workers received and handled before, however many goroutines
  call it, and whatever others do with the cache in the meantime.
\<close>

theorem stop_waits_for_workers:
  assumes "StartsWorkers \<notin> set as" and "lc_stops (worker_run p cfg r k as) g = Stopped"
  shows "(\<forall>l\<in>set (lc_workers (worker_run p cfg r k as)). l = Gone) \<and>
    lifecycle_step ops order refresh (Receives i m) (worker_run p cfg r k as) = worker_run p cfg r k as \<and>
    lifecycle_step ops order refresh (Handles i c) (worker_run p cfg r k as) = worker_run p cfg r k as"
proof -
  let ?s = "worker_run p cfg r k as"
  have inv: "lifecycle_inv ?s" using assms(1) by (rule worker_run_inv)
  then have "filter alive (lc_workers ?s) = []" using assms(2) unfolding lifecycle_inv_def by (metis length_0_conv)
  then have gone: "\<forall>l\<in>set (lc_workers ?s). l = Gone" by (simp add: filter_empty_conv)
  then show ?thesis using gone_is_idle [OF gone] by simp
qed

text \<open>A refresh worker and the cleanup worker, of which one handles a tick when it is told to stop.\<close>

definition sample_stop :: "lifecycle_act list" where
  "sample_stop = [Receives 0 TickMessage, CallsStop 7, Receives 1 StopMessage, EndsWait 7, Handles 0 (\<lambda>_. 0),
     Receives 0 StopMessage, EndsWait 7]"

theorem stop_waits_for_workers_witness:
  "list_all (\<lambda>l. l = Gone) (lc_workers (worker_run sample_platform (default_cache_config\<lparr>refresh_workers := 1\<rparr>)
      \<lparr>rd_client = (\<lambda>_. None), rd_config = default_cache_config\<rparr> (sample_client []) sample_stop))"
proof -
  let ?s = "worker_run sample_platform (default_cache_config\<lparr>refresh_workers := 1\<rparr>)
      \<lparr>rd_client = (\<lambda>_. None), rd_config = default_cache_config\<rparr> (sample_client []) sample_stop"
  have "StartsWorkers \<notin> set sample_stop" by (simp add: sample_stop_def)
  moreover have "workers (refresh_expiring_keys order c f) = workers f"
    "stop_ch_closed (refresh_expiring_keys order c f) = stop_ch_closed f" for order c and f :: "(string \<Rightarrow> string option) redis_cache fallback_cache"
    using refresh_expiring_control [of order c f] by (simp_all add: control_def)
  then have "lc_stops ?s 7 = Stopped"
    by (simp add: worker_run_def sample_stop_def no_workers_def new_fallback_cache_def start_background_refresh_def
        stop_background_refresh_def started_workers_def default_cache_config_def worker_returns_def One_nat_def)
  ultimately show ?thesis unfolding list_all_iff using stop_waits_for_workers by blast
qed

subsection \<open>The wait can end\<close>

text \<open>Each worker finishes what it handles and then receives the stop, the workers in the order \<open>js\<close>.\<close>

definition workers_leave :: "(nat \<Rightarrow> clock) \<Rightarrow> nat list \<Rightarrow> lifecycle_act list" where
  "workers_leave c js = concat (map (\<lambda>j. [Handles j (c j), Receives j StopMessage]) js)"

lemma worker_leaves:
  assumes "keeps_control refresh" and "stop_ch_closed (lc_cache s)" and "j < length (lc_workers s)"
  shows "\<exists>f w. lifecycle_run ops order refresh [Handles j c, Receives j StopMessage] s =
      s\<lparr>lc_workers := (lc_workers s)[j := Gone], lc_cache := f, lc_world := w\<rparr> \<and> stop_ch_closed f"
proof -
  obtain l f w where h: "worker_handles ops order refresh c (lc_workers s ! j) (lc_cache s, lc_world s) = (l, f, w)"
    by (metis prod_cases3)
  have closed: "stop_ch_closed f"
    using worker_handles_control [OF assms(1), of ops order c "lc_workers s ! j" "lc_cache s" "lc_world s"] assms(2)
    by (simp add: h control_def)
  have l: "l = Gone \<or> (\<exists>k. l = AtSelect k)"
    using h by (cases "(ops, order, refresh, c, lc_workers s ! j, (lc_cache s, lc_world s))" rule: worker_handles.cases) auto
  show ?thesis using l
  proof
    assume "l = Gone"
    then show ?thesis using assms(3) h closed by (intro exI [of _ f] exI [of _ w]) simp
  next
    assume "\<exists>k. l = AtSelect k"
    then show ?thesis using assms(3) h closed
      by (intro exI [of _ "f\<lparr>workers := workers f - 1\<rparr>"] exI [of _ w]) (auto simp: worker_returns_def)
  qed
qed

lemma workers_all_leave:
  assumes "keeps_control refresh" and "stop_ch_closed (lc_cache s)" and "set js \<subseteq> {..<length (lc_workers s)}"
  shows "\<exists>ls f w. lifecycle_run ops order refresh (workers_leave c js) s = s\<lparr>lc_workers := ls, lc_cache := f, lc_world := w\<rparr> \<and>
      length ls = length (lc_workers s) \<and> (\<forall>j < length ls. j \<in> set js \<or> lc_workers s ! j = Gone \<longrightarrow> ls ! j = Gone)"
  using assms(2,3)
proof (induction js arbitrary: s)
  case Nil
  then show ?case by (intro exI [of _ "lc_workers s"] exI [of _ "lc_cache s"] exI [of _ "lc_world s"]) (simp add: workers_leave_def)
next
  case (Cons j js)
  have "j < length (lc_workers s)" using Cons.prems(2) by simp
  from worker_leaves [OF assms(1) Cons.prems(1) this]
  obtain f w where j: "lifecycle_run ops order refresh [Handles j (c j), Receives j StopMessage] s =
      s\<lparr>lc_workers := (lc_workers s)[j := Gone], lc_cache := f, lc_world := w\<rparr>" "stop_ch_closed f" by blast
  let ?s = "s\<lparr>lc_workers := (lc_workers s)[j := Gone], lc_cache := f, lc_world := w\<rparr>"
  have split: "workers_leave c (j # js) = [Handles j (c j), Receives j StopMessage] @ workers_leave c js"
    by (simp add: workers_leave_def)
  obtain ls f' w' where "lifecycle_run ops order refresh (workers_leave c js) ?s = ?s\<lparr>lc_workers := ls, lc_cache := f', lc_world := w'\<rparr>"
    "length ls = length (lc_workers s)" "\<forall>i < length ls. i \<in> set js \<or> (lc_workers s)[j := Gone] ! i = Gone \<longrightarrow> ls ! i = Gone"
    using Cons.IH [of ?s] Cons.prems(2) j(2) by auto
  moreover have "(lc_workers s)[j := Gone] ! i = Gone" if "i < length (lc_workers s)" "i = j \<or> lc_workers s ! i = Gone" for i
    using that by (cases "i = j") simp_all
  ultimately show ?case unfolding split lifecycle_run_append j(1)
    by (intro exI [of _ ls] exI [of _ f'] exI [of _ w']) auto
qed

text \<open>
  C24: The wait of \<open>StopBackgroundRefresh\<close> cannot deadlock.  In every state in which a
  goroutine waits, with the lock \<open>mu\<close> held, each worker can finish what it handles and then
  receive from the closed channel, in any order of the workers, and then the wait ends:
  nothing that a worker does needs the lock.
\<close>

theorem stop_can_end:
  assumes "StartsWorkers \<notin> set as" and "lc_stops (worker_run p cfg r k as) g = Waits"
    and "set js = {..<length (lc_workers (worker_run p cfg r k as))}"
  shows "lc_stops (worker_run p cfg r k (as @ workers_leave c js @ [EndsWait g])) g = Stopped"
proof -
  let ?run = "lifecycle_run (redis_ops (pf_redis p)) (pf_order p) (fallback_refresh p cfg)"
  let ?s = "worker_run p cfg r k as"
  have inv: "lifecycle_inv ?s" using assms(1) by (rule worker_run_inv)
  then have closed: "stop_ch_closed (lc_cache ?s)" using assms(2) by (auto simp: lifecycle_inv_def)
  have js: "set js \<subseteq> {..<length (lc_workers ?s)}" using assms(3) by simp
  obtain ls f w where run: "?run (workers_leave c js) ?s = ?s\<lparr>lc_workers := ls, lc_cache := f, lc_world := w\<rparr>"
    and ls: "length ls = length (lc_workers ?s)" "\<forall>j < length ls. j \<in> set js \<or> lc_workers ?s ! j = Gone \<longrightarrow> ls ! j = Gone"
    using workers_all_leave [OF main_refresh_control closed js] by blast
  have gone: "filter alive ls = []" using ls assms(3) by (auto simp: filter_empty_conv in_set_conv_nth)
  have "StartsWorkers \<notin> set (workers_leave c js)" by (auto simp: workers_leave_def)
  then have "lifecycle_inv (?run (workers_leave c js) ?s)" using lifecycle_inv_run [OF main_refresh_control inv] by blast
  then have none: "workers f = 0" using gone by (simp add: run lifecycle_inv_def)
  have "worker_run p cfg r k (as @ workers_leave c js @ [EndsWait g]) = ?run [EndsWait g] (?run (workers_leave c js) ?s)"
    by (simp add: worker_run_def lifecycle_run_append)
  then show ?thesis using none assms(2) by (simp add: run)
qed

theorem stop_can_end_witness:
  "lc_stops (worker_run sample_platform default_cache_config \<lparr>rd_client = (\<lambda>_. None), rd_config = default_cache_config\<rparr>
     (sample_client []) ([CallsStop 7] @ workers_leave (\<lambda>_ _. 0) [5, 0, 1, 2, 3, 4] @ [EndsWait 7])) 7 = Stopped"
proof -
  let ?s = "worker_run sample_platform default_cache_config \<lparr>rd_client = (\<lambda>_. None), rd_config = default_cache_config\<rparr>
     (sample_client []) [CallsStop 7]"
  have "lc_stops ?s 7 = Waits \<and> length (lc_workers ?s) = 6"
    by (simp add: worker_run_def no_workers_def new_fallback_cache_def start_background_refresh_def
        started_workers_def default_cache_config_def)
  then have "lc_stops ?s 7 = Waits" and "length (lc_workers ?s) = 6" by blast+
  moreover from this(2) have "set [5, 0, 1, 2, 3, 4] = {..<length (lc_workers ?s)}" by (auto simp: numeral_eq_Suc less_Suc_eq)
  ultimately show ?thesis by (intro stop_can_end) simp_all
qed

end
